(* ===== verification/Rust_Prelude.thy ===== *)
theory Rust_Prelude
  imports Main "HOL-Library.Word"
begin

section \<open>Rust vocabulary shared by the components\<close>

text \<open>
  What the components take from the Rust language and its standard library: computations that
  return, fail with an error value or panic; the checked integer operations; truncating division;
  fixed-width little-endian byte strings; and the iterator adaptors the sources use. The generic
  lemmas on them are collected in the \<open>rust_simps\<close> and \<open>outcome_dests\<close> collections.
\<close>

named_theorems rust_simps \<open>rewrite rules for the Rust vocabulary\<close>
named_theorems outcome_dests \<open>inversion of computations that returned\<close>

subsection \<open>Computations that return, fail or panic\<close>

text \<open>
  A function of type \<open>Result<T, E>\<close> that may also hit an \<open>expect\<close>, \<open>unwrap\<close>, \<open>assert!\<close> or
  \<open>unreachable!\<close> returns an \<open>outcome\<close>: \<open>Ok\<close> and \<open>Err\<close> are the two variants of \<open>Result\<close>, \<open>Panic\<close> is
  the abort of the call. A function that can only panic uses the same type and never builds
  \<open>Err\<close>.
\<close>

datatype ('a, 'e) outcome = Ok 'a | Err 'e | Panic

text \<open>The question mark operator: errors and panics end the caller too.\<close>

fun and_then :: "('a, 'e) outcome \<Rightarrow> ('a \<Rightarrow> ('b, 'e) outcome) \<Rightarrow> ('b, 'e) outcome" where
  "and_then (Ok x) f = f x"
| "and_then (Err e) f = Err e"
| "and_then Panic f = Panic"

fun map_err :: "('e \<Rightarrow> 'f) \<Rightarrow> ('a, 'e) outcome \<Rightarrow> ('a, 'f) outcome" where
  "map_err g (Ok x) = Ok x"
| "map_err g (Err e) = Err (g e)"
| "map_err g Panic = Panic"

text \<open>\<open>Result::expect\<close> and \<open>Option::expect\<close>: everything but a value panics.\<close>

fun expect_ok :: "('a, 'e) outcome \<Rightarrow> ('a, 'f) outcome" where
  "expect_ok (Ok x) = Ok x"
| "expect_ok (Err e) = Panic"
| "expect_ok Panic = Panic"

fun expect :: "'a option \<Rightarrow> ('a, 'e) outcome" where
  "expect (Some x) = Ok x"
| "expect None = Panic"

fun ok_or :: "'e \<Rightarrow> 'a option \<Rightarrow> ('a, 'e) outcome" where
  "ok_or e (Some x) = Ok x"
| "ok_or e None = Err e"

fun is_ok :: "('a, 'e) outcome \<Rightarrow> bool" where
  "is_ok (Ok x) = True"
| "is_ok _ = False"

lemma and_then_Ok_iff [rust_simps]:
  "and_then r f = Ok y \<longleftrightarrow> (\<exists>x. r = Ok x \<and> f x = Ok y)"
  by (cases r) auto

lemma and_then_Panic_iff [rust_simps]:
  "and_then r f = Panic \<longleftrightarrow> r = Panic \<or> (\<exists>x. r = Ok x \<and> f x = Panic)"
  by (cases r) auto

lemma and_then_Err_iff [rust_simps]:
  "and_then r f = Err e \<longleftrightarrow> r = Err e \<or> (\<exists>x. r = Ok x \<and> f x = Err e)"
  by (cases r) auto

lemma and_then_assoc:
  "and_then (and_then r f) g = and_then r (\<lambda>x. and_then (f x) g)"
  by (cases r) auto

lemma and_then_OkD [outcome_dests]: "and_then r f = Ok y \<Longrightarrow> \<exists>x. r = Ok x \<and> f x = Ok y"
  by (simp add: and_then_Ok_iff)

lemma map_err_iff [rust_simps]:
  "map_err g r = Ok x \<longleftrightarrow> r = Ok x"
  "map_err g r = Panic \<longleftrightarrow> r = Panic"
  "map_err g r = Err f \<longleftrightarrow> (\<exists>e. r = Err e \<and> f = g e)"
  by (cases r; auto)+

lemma expect_ok_iff [rust_simps]:
  "expect_ok r = Ok x \<longleftrightarrow> r = Ok x"
  "expect_ok r = Panic \<longleftrightarrow> (\<forall>x. r \<noteq> Ok x)"
  "expect_ok r \<noteq> Err e"
  by (cases r; auto)+

lemma expect_iff [rust_simps]:
  "expect z = Ok x \<longleftrightarrow> z = Some x"
  "expect z = Panic \<longleftrightarrow> z = None"
  "expect z \<noteq> Err e"
  by (cases z; auto)+

lemma ok_or_iff [rust_simps]:
  "ok_or e z = Ok x \<longleftrightarrow> z = Some x"
  "ok_or e z = Err f \<longleftrightarrow> z = None \<and> f = e"
  "ok_or e z \<noteq> Panic"
  by (cases z; auto)+

subsection \<open>Machine integers\<close>

text \<open>
  Where a component relies on checked arithmetic, an integer of Rust is its mathematical value and
  the width is in the operation: \<open>checked lo hi\<close> is \<open>None\<close> outside the type's range. Where a
  component relies on bit patterns, its integers are words.
\<close>

definition i32_min :: int where "i32_min = - (2 ^ 31)"
definition i32_max :: int where "i32_max = 2 ^ 31 - 1"
definition i64_min :: int where "i64_min = - (2 ^ 63)"
definition i64_max :: int where "i64_max = 2 ^ 63 - 1"
definition i128_min :: int where "i128_min = - (2 ^ 127)"
definition i128_max :: int where "i128_max = 2 ^ 127 - 1"
definition u32_max :: int where "u32_max = 2 ^ 32 - 1"
definition u64_max :: int where "u64_max = 2 ^ 64 - 1"

lemmas int_bounds = i32_min_def i32_max_def i64_min_def i64_max_def i128_min_def i128_max_def
  u32_max_def u64_max_def

definition checked :: "int \<Rightarrow> int \<Rightarrow> int \<Rightarrow> int option" where
  "checked lo hi x = (if lo \<le> x \<and> x \<le> hi then Some x else None)"

lemma checked_Some_iff [rust_simps]: "checked lo hi x = Some y \<longleftrightarrow> y = x \<and> lo \<le> x \<and> x \<le> hi"
  by (auto simp: checked_def)

lemma checked_None_iff [rust_simps]: "checked lo hi x = None \<longleftrightarrow> x < lo \<or> hi < x"
  by (auto simp: checked_def)

definition saturate :: "int \<Rightarrow> int \<Rightarrow> int \<Rightarrow> int" where
  "saturate lo hi x = max lo (min hi x)"

text \<open>Integer division and remainder truncate towards zero.\<close>

definition trunc_div :: "int \<Rightarrow> int \<Rightarrow> int" where
  "trunc_div a b = (if 0 \<le> a then a div b else - (- a div b))"

definition trunc_rem :: "int \<Rightarrow> int \<Rightarrow> int" where
  "trunc_rem a b = a - b * trunc_div a b"

lemma trunc_div_bounds:
  assumes "0 < b" "lo \<le> a" "a \<le> hi" "lo \<le> 0" "0 \<le> hi"
  shows "lo \<le> trunc_div a b" and "trunc_div a b \<le> hi"
proof -
  have nonneg: "0 \<le> x div b \<and> x div b \<le> x" if "0 \<le> x" for x :: int
    using that assms(1) zdiv_mono2[of x 1 b] by (simp add: pos_imp_zdiv_nonneg_iff)
  show "lo \<le> trunc_div a b" "trunc_div a b \<le> hi"
    using nonneg[of a] nonneg[of "- a"] assms by (auto simp: trunc_div_def)
qed

subsection \<open>Slices and iterators\<close>

text \<open>\<open>slice::get\<close> and \<open>Iterator::nth\<close>.\<close>

definition list_get :: "'a list \<Rightarrow> nat \<Rightarrow> 'a option" where
  "list_get xs i = (if i < length xs then Some (xs ! i) else None)"

lemma list_get_Some [rust_simps]: "list_get xs i = Some x \<longleftrightarrow> i < length xs \<and> xs ! i = x"
  by (auto simp: list_get_def)

text \<open>\<open>Iterator::rposition\<close>: the index of the last item that satisfies the predicate.\<close>

definition rposition :: "('a \<Rightarrow> bool) \<Rightarrow> 'a list \<Rightarrow> nat option" where
  "rposition P xs =
     (let hits = filter (\<lambda>i. P (xs ! i)) [0..<length xs]
      in if hits = [] then None else Some (last hits))"

lemma rposition_Some:
  "rposition P xs = Some i \<longleftrightarrow> i < length xs \<and> P (xs ! i) \<and> (\<forall>j. i < j \<longrightarrow> j < length xs \<longrightarrow> \<not> P (xs ! j))"
proof (induction xs rule: rev_induct)
  case Nil
  then show ?case by (simp add: rposition_def)
next
  case (snoc x xs)
  have eq: "filter (\<lambda>i. P ((xs @ [x]) ! i)) [0..<length xs] = filter (\<lambda>i. P (xs ! i)) [0..<length xs]"
    by (rule filter_cong) (auto simp: nth_append)
  show ?case
  proof (cases "P x")
    case True
    then have "rposition P (xs @ [x]) = Some (length xs)" by (simp add: rposition_def Let_def)
    then show ?thesis using True by (auto simp: nth_append less_Suc_eq)
  next
    case False
    then have "rposition P (xs @ [x]) = rposition P xs" by (simp add: rposition_def Let_def eq)
    then show ?thesis using False snoc by (auto simp: nth_append less_Suc_eq)
  qed
qed

lemma rposition_None: "rposition P xs = None \<longleftrightarrow> (\<forall>x\<in>set xs. \<not> P x)"
  by (auto simp: rposition_def Let_def filter_empty_conv all_set_conv_all_nth)

text \<open>A loop whose body may fail, over the items of an iterator.\<close>

fun try_map :: "('a \<Rightarrow> ('b, 'e) outcome) \<Rightarrow> 'a list \<Rightarrow> ('b list, 'e) outcome" where
  "try_map f [] = Ok []"
| "try_map f (x # xs) = and_then (f x) (\<lambda>y. and_then (try_map f xs) (\<lambda>ys. Ok (y # ys)))"

fun try_for_each :: "('a \<Rightarrow> (unit, 'e) outcome) \<Rightarrow> 'a list \<Rightarrow> (unit, 'e) outcome" where
  "try_for_each f [] = Ok ()"
| "try_for_each f (x # xs) = and_then (f x) (\<lambda>_. try_for_each f xs)"

lemma try_map_Ok_iff: "try_map f xs = Ok ys \<longleftrightarrow> list_all2 (\<lambda>x y. f x = Ok y) xs ys"
  by (induction xs arbitrary: ys) (auto simp: and_then_Ok_iff list_all2_Cons1)

lemma try_for_each_Ok_iff: "try_for_each f xs = Ok () \<longleftrightarrow> (\<forall>x\<in>set xs. f x = Ok ())"
  by (induction xs) (auto simp: and_then_Ok_iff)

lemma try_for_each_no_panic: "(\<And>x. x \<in> set xs \<Longrightarrow> f x \<noteq> Panic) \<Longrightarrow> try_for_each f xs \<noteq> Panic"
  by (induction xs) (auto simp: and_then_Panic_iff)

subsection \<open>Text\<close>

text \<open>
  \<open>str::parse::<u32>\<close>: an optional plus sign and at least one decimal digit, with \<open>None\<close> for
  anything else and for a value above \<open>u32::MAX\<close>.
\<close>

definition digit_value :: "char \<Rightarrow> nat option" where
  "digit_value c = (let n = of_char c in if 48 \<le> n \<and> n \<le> 57 then Some (n - 48) else None)"

fun parse_digits :: "nat \<Rightarrow> string \<Rightarrow> nat option" where
  "parse_digits acc [] = Some acc"
| "parse_digits acc (c # cs) =
     Option.bind (digit_value c) (\<lambda>d.
       let n = 10 * acc + d in if int n \<le> u32_max then parse_digits n cs else None)"

definition parse_u32 :: "string \<Rightarrow> nat option" where
  "parse_u32 s =
     (let digits = (case s of c # cs \<Rightarrow> if c = CHR ''+'' then cs else s | [] \<Rightarrow> [])
      in if digits = [] then None else parse_digits 0 digits)"

text \<open>\<open>str::split\<close> at a character.\<close>

fun split_char :: "char \<Rightarrow> string \<Rightarrow> string list" where
  "split_char c [] = [[]]"
| "split_char c (x # xs) =
     (if x = c then [] # split_char c xs
      else case split_char c xs of w # ws \<Rightarrow> (x # w) # ws | [] \<Rightarrow> [[x]])"

text \<open>
  \<open>str::lines\<close>: lines end with a line feed, or a carriage return and a line feed; the last one may
  have no end. The first argument is the current line in reverse.
\<close>

definition strip_cr :: "string \<Rightarrow> string" where
  "strip_cr rs = (case rs of c # cs \<Rightarrow> if c = CHR 0x0D then cs else rs | [] \<Rightarrow> [])"

fun lines_from :: "string \<Rightarrow> string \<Rightarrow> string list" where
  "lines_from rs [] = (if rs = [] then [] else [rev rs])"
| "lines_from rs (c # cs) =
     (if c = CHR 0x0A then rev (strip_cr rs) # lines_from [] cs else lines_from (c # rs) cs)"

abbreviation str_lines :: "string \<Rightarrow> string list" where
  "str_lines \<equiv> lines_from []"

lemma parse_digits_bound: "parse_digits acc s = Some n \<Longrightarrow> int acc \<le> u32_max \<Longrightarrow> int n \<le> u32_max"
  by (induction acc s rule: parse_digits.induct) (auto simp: Let_def bind_eq_Some_conv split: if_splits)

lemma parse_u32_bound: "parse_u32 s = Some n \<Longrightarrow> int n \<le> u32_max"
  by (auto simp: parse_u32_def Let_def int_bounds split: if_splits dest!: parse_digits_bound)

lemma split_char_join: "concat (map (\<lambda>w. c # w) (split_char c s)) = c # s"
  by (induction s) (auto split: list.splits)

subsection \<open>Byte strings\<close>

type_synonym u8 = "8 word"
type_synonym u16 = "16 word"
type_synonym u32 = "32 word"
type_synonym u64 = "64 word"
type_synonym bytes = "u8 list"

primrec le_bytes :: "nat \<Rightarrow> nat \<Rightarrow> bytes" where
  "le_bytes 0 v = []"
| "le_bytes (Suc n) v = of_nat v # le_bytes n (v div 256)"

primrec le_value :: "bytes \<Rightarrow> nat" where
  "le_value [] = 0"
| "le_value (b # bs) = unat b + 256 * le_value bs"

lemma length_le_bytes [simp]: "length (le_bytes n v) = n"
  by (induction n arbitrary: v) auto

lemma unat_u8_of_nat: "unat (of_nat v :: u8) = v mod 256"
  by (simp add: unat_of_nat)

lemma le_value_le_bytes: "le_value (le_bytes n v) = v mod 256 ^ n"
proof (induction n arbitrary: v)
  case 0
  then show ?case by simp
next
  case (Suc n)
  have "v mod (256 * 256 ^ n) = 256 * (v div 256 mod 256 ^ n) + v mod 256"
    by (rule mod_mult2_eq)
  then show ?case using Suc by (simp add: unat_u8_of_nat)
qed

lemma le_value_bound: "le_value bs < 256 ^ length bs"
proof (induction bs)
  case Nil
  then show ?case by simp
next
  case (Cons b bs)
  have "unat b < 256" using unsigned_less[of b] by simp
  with Cons show ?case by simp
qed

lemma le_bytes_le_value: "le_bytes (length bs) (le_value bs) = bs"
proof (induction bs)
  case Nil
  then show ?case by simp
next
  case (Cons b bs)
  have b: "unat b < 256" using unsigned_less[of b] by simp
  have "of_nat (unat b + 256 * le_value bs) = (of_nat (unat b) :: u8)"
    by (rule word_unat_eq_iff[THEN iffD2]) (simp only: unat_u8_of_nat, simp)
  with Cons b show ?case by simp
qed

text \<open>\<open>to_be_bytes\<close> and \<open>from_be_bytes\<close>.\<close>

definition be_bytes :: "nat \<Rightarrow> nat \<Rightarrow> bytes" where
  "be_bytes n v = rev (le_bytes n v)"

definition be_value :: "bytes \<Rightarrow> nat" where
  "be_value bs = le_value (rev bs)"

lemma length_be_bytes [simp]: "length (be_bytes n v) = n"
  by (simp add: be_bytes_def)

lemma be_value_be_bytes: "be_value (be_bytes n v) = v mod 256 ^ n"
  by (simp add: be_value_def be_bytes_def le_value_le_bytes)

lemma be_bytes_be_value: "be_bytes (length bs) (be_value bs) = bs"
  using le_bytes_le_value[of "rev bs"] by (simp add: be_value_def be_bytes_def)

text \<open>Two's complement: the bit pattern of an \<open>i64\<close> as an unsigned number and back.\<close>

definition i64_bits :: "int \<Rightarrow> nat" where
  "i64_bits v = nat (v mod 2 ^ 64)"

definition bits_i64 :: "nat \<Rightarrow> int" where
  "bits_i64 n = (if n < 2 ^ 63 then int n else int n - 2 ^ 64)"

lemma bits_i64_i64_bits: "i64_min \<le> v \<Longrightarrow> v \<le> i64_max \<Longrightarrow> bits_i64 (i64_bits v) = v"
proof (cases "0 \<le> v")
  case True
  assume "i64_min \<le> v" "v \<le> i64_max"
  with True show ?thesis by (simp add: bits_i64_def i64_bits_def int_bounds nat_less_iff)
next
  case False
  assume b: "i64_min \<le> v" "v \<le> i64_max"
  have "v mod 2 ^ 64 = (v + 2 ^ 64) mod 2 ^ 64" by simp
  also have "\<dots> = v + 2 ^ 64" using False b by (intro mod_pos_pos_trivial) (auto simp: int_bounds)
  finally show ?thesis using False b
    by (simp add: bits_i64_def i64_bits_def int_bounds nat_less_iff)
qed

lemma bits_i64_range: "n < 2 ^ 64 \<Longrightarrow> i64_min \<le> bits_i64 n \<and> bits_i64 n \<le> i64_max"
  by (auto simp: bits_i64_def int_bounds)

lemma i64_bits_less: "i64_bits v < 2 ^ 64"
  by (simp add: i64_bits_def nat_less_iff)

lemma i64_bits_bits_i64: "n < 2 ^ 64 \<Longrightarrow> i64_bits (bits_i64 n) = n"
proof (cases "n < 2 ^ 63")
  case True
  then show ?thesis by (simp add: i64_bits_def bits_i64_def nat_eq_iff)
next
  case False
  assume n: "n < 2 ^ 64"
  have "(int n - 2 ^ 64) mod 2 ^ 64 = int n mod 2 ^ 64" by simp
  also have "\<dots> = int n" using n by simp
  finally show ?thesis using False by (simp add: i64_bits_def bits_i64_def)
qed

end
