(* ===== verification/Amount.thy ===== *)
theory Amount
  imports Rust_Prelude
begin

section \<open>Zatoshi amounts (zebra-chain/src/amount.rs)\<close>

text \<open>
  \<open>Amount<C>\<close> is an \<open>i64\<close> whose value lies in the range declared by the marker type \<open>C\<close>. The trait
  \<open>Constraint\<close> is passed as its dictionary: every generic operation takes the range of \<open>C\<close> as its
  first argument. The locale \<open>constraint\<close> states what every implementor promises; it is
  interpreted on the ranges of the three marker types.
\<close>

subsection \<open>Constants, constraints and errors\<close>

type_synonym amount = int
type_synonym range = "int \<times> int"

definition COIN :: int where
  "COIN = 100000000"

definition MAX_MONEY :: int where
  "MAX_MONEY = 21000000 * COIN"

lemmas money_defs = COIN_def MAX_MONEY_def

datatype marker = NegativeAllowed | NonNegative | NegativeOrZero

fun valid_range :: "marker \<Rightarrow> range" where
  "valid_range NegativeAllowed = (- MAX_MONEY, MAX_MONEY)"
| "valid_range NonNegative = (0, MAX_MONEY)"
| "valid_range NegativeOrZero = (- MAX_MONEY, 0)"

datatype amount_error =
    Constraint int range
  | Convert int
  | MultiplicationOverflow int int int
  | DivideByZero int
  | SumOverflow int nat

fun invalid_value :: "amount_error \<Rightarrow> int" where
  "invalid_value (Constraint v r) = v"
| "invalid_value (Convert v) = v"
| "invalid_value (MultiplicationOverflow a m v) = v"
| "invalid_value (DivideByZero a) = a"
| "invalid_value (SumOverflow p n) = p"

type_synonym 'a amount_result = "('a, amount_error) outcome"

definition contains :: "range \<Rightarrow> int \<Rightarrow> bool" where
  "contains r v = (fst r \<le> v \<and> v \<le> snd r)"

definition validate :: "range \<Rightarrow> int \<Rightarrow> int amount_result" where
  "validate r v = (if \<not> contains r v then Err (Constraint v r) else Ok v)"

subsection \<open>Conversions\<close>

definition try_from_i64 :: "range \<Rightarrow> int \<Rightarrow> amount amount_result" where
  "try_from_i64 r v = validate r v"

definition try_from_i32 :: "range \<Rightarrow> int \<Rightarrow> amount amount_result" where
  "try_from_i32 r v = validate r v"

text \<open>\<open>u64\<close> and \<open>i128\<close> values that do not fit an \<open>i64\<close> are rejected before the range is checked.\<close>

definition try_from_u64 :: "range \<Rightarrow> int \<Rightarrow> amount amount_result" where
  "try_from_u64 r v = and_then (ok_or (Convert v) (checked i64_min i64_max v)) (validate r)"

definition try_from_i128 :: "range \<Rightarrow> int \<Rightarrow> amount amount_result" where
  "try_from_i128 r v = and_then (ok_or (Convert v) (checked i64_min i64_max v)) (validate r)"

definition constrain :: "range \<Rightarrow> amount \<Rightarrow> amount amount_result" where
  "constrain r a = try_from_i64 r a"

definition zatoshis :: "amount \<Rightarrow> int" where
  "zatoshis a = a"

definition amount_new :: "int \<Rightarrow> amount amount_result" where
  "amount_new z = (if z \<le> MAX_MONEY \<and> 0 \<le> z then Ok z else Panic)"

definition new_from_zec :: "int \<Rightarrow> amount amount_result" where
  "new_from_zec zec = and_then (expect (checked i64_min i64_max (zec * COIN))) amount_new"

definition amount_zero :: "range \<Rightarrow> amount amount_result" where
  "amount_zero r = expect_ok (try_from_i32 r 0)"

definition is_zero :: "amount \<Rightarrow> bool" where
  "is_zero a = (a = 0)"

definition amount_to_u64 :: "amount \<Rightarrow> int amount_result" where
  "amount_to_u64 a = expect (checked 0 u64_max a)"

definition to_bytes :: "amount \<Rightarrow> bytes" where
  "to_bytes a = le_bytes 8 (i64_bits a)"

definition from_bytes :: "range \<Rightarrow> bytes \<Rightarrow> amount amount_result" where
  "from_bytes r bs = try_from_i64 r (bits_i64 (le_value bs))"

subsection \<open>Arithmetic\<close>

definition amount_add :: "range \<Rightarrow> amount \<Rightarrow> amount \<Rightarrow> amount amount_result" where
  "amount_add r a b = and_then (expect (checked i64_min i64_max (a + b))) (try_from_i64 r)"

definition amount_sub :: "range \<Rightarrow> amount \<Rightarrow> amount \<Rightarrow> amount amount_result" where
  "amount_sub r a b = and_then (expect (checked i64_min i64_max (a - b))) (try_from_i64 r)"

text \<open>The operators on \<open>Result<Amount<C>>\<close> propagate the error of either side.\<close>

definition result_add :: "range \<Rightarrow> amount amount_result \<Rightarrow> amount \<Rightarrow> amount amount_result" where
  "result_add r lhs b = and_then lhs (\<lambda>a. amount_add r a b)"

definition amount_add_result :: "range \<Rightarrow> amount \<Rightarrow> amount amount_result \<Rightarrow> amount amount_result" where
  "amount_add_result r a rhs = and_then rhs (amount_add r a)"

definition result_sub :: "range \<Rightarrow> amount amount_result \<Rightarrow> amount \<Rightarrow> amount amount_result" where
  "result_sub r lhs b = and_then lhs (\<lambda>a. amount_sub r a b)"

definition amount_sub_result :: "range \<Rightarrow> amount \<Rightarrow> amount amount_result \<Rightarrow> amount amount_result" where
  "amount_sub_result r a rhs = and_then rhs (amount_sub r a)"

definition checked_sub :: "amount \<Rightarrow> amount \<Rightarrow> amount option" where
  "checked_sub a b = Option.bind (checked i64_min i64_max (a - b))
     (\<lambda>v. case try_from_i64 (valid_range NegativeAllowed) v of Ok x \<Rightarrow> Some x | _ \<Rightarrow> None)"

definition amount_mul :: "range \<Rightarrow> amount \<Rightarrow> int \<Rightarrow> amount amount_result" where
  "amount_mul r a m =
     and_then (expect (checked i128_min i128_max (a * m)))
       (\<lambda>v. map_err (\<lambda>_. MultiplicationOverflow a m v) (try_from_i128 r v))"

definition amount_div :: "range \<Rightarrow> amount \<Rightarrow> int \<Rightarrow> amount amount_result" where
  "amount_div r a d =
     (if d = 0 then Err (DivideByZero a)
      else and_then (expect (checked i128_min i128_max (trunc_div a d)))
             (\<lambda>q. expect_ok (try_from_i128 r q)))"

definition amount_neg :: "amount \<Rightarrow> amount amount_result" where
  "amount_neg a =
     and_then (expect (checked i64_min i64_max (- a)))
       (\<lambda>v. expect_ok (try_from_i64 (valid_range NegativeAllowed) v))"

text \<open>
  \<open>div_exact\<close> builds the quotient without a range check. \<open>checked_div\<close> is \<open>None\<close> for a zero divisor
  and for \<open>i64::MIN / -1\<close>.
\<close>

definition div_exact :: "amount \<Rightarrow> int \<Rightarrow> amount amount_result" where
  "div_exact a d =
     and_then (expect (if d = 0 then None else checked i64_min i64_max (sgn d * trunc_div a \<bar>d\<bar>)))
       (\<lambda>q. if a \<noteq> d * q then Panic else Ok q)"

text \<open>
  \<open>Sum\<close> folds with \<open>+\<close> from zero and stops at the first partial sum that leaves the range. It
  reports that partial sum and how many items the iterator still holds.
\<close>

fun sum_fold :: "range \<Rightarrow> amount \<Rightarrow> amount list \<Rightarrow> amount amount_result" where
  "sum_fold r acc [] = Ok acc"
| "sum_fold r acc (x # xs) =
     (case amount_add r acc x of
        Ok acc' \<Rightarrow> sum_fold r acc' xs
      | Err (Constraint v _) \<Rightarrow> Err (SumOverflow v (length xs))
      | _ \<Rightarrow> Panic)"

definition amount_sum :: "range \<Rightarrow> amount list \<Rightarrow> amount amount_result" where
  "amount_sum r xs = and_then (amount_zero r) (\<lambda>z. sum_fold r z xs)"

subsection \<open>The contract of a constraint\<close>

locale constraint =
  fixes r :: range
  assumes zero_in: "fst r \<le> 0" "0 \<le> snd r"
    and within_money: "- MAX_MONEY \<le> fst r" "snd r \<le> MAX_MONEY"
begin

lemmas bounds = zero_in within_money money_defs int_bounds

lemma add_exact:
  assumes "contains r a" "contains r b"
  shows "amount_add r a b =
    (if contains r (a + b) then Ok (a + b) else Err (Constraint (a + b) r))"
  using assms bounds
  by (auto simp: amount_add_def try_from_i64_def validate_def contains_def checked_def)

lemma sub_exact:
  assumes "contains r a" "contains r b"
  shows "amount_sub r a b =
    (if contains r (a - b) then Ok (a - b) else Err (Constraint (a - b) r))"
  using assms bounds
  by (auto simp: amount_sub_def try_from_i64_def validate_def contains_def checked_def)

lemma neg_exact: "contains r a \<Longrightarrow> amount_neg a = Ok (- a)"
  using bounds
  by (auto simp: amount_neg_def try_from_i64_def validate_def contains_def checked_def)

lemma zero_ok: "amount_zero r = Ok 0"
  using zero_in by (simp add: amount_zero_def try_from_i32_def validate_def contains_def)

lemma try_from_i128_exact:
  "contains r v \<Longrightarrow> try_from_i128 r v = Ok v"
  "\<not> contains r v \<Longrightarrow> \<exists>e. try_from_i128 r v = Err e"
  using bounds by (auto simp: try_from_i128_def validate_def contains_def checked_def)

lemma mul_fits_i128:
  assumes "contains r a" "0 \<le> m" "m \<le> u64_max"
  shows "checked i128_min i128_max (a * m) = Some (a * m)"
proof -
  have "\<bar>a\<bar> \<le> 2 ^ 62" using assms(1) bounds by (auto simp: contains_def)
  then have "\<bar>a\<bar> * \<bar>m\<bar> \<le> 2 ^ 62 * 2 ^ 64"
    using assms(2,3) by (intro mult_mono) (auto simp: u64_max_def)
  then have "\<bar>a * m\<bar> \<le> 2 ^ 126" by (simp add: abs_mult)
  then show ?thesis by (auto simp: checked_def int_bounds abs_le_iff)
qed

lemma mul_exact:
  assumes "contains r a" "0 \<le> m" "m \<le> u64_max"
  shows "amount_mul r a m =
    (if contains r (a * m) then Ok (a * m) else Err (MultiplicationOverflow a m (a * m)))"
  using mul_fits_i128[OF assms] try_from_i128_exact[of "a * m"]
  by (auto simp: amount_mul_def)

lemma div_exact_range:
  assumes "contains r a" "0 < d"
  shows "amount_div r a d = Ok (trunc_div a d)"
proof -
  have c: "contains r (trunc_div a d)"
    using trunc_div_bounds[of d "fst r" a "snd r"] assms zero_in by (simp add: contains_def)
  then have "checked i128_min i128_max (trunc_div a d) = Some (trunc_div a d)"
    using bounds by (auto simp: contains_def checked_def)
  then show ?thesis using c assms(2) by (simp add: amount_div_def try_from_i128_exact)
qed

lemma bytes_roundtrip:
  assumes "contains r a"
  shows "from_bytes r (to_bytes a) = Ok a"
proof -
  have i: "i64_min \<le> a" "a \<le> i64_max" using assms bounds by (auto simp: contains_def)
  have "le_value (to_bytes a) = i64_bits a"
    using i64_bits_less[of a] by (simp add: to_bytes_def le_value_le_bytes)
  then show ?thesis
    using assms by (simp add: from_bytes_def try_from_i64_def validate_def bits_i64_i64_bits[OF i])
qed

text \<open>
  The fold succeeds exactly when every partial sum stays in the range, and its error names the
  first partial sum that does not.
\<close>

lemma sum_fold_exact:
  assumes "contains r acc" "\<forall>x \<in> set xs. contains r x"
  shows "sum_fold r acc xs =
    (case List.find (\<lambda>k. \<not> contains r (acc + sum_list (take k xs))) [1..<Suc (length xs)] of
       None \<Rightarrow> Ok (acc + sum_list xs)
     | Some k \<Rightarrow> Err (SumOverflow (acc + sum_list (take k xs)) (length xs - k)))"
  using assms
proof (induction xs arbitrary: acc)
  case Nil
  then show ?case by simp
next
  case (Cons x xs)
  let ?P = "\<lambda>acc xs k. \<not> contains r (acc + sum_list (take k xs))"
  have upt: "[1..<Suc (length (x # xs))] = 1 # map Suc [1..<Suc (length xs)]"
    by (simp add: upt_conv_Cons map_Suc_upt del: upt_Suc)
  have shift: "List.find P (map Suc ks) = map_option Suc (List.find (P \<circ> Suc) ks)" for P ks
    by (induction ks) auto
  have comp: "?P acc (x # xs) \<circ> Suc = ?P (acc + x) xs" by (auto simp: add.assoc)
  show ?case
  proof (cases "contains r (acc + x)")
    case True
    then have "sum_fold r acc (x # xs) = sum_fold r (acc + x) xs"
      using Cons.prems by (simp add: add_exact)
    also have "\<dots> = (case List.find (?P (acc + x) xs) [1..<Suc (length xs)] of
       None \<Rightarrow> Ok (acc + x + sum_list xs)
     | Some k \<Rightarrow> Err (SumOverflow (acc + x + sum_list (take k xs)) (length xs - k)))"
      using True Cons.prems by (intro Cons.IH) auto
    finally show ?thesis
      using True unfolding upt by (simp add: shift comp add.assoc del: upt_Suc split: option.split)
  next
    case False
    then show ?thesis using Cons.prems unfolding upt by (simp add: add_exact del: upt_Suc)
  qed
qed

end

interpretation amt: constraint "valid_range C" for C
  by unfold_locales (cases C; simp add: money_defs)+


lemma find_prefix_None:
  "List.find P [1..<Suc n] = None \<longleftrightarrow> (\<forall>k. 1 \<le> k \<and> k \<le> n \<longrightarrow> \<not> P k)"
  by (auto simp: find_None_iff simp del: upt_Suc)

lemma find_prefix_SomeD:
  assumes "List.find P [1..<Suc n] = Some k"
  shows "1 \<le> k" "k \<le> n" "P k" "\<forall>j. 1 \<le> j \<and> j < k \<longrightarrow> \<not> P j"
proof -
  from assms obtain i where i: "i < length [1..<Suc n]" "P ([1..<Suc n] ! i)" "k = [1..<Suc n] ! i"
    "\<forall>j<i. \<not> P ([1..<Suc n] ! j)"
    by (auto simp: find_Some_iff simp del: upt_Suc)
  then have k: "k = Suc i" by (simp del: upt_Suc)
  with i show "1 \<le> k" "k \<le> n" "P k" by (simp_all del: upt_Suc)
  show "\<forall>j. 1 \<le> j \<and> j < k \<longrightarrow> \<not> P j"
  proof (intro allI impI)
    fix j assume j: "1 \<le> j \<and> j < k"
    then have "j - 1 < i" using k by arith
    then have "\<not> P ([1..<Suc n] ! (j - 1))" using i(4) by blast
    then show "\<not> P j" using j i(1) k by (simp del: upt_Suc)
  qed
qed

subsection \<open>Properties\<close>

text \<open>
  C9. Arithmetic on constrained amounts is exact and never panics: with both operands in the range
  of \<open>C\<close> (and a \<open>u64\<close> multiplier, a non-zero \<open>u64\<close> divisor), \<open>+\<close>, \<open>-\<close> and \<open>*\<close> return the
  mathematical result when it is in range and the documented error carrying the out-of-range value
  otherwise; division truncates and always succeeds; negation always succeeds; dividing by zero is
  the error \<open>DivideByZero\<close>.
\<close>

theorem amount_arithmetic_exact:
  assumes "contains (valid_range C) a" "contains (valid_range C) b"
    and "0 < m" "m \<le> u64_max"
  shows "amount_add (valid_range C) a b =
      (if contains (valid_range C) (a + b) then Ok (a + b)
       else Err (Constraint (a + b) (valid_range C))) \<and>
    amount_sub (valid_range C) a b =
      (if contains (valid_range C) (a - b) then Ok (a - b)
       else Err (Constraint (a - b) (valid_range C))) \<and>
    amount_mul (valid_range C) a m =
      (if contains (valid_range C) (a * m) then Ok (a * m)
       else Err (MultiplicationOverflow a m (a * m))) \<and>
    amount_div (valid_range C) a m = Ok (trunc_div a m) \<and>
    amount_div (valid_range C) a 0 = Err (DivideByZero a) \<and>
    amount_neg a = Ok (- a)"
  using assms
  by (simp add: amt.add_exact amt.sub_exact amt.mul_exact amt.div_exact_range amt.neg_exact)
    (simp add: amount_div_def)

theorem amount_arithmetic_exact_witness:
  "amount_add (valid_range NonNegative) MAX_MONEY 1 =
      Err (Constraint (MAX_MONEY + 1) (valid_range NonNegative)) \<and>
   amount_mul (valid_range NonNegative) MAX_MONEY 2 =
      Err (MultiplicationOverflow MAX_MONEY 2 (MAX_MONEY * 2))"
  using amount_arithmetic_exact[of NonNegative MAX_MONEY 1 2]
  by (simp add: contains_def money_defs u64_max_def)

text \<open>
  C10. Summing in-range amounts returns the total exactly when every partial sum is in range; the
  first partial sum out of range is reported with the number of items not yet summed, and no other
  error or panic is possible.
\<close>

theorem amount_sum_exact:
  assumes "\<forall>x \<in> set xs. contains (valid_range C) x"
  shows "(amount_sum (valid_range C) xs = Ok (sum_list xs) \<and>
          (\<forall>k \<le> length xs. contains (valid_range C) (sum_list (take k xs)))) \<or>
    (\<exists>k. 1 \<le> k \<and> k \<le> length xs \<and>
       amount_sum (valid_range C) xs =
         Err (SumOverflow (sum_list (take k xs)) (length xs - k)) \<and>
       \<not> contains (valid_range C) (sum_list (take k xs)) \<and>
       (\<forall>j < k. contains (valid_range C) (sum_list (take j xs))))"
proof -
  let ?P = "\<lambda>k. \<not> contains (valid_range C) (0 + sum_list (take k xs))"
  have z: "contains (valid_range C) 0" using amt.zero_in[of C] by (simp add: contains_def)
  have eq: "amount_sum (valid_range C) xs =
    (case List.find ?P [1..<Suc (length xs)] of
       None \<Rightarrow> Ok (0 + sum_list xs)
     | Some k \<Rightarrow> Err (SumOverflow (0 + sum_list (take k xs)) (length xs - k)))"
    using amt.sum_fold_exact[OF z assms] by (simp add: amount_sum_def amt.zero_ok del: upt_Suc)
  show ?thesis
  proof (cases "List.find ?P [1..<Suc (length xs)]")
    case None
    then have "\<forall>k. 1 \<le> k \<and> k \<le> length xs \<longrightarrow> contains (valid_range C) (sum_list (take k xs))"
      by (simp only: find_prefix_None) simp
    then have "contains (valid_range C) (sum_list (take k xs))" if "k \<le> length xs" for k
      using that z by (cases k) auto
    with None eq show ?thesis by simp
  next
    case (Some k)
    note k = find_prefix_SomeD[OF Some]
    have "contains (valid_range C) (sum_list (take j xs))" if "j < k" for j
      using that z k(4) by (cases j) auto
    with k Some eq show ?thesis by auto
  qed
qed

theorem amount_sum_exact_witness:
  "amount_sum (valid_range NonNegative) [MAX_MONEY, 1, 5] = Err (SumOverflow (MAX_MONEY + 1) 1) \<and>
   \<not> (\<forall>k \<le> 3. contains (valid_range NonNegative) (sum_list (take k [MAX_MONEY, 1, 5])))"
proof -
  let ?xs = "[MAX_MONEY, 1, 5]"
  have h: "\<forall>x \<in> set ?xs. contains (valid_range NonNegative) x"
    by (simp add: contains_def money_defs)
  have e: "amount_sum (valid_range NonNegative) ?xs = Err (SumOverflow (MAX_MONEY + 1) 1)"
    by (simp add: amount_sum_def amount_zero_def try_from_i32_def amount_add_def try_from_i64_def
        validate_def contains_def checked_def money_defs int_bounds)
  from amount_sum_exact[OF h] e obtain k where "k \<le> length ?xs"
    "\<not> contains (valid_range NonNegative) (sum_list (take k ?xs))" by auto
  then have "k \<le> 3 \<and> \<not> contains (valid_range NonNegative) (sum_list (take k ?xs))" by simp
  with e show ?thesis by blast
qed

end
