(* ===== verification/Serialization.thy ===== *)
theory Serialization
  imports Amount
begin

section \<open>Consensus serialization (zebra-chain/src/serialization)\<close>

text \<open>
  A reader is the list of bytes still to be read: a deserializer returns a value and the bytes it
  left. A serializer returns the bytes it writes; writing to a buffer cannot fail, so its only
  failures are the errors and assertions of the code itself. The locale \<open>zcash_codec\<close> is the
  contract of the pair of traits \<open>ZcashSerialize\<close>/\<open>ZcashDeserialize\<close>: both directions of the round
  trip, so that each value has exactly one accepted encoding.
\<close>

subsection \<open>Errors, readers and writers\<close>

datatype serialization_error =
    Io
  | Parse string
  | TryFromIntError
  | AmountError amount_error
  | BadTransactionBalance

type_synonym 'a reader = "bytes \<Rightarrow> ('a \<times> bytes, serialization_error) outcome"
type_synonym 'a writer = "'a \<Rightarrow> (bytes, serialization_error) outcome"

fun from_amount_result :: "'a amount_result \<Rightarrow> ('a, serialization_error) outcome" where
  "from_amount_result r = map_err AmountError r"

text \<open>\<open>read_exact\<close> and the little-endian integer readers fail when the input is too short.\<close>

definition read_exact :: "nat \<Rightarrow> bytes reader" where
  "read_exact n bs = (if length bs < n then Err Io else Ok (take n bs, drop n bs))"

definition read_le :: "nat \<Rightarrow> nat reader" where
  "read_le n bs = and_then (read_exact n bs) (\<lambda>(b, rest). Ok (le_value b, rest))"

lemma read_exact_append [simp]: "length b = n \<Longrightarrow> read_exact n (b @ rest) = Ok (b, rest)"
  by (simp add: read_exact_def)

lemma read_exact_Ok [rust_simps]:
  "read_exact n bs = Ok (b, rest) \<longleftrightarrow> length b = n \<and> bs = b @ rest"
  by (auto simp: read_exact_def)

lemma read_exact_not_Panic [simp]: "read_exact n bs \<noteq> Panic"
  by (simp add: read_exact_def)

lemma read_le_le_bytes [simp]: "v < 256 ^ n \<Longrightarrow> read_le n (le_bytes n v @ rest) = Ok (v, rest)"
  by (simp add: read_le_def le_value_le_bytes)

lemma read_le_Ok [rust_simps]:
  "read_le n bs = Ok (v, rest) \<longleftrightarrow> v < 256 ^ n \<and> bs = le_bytes n v @ rest"
proof
  assume "read_le n bs = Ok (v, rest)"
  then obtain b where b: "length b = n" "bs = b @ rest" "v = le_value b"
    by (auto simp: read_le_def rust_simps)
  then show "v < 256 ^ n \<and> bs = le_bytes n v @ rest"
    using le_value_bound[of b] le_bytes_le_value[of b] by auto
qed simp

lemma read_le_not_Panic [simp]: "read_le n bs \<noteq> Panic"
  by (auto simp: read_le_def rust_simps)

definition MAX_PROTOCOL_MESSAGE_LEN :: nat where
  "MAX_PROTOCOL_MESSAGE_LEN = 2 * 1024 * 1024"

definition MAX_U8_ALLOCATION :: nat where
  "MAX_U8_ALLOCATION = MAX_PROTOCOL_MESSAGE_LEN - 5"

lemmas alloc_defs = MAX_PROTOCOL_MESSAGE_LEN_def MAX_U8_ALLOCATION_def

subsection \<open>CompactSize (compact_size.rs)\<close>

text \<open>A \<open>CompactSize64\<close> is its \<open>u64\<close>, a \<open>CompactSizeMessage\<close> its \<open>u32\<close>.\<close>

definition compact_size64_serialize :: "nat \<Rightarrow> bytes" where
  "compact_size64_serialize n =
     (if n \<le> 0xfc then le_bytes 1 n
      else if n \<le> 0xffff then 0xfd # le_bytes 2 n
      else if n \<le> 0xffffffff then 0xfe # le_bytes 4 n
      else 0xff # le_bytes 8 n)"

definition non_canonical :: string where
  "non_canonical = ''non-canonical CompactSize''"

definition compact_size64_deserialize :: "nat reader" where
  "compact_size64_deserialize bs =
     and_then (read_le 1 bs) (\<lambda>(flag, bs).
       if flag \<le> 0xfc then Ok (flag, bs)
       else if flag = 0xfd then and_then (read_le 2 bs) (\<lambda>(n, bs).
         if 0x00fd \<le> n then Ok (n, bs) else Err (Parse non_canonical))
       else if flag = 0xfe then and_then (read_le 4 bs) (\<lambda>(n, bs).
         if 0x00010000 \<le> n then Ok (n, bs) else Err (Parse non_canonical))
       else and_then (read_le 8 bs) (\<lambda>(n, bs).
         if 0x0000000100000000 \<le> n then Ok (n, bs) else Err (Parse non_canonical)))"

definition compact_size_message_try_from :: "nat \<Rightarrow> (nat, serialization_error) outcome" where
  "compact_size_message_try_from sz =
     (if sz > 0xffffffff then Err TryFromIntError
      else if sz > MAX_PROTOCOL_MESSAGE_LEN
        then Err (Parse ''CompactSize larger than protocol message limit'')
      else Ok sz)"

definition compact_size_message_serialize :: "nat writer" where
  "compact_size_message_serialize n =
     (if n \<le> MAX_PROTOCOL_MESSAGE_LEN then Ok (compact_size64_serialize n) else Panic)"

definition compact_size_message_deserialize :: "nat reader" where
  "compact_size_message_deserialize bs =
     and_then (compact_size64_deserialize bs) (\<lambda>(sz, bs).
       and_then (compact_size_message_try_from sz) (\<lambda>len. Ok (len, bs)))"

subsection \<open>Vectors (zcash_serialize.rs, zcash_deserialize.rs)\<close>

fun zcash_serialize_external_count :: "'a writer \<Rightarrow> 'a list writer" where
  "zcash_serialize_external_count ser [] = Ok []"
| "zcash_serialize_external_count ser (x # xs) =
     and_then (ser x) (\<lambda>b. and_then (zcash_serialize_external_count ser xs) (\<lambda>bs. Ok (b @ bs)))"

definition vec_serialize :: "'a writer \<Rightarrow> 'a list writer" where
  "vec_serialize ser xs =
     and_then (expect_ok (compact_size_message_try_from (length xs))) (\<lambda>len.
     and_then (compact_size_message_serialize len) (\<lambda>prefix.
     and_then (zcash_serialize_external_count ser xs) (\<lambda>items. Ok (prefix @ items))))"

text \<open>The loop of \<open>zcash_deserialize_external_count\<close>: one item after the other.\<close>

fun read_items :: "'a reader \<Rightarrow> nat \<Rightarrow> 'a list reader" where
  "read_items de 0 bs = Ok ([], bs)"
| "read_items de (Suc n) bs =
     and_then (de bs) (\<lambda>(x, bs). and_then (read_items de n bs) (\<lambda>(xs, bs). Ok (x # xs, bs)))"

definition zcash_deserialize_external_count :: "nat \<Rightarrow> 'a reader \<Rightarrow> nat \<Rightarrow> 'a list reader" where
  "zcash_deserialize_external_count max_allocation de count bs =
     (if count > max_allocation then Err (Parse ''Vector longer than max_allocation'')
      else read_items de count bs)"

definition vec_deserialize :: "nat \<Rightarrow> 'a reader \<Rightarrow> 'a list reader" where
  "vec_deserialize max_allocation de bs =
     and_then (compact_size_message_deserialize bs) (\<lambda>(len, bs).
       zcash_deserialize_external_count max_allocation de len bs)"

text \<open>Byte vectors are written and read in one piece.\<close>

definition zcash_serialize_bytes_external_count :: "bytes writer" where
  "zcash_serialize_bytes_external_count v = Ok v"

definition zcash_serialize_bytes :: "bytes writer" where
  "zcash_serialize_bytes v =
     and_then (compact_size_message_try_from (length v)) (\<lambda>len.
     and_then (compact_size_message_serialize len) (\<lambda>prefix.
     and_then (zcash_serialize_bytes_external_count v) (\<lambda>b. Ok (prefix @ b))))"

definition zcash_deserialize_bytes_external_count :: "nat \<Rightarrow> bytes reader" where
  "zcash_deserialize_bytes_external_count count bs =
     (if count > MAX_U8_ALLOCATION then Err (Parse ''Byte vector longer than MAX_U8_ALLOCATION'')
      else read_exact count bs)"

definition bytes_deserialize :: "bytes reader" where
  "bytes_deserialize bs =
     and_then (compact_size_message_deserialize bs) (\<lambda>(len, bs).
       zcash_deserialize_bytes_external_count len bs)"

subsection \<open>Amounts (the trait implementations of amount.rs)\<close>

definition negative_allowed_serialize :: "amount writer" where
  "negative_allowed_serialize a = Ok (le_bytes 8 (i64_bits a))"

definition negative_allowed_deserialize :: "amount reader" where
  "negative_allowed_deserialize bs =
     and_then (read_le 8 bs) (\<lambda>(n, bs).
     and_then (from_amount_result (try_from_i64 (valid_range NegativeAllowed) (bits_i64 n)))
       (\<lambda>a. Ok (a, bs)))"

definition non_negative_serialize :: "amount writer" where
  "non_negative_serialize a =
     and_then (expect (checked 0 u64_max a)) (\<lambda>v. Ok (le_bytes 8 (nat v)))"

definition non_negative_deserialize :: "amount reader" where
  "non_negative_deserialize bs =
     and_then (read_le 8 bs) (\<lambda>(n, bs).
     and_then (from_amount_result (try_from_u64 (valid_range NonNegative) (int n)))
       (\<lambda>a. Ok (a, bs)))"

subsection \<open>The contract of a codec\<close>

locale zcash_codec =
  fixes ser :: "'a writer" and de :: "'a reader" and valid :: "'a \<Rightarrow> bool"
  assumes ser_Ok: "valid x \<Longrightarrow> \<exists>b. ser x = Ok b"
    and de_ser: "valid x \<Longrightarrow> ser x = Ok b \<Longrightarrow> de (b @ rest) = Ok (x, rest)"
    and de_canonical: "de bs = Ok (x, rest) \<Longrightarrow> valid x \<and> (\<exists>b. ser x = Ok b \<and> bs = b @ rest)"
    and de_no_panic: "de bs \<noteq> Panic"
begin

lemma items_ser_Ok: "\<forall>x \<in> set xs. valid x \<Longrightarrow> \<exists>b. zcash_serialize_external_count ser xs = Ok b"
  by (induction xs) (auto simp: rust_simps dest!: ser_Ok)

lemma items_roundtrip:
  "\<forall>x \<in> set xs. valid x \<Longrightarrow> zcash_serialize_external_count ser xs = Ok b \<Longrightarrow>
   read_items de (length xs) (b @ rest) = Ok (xs, rest)"
  by (induction xs arbitrary: b) (auto simp: rust_simps de_ser)

lemma items_canonical:
  "read_items de n bs = Ok (xs, rest) \<Longrightarrow>
   length xs = n \<and> (\<forall>x \<in> set xs. valid x) \<and>
   (\<exists>b. zcash_serialize_external_count ser xs = Ok b \<and> bs = b @ rest)"
proof (induction n arbitrary: bs xs)
  case 0
  then show ?case by auto
next
  case (Suc n)
  from Suc.prems obtain x bs' ys where
    x: "de bs = Ok (x, bs')" and ys: "read_items de n bs' = Ok (ys, rest)" and xs: "xs = x # ys"
    by (auto simp: rust_simps)
  from de_canonical[OF x] obtain b where b: "valid x" "ser x = Ok b" "bs = b @ bs'" by blast
  from Suc.IH[OF ys] show ?case using b xs by (auto simp: rust_simps)
qed

lemma items_no_panic: "read_items de n bs \<noteq> Panic"
  by (induction n arbitrary: bs) (auto simp: rust_simps de_no_panic)

end

text \<open>Two codecs one after the other, as the fields of a structure are.\<close>

definition pair_serialize :: "'a writer \<Rightarrow> 'b writer \<Rightarrow> ('a \<times> 'b) writer" where
  "pair_serialize s1 s2 p =
     and_then (s1 (fst p)) (\<lambda>b. and_then (s2 (snd p)) (\<lambda>c. Ok (b @ c)))"

definition pair_deserialize :: "'a reader \<Rightarrow> 'b reader \<Rightarrow> ('a \<times> 'b) reader" where
  "pair_deserialize d1 d2 bs =
     and_then (d1 bs) (\<lambda>(x, bs). and_then (d2 bs) (\<lambda>(y, bs). Ok ((x, y), bs)))"

locale codec_pair = c1: zcash_codec s1 d1 v1 + c2: zcash_codec s2 d2 v2
  for s1 :: "'a writer" and d1 v1 and s2 :: "'b writer" and d2 v2
begin

sublocale both: zcash_codec "pair_serialize s1 s2" "pair_deserialize d1 d2" "\<lambda>p. v1 (fst p) \<and> v2 (snd p)"
proof
  fix x :: "'a \<times> 'b" assume v: "v1 (fst x) \<and> v2 (snd x)"
  then show "\<exists>b. pair_serialize s1 s2 x = Ok b"
    by (auto simp: pair_serialize_def rust_simps dest!: c1.ser_Ok c2.ser_Ok)
  fix b rest assume "pair_serialize s1 s2 x = Ok b"
  then obtain b1 b2 where "s1 (fst x) = Ok b1" "s2 (snd x) = Ok b2" "b = b1 @ b2"
    by (auto simp: pair_serialize_def rust_simps)
  then show "pair_deserialize d1 d2 (b @ rest) = Ok (x, rest)"
    using v c1.de_ser[of "fst x" b1 "b2 @ rest"] c2.de_ser[of "snd x" b2 rest]
    by (simp add: pair_deserialize_def)
next
  fix bs x rest assume "pair_deserialize d1 d2 bs = Ok (x, rest)"
  then show "(v1 (fst x) \<and> v2 (snd x)) \<and> (\<exists>b. pair_serialize s1 s2 x = Ok b \<and> bs = b @ rest)"
    by (auto simp: pair_deserialize_def pair_serialize_def rust_simps
        dest!: c1.de_canonical c2.de_canonical)
next
  fix bs show "pair_deserialize d1 d2 bs \<noteq> Panic"
    by (auto simp: pair_deserialize_def rust_simps c1.de_no_panic c2.de_no_panic)
qed

end


text \<open>A structure is encoded as the pair of its fields.\<close>

lemma codec_record:
  assumes "zcash_codec ser de valid" and gf: "\<And>x. g (f x) = x" and fg: "\<And>y. f (g y) = y"
    and ser': "\<And>x. ser' x = ser (f x)"
    and de': "\<And>bs. de' bs = and_then (de bs) (\<lambda>(y, bs). Ok (g y, bs))"
    and valid': "\<And>x. valid' x = valid (f x)"
  shows "zcash_codec ser' de' valid'"
proof -
  note codec = zcash_codec.ser_Ok[OF assms(1)] zcash_codec.de_ser[OF assms(1)]
    zcash_codec.de_canonical[OF assms(1)] zcash_codec.de_no_panic[OF assms(1)]
  show ?thesis
    by unfold_locales (auto simp: codec(1,2,4) gf fg ser' de' valid' rust_simps dest!: codec(3))
qed

subsection \<open>CompactSize is a codec\<close>

text \<open>
  The four ranges of the first byte are disjoint and every longer form rejects what a shorter one
  encodes, so that the encoding is canonical.
\<close>

lemma read_flag: "read_le (Suc 0) (b # bs) = Ok (unat b, bs)"
  by (simp add: read_le_def read_exact_def)

lemma compact_size64_roundtrip:
  assumes "n < 2 ^ 64"
  shows "compact_size64_deserialize (compact_size64_serialize n @ rest) = Ok (n, rest)"
proof -
  consider "n \<le> 0xfc" | "0xfc < n" "n \<le> 0xffff" | "0xffff < n" "n \<le> 0xffffffff" | "0xffffffff < n"
    by linarith
  then show ?thesis
    using assms
    by cases (simp_all add: compact_size64_serialize_def compact_size64_deserialize_def read_flag
        unat_u8_of_nat)
qed

lemma compact_size64_canonical:
  assumes "compact_size64_deserialize bs = Ok (n, rest)"
  shows "n < 2 ^ 64 \<and> bs = compact_size64_serialize n @ rest"
proof -
  from assms obtain flag bs' where f: "flag < 256" "bs = of_nat flag # bs'"
    and r: "(if flag \<le> 0xfc then Ok (flag, bs')
       else if flag = 0xfd then and_then (read_le 2 bs') (\<lambda>(n, bs).
         if 0x00fd \<le> n then Ok (n, bs) else Err (Parse non_canonical))
       else if flag = 0xfe then and_then (read_le 4 bs') (\<lambda>(n, bs).
         if 0x00010000 \<le> n then Ok (n, bs) else Err (Parse non_canonical))
       else and_then (read_le 8 bs') (\<lambda>(n, bs).
         if 0x0000000100000000 \<le> n then Ok (n, bs) else Err (Parse non_canonical))) = Ok (n, rest)"
    unfolding compact_size64_deserialize_def by (auto simp only: rust_simps) (auto simp: rust_simps)
  from f(1) consider "flag \<le> 0xfc" | "flag = 0xfd" | "flag = 0xfe" | "flag = 0xff" by linarith
  then show ?thesis
    using r f by cases (auto simp: compact_size64_serialize_def rust_simps split: if_splits)
qed

lemma compact_size64_no_panic: "compact_size64_deserialize bs \<noteq> Panic"
  by (auto simp: compact_size64_deserialize_def rust_simps split: if_splits)

interpretation cs64: zcash_codec "\<lambda>n. Ok (compact_size64_serialize n)" compact_size64_deserialize
  "\<lambda>n. n < 2 ^ 64"
  by unfold_locales (auto simp: compact_size64_roundtrip compact_size64_no_panic
      dest: compact_size64_canonical)

lemma compact_size_message_try_from_Ok [rust_simps]:
  "compact_size_message_try_from n = Ok m \<longleftrightarrow> m = n \<and> n \<le> MAX_PROTOCOL_MESSAGE_LEN"
  by (auto simp: compact_size_message_try_from_def alloc_defs)

lemma compact_size_message_try_from_no_panic [simp]: "compact_size_message_try_from n \<noteq> Panic"
  by (simp add: compact_size_message_try_from_def)

interpretation csm: zcash_codec compact_size_message_serialize compact_size_message_deserialize
  "\<lambda>n. n \<le> MAX_PROTOCOL_MESSAGE_LEN"
proof
  fix n b rest assume n: "n \<le> MAX_PROTOCOL_MESSAGE_LEN"
  then show "\<exists>b. compact_size_message_serialize n = Ok b"
    by (simp add: compact_size_message_serialize_def)
  assume "compact_size_message_serialize n = Ok b"
  with n have "b = compact_size64_serialize n" by (simp add: compact_size_message_serialize_def)
  with n show "compact_size_message_deserialize (b @ rest) = Ok (n, rest)"
    by (simp add: compact_size_message_deserialize_def compact_size64_roundtrip rust_simps
        alloc_defs)
next
  fix bs n rest assume "compact_size_message_deserialize bs = Ok (n, rest)"
  then show "n \<le> MAX_PROTOCOL_MESSAGE_LEN \<and>
    (\<exists>b. compact_size_message_serialize n = Ok b \<and> bs = b @ rest)"
    by (auto simp: compact_size_message_deserialize_def compact_size_message_serialize_def
        rust_simps dest!: compact_size64_canonical)
next
  fix bs show "compact_size_message_deserialize bs \<noteq> Panic"
    by (auto simp: compact_size_message_deserialize_def rust_simps compact_size64_no_panic)
qed

subsection \<open>Vectors of a codec are a codec\<close>

locale vec_codec = zcash_codec ser de valid
  for ser :: "'a writer" and de valid +
  fixes max_allocation :: nat
begin

sublocale vec: zcash_codec "vec_serialize ser" "vec_deserialize max_allocation de"
  "\<lambda>xs. length xs \<le> max_allocation \<and> length xs \<le> MAX_PROTOCOL_MESSAGE_LEN \<and> (\<forall>x \<in> set xs. valid x)"
proof
  fix xs b rest
  assume v: "length xs \<le> max_allocation \<and> length xs \<le> MAX_PROTOCOL_MESSAGE_LEN \<and>
    (\<forall>x \<in> set xs. valid x)"
  obtain p where p: "compact_size_message_serialize (length xs) = Ok p"
    using v csm.ser_Ok by blast
  obtain i where i: "zcash_serialize_external_count ser xs = Ok i" using v items_ser_Ok by blast
  have s: "vec_serialize ser xs = Ok (p @ i)"
    using v p i by (simp add: vec_serialize_def rust_simps)
  then show "\<exists>b. vec_serialize ser xs = Ok b" by blast
  assume "vec_serialize ser xs = Ok b"
  with s have "b = p @ i" by simp
  then show "vec_deserialize max_allocation de (b @ rest) = Ok (xs, rest)"
    using v i csm.de_ser[OF _ p]
    by (simp add: vec_deserialize_def zcash_deserialize_external_count_def items_roundtrip)
next
  fix bs xs rest assume "vec_deserialize max_allocation de bs = Ok (xs, rest)"
  then obtain n bs' where n: "compact_size_message_deserialize bs = Ok (n, bs')"
    and le: "n \<le> max_allocation" and it: "read_items de n bs' = Ok (xs, rest)"
    by (auto simp: vec_deserialize_def zcash_deserialize_external_count_def rust_simps
        split: if_splits)
  from csm.de_canonical[OF n] items_canonical[OF it] le
  show "(length xs \<le> max_allocation \<and> length xs \<le> MAX_PROTOCOL_MESSAGE_LEN \<and>
      (\<forall>x \<in> set xs. valid x)) \<and> (\<exists>b. vec_serialize ser xs = Ok b \<and> bs = b @ rest)"
    by (auto simp: vec_serialize_def rust_simps)
next
  fix bs show "vec_deserialize max_allocation de bs \<noteq> Panic"
    by (auto simp: vec_deserialize_def zcash_deserialize_external_count_def rust_simps
        csm.de_no_panic items_no_panic split: if_splits)
qed

end

text \<open>
  Byte vectors: the serializer accepts up to \<open>MAX_PROTOCOL_MESSAGE_LEN\<close> bytes, the deserializer
  only \<open>MAX_U8_ALLOCATION\<close>, five less.
\<close>

interpretation bytevec: zcash_codec zcash_serialize_bytes bytes_deserialize
  "\<lambda>v. length v \<le> MAX_U8_ALLOCATION"
proof
  fix v b rest :: bytes assume v: "length v \<le> MAX_U8_ALLOCATION"
  then have len: "length v \<le> MAX_PROTOCOL_MESSAGE_LEN" by (simp add: alloc_defs)
  then obtain p where p: "compact_size_message_serialize (length v) = Ok p"
    using csm.ser_Ok by blast
  have s: "zcash_serialize_bytes v = Ok (p @ v)"
    using len p by (simp add: zcash_serialize_bytes_def zcash_serialize_bytes_external_count_def
        rust_simps)
  then show "\<exists>b. zcash_serialize_bytes v = Ok b" by blast
  assume "zcash_serialize_bytes v = Ok b"
  with s have "b = p @ v" by simp
  then show "bytes_deserialize (b @ rest) = Ok (v, rest)"
    using v csm.de_ser[OF len p]
    by (simp add: bytes_deserialize_def zcash_deserialize_bytes_external_count_def)
next
  fix bs v rest assume "bytes_deserialize bs = Ok (v, rest)"
  then obtain n bs' where n: "compact_size_message_deserialize bs = Ok (n, bs')"
    "n \<le> MAX_U8_ALLOCATION" "length v = n" "bs' = v @ rest"
    by (auto simp: bytes_deserialize_def zcash_deserialize_bytes_external_count_def rust_simps
        split: if_splits)
  from csm.de_canonical[OF n(1)] n
  show "length v \<le> MAX_U8_ALLOCATION \<and> (\<exists>b. zcash_serialize_bytes v = Ok b \<and> bs = b @ rest)"
    by (auto simp: zcash_serialize_bytes_def zcash_serialize_bytes_external_count_def rust_simps)
next
  fix bs show "bytes_deserialize bs \<noteq> Panic"
    by (auto simp: bytes_deserialize_def zcash_deserialize_bytes_external_count_def rust_simps
        csm.de_no_panic split: if_splits)
qed

subsection \<open>Amounts are codecs\<close>

lemma non_negative_bounds:
  "contains (valid_range NonNegative) a \<longleftrightarrow> 0 \<le> a \<and> a \<le> MAX_MONEY"
  by (simp add: contains_def)

interpretation nn: zcash_codec non_negative_serialize non_negative_deserialize
  "contains (valid_range NonNegative)"
proof
  fix a b rest assume a: "contains (valid_range NonNegative) a"
  then have s: "non_negative_serialize a = Ok (le_bytes 8 (nat a))"
    by (simp add: non_negative_serialize_def checked_def contains_def money_defs int_bounds)
  then show "\<exists>b. non_negative_serialize a = Ok b" by blast
  assume "non_negative_serialize a = Ok b"
  with s a show "non_negative_deserialize (b @ rest) = Ok (a, rest)"
    by (simp add: non_negative_deserialize_def try_from_u64_def checked_def validate_def
        contains_def money_defs int_bounds nat_less_iff nat_le_iff)
next
  fix bs a rest assume "non_negative_deserialize bs = Ok (a, rest)"
  then show "contains (valid_range NonNegative) a \<and>
    (\<exists>b. non_negative_serialize a = Ok b \<and> bs = b @ rest)"
    by (auto simp: non_negative_deserialize_def non_negative_serialize_def try_from_u64_def
        validate_def checked_def contains_def rust_simps money_defs int_bounds split: if_splits)
next
  fix bs show "non_negative_deserialize bs \<noteq> Panic"
    by (auto simp: non_negative_deserialize_def try_from_u64_def validate_def rust_simps
        split: if_splits)
qed

interpretation na: zcash_codec negative_allowed_serialize negative_allowed_deserialize
  "contains (valid_range NegativeAllowed)"
proof
  fix a b rest assume a: "contains (valid_range NegativeAllowed) a"
  then have i: "i64_min \<le> a" "a \<le> i64_max" by (auto simp: contains_def money_defs int_bounds)
  show "\<exists>b. negative_allowed_serialize a = Ok b" by (simp add: negative_allowed_serialize_def)
  assume "negative_allowed_serialize a = Ok b"
  then have "b = le_bytes 8 (i64_bits a)" by (simp add: negative_allowed_serialize_def)
  with a show "negative_allowed_deserialize (b @ rest) = Ok (a, rest)"
    using i64_bits_less[of a]
    by (simp add: negative_allowed_deserialize_def
        try_from_i64_def validate_def bits_i64_i64_bits[OF i])
next
  fix bs a rest assume "negative_allowed_deserialize bs = Ok (a, rest)"
  then show "contains (valid_range NegativeAllowed) a \<and>
    (\<exists>b. negative_allowed_serialize a = Ok b \<and> bs = b @ rest)"
    by (auto simp: negative_allowed_deserialize_def negative_allowed_serialize_def try_from_i64_def
        validate_def rust_simps i64_bits_bits_i64 split: if_splits)
next
  fix bs show "negative_allowed_deserialize bs \<noteq> Panic"
    by (auto simp: negative_allowed_deserialize_def try_from_i64_def validate_def rust_simps
        split: if_splits)
qed

end
