(* ===== verification/Value_Balance.thy ===== *)
theory Value_Balance
  imports Serialization
begin

section \<open>Value balances (zebra-chain/src/value_balance.rs)\<close>

text \<open>
  \<open>ValueBalance<C>\<close> holds one amount per value pool. Its operators work pool by pool in the order of
  the fields and stop at the first pool whose amount leaves the range of \<open>C\<close>, naming that pool in
  the error. The pools are written to disk as six little-endian \<open>i64\<close> values; records of older
  versions have four or five.
\<close>

record value_balance =
  vb_transparent :: amount
  vb_sprout :: amount
  vb_sapling :: amount
  vb_orchard :: amount
  vb_deferred :: amount
  vb_ironwood :: amount

datatype value_balance_error =
    TransparentError amount_error
  | SproutError amount_error
  | SaplingError amount_error
  | OrchardError amount_error
  | DeferredError amount_error
  | IronwoodError amount_error
  | Unparsable

type_synonym 'a vb_result = "('a, value_balance_error) outcome"

text \<open>Every operator has the shape \<open>Ok(ValueBalance { transparent: f(..).map_err(Transparent)?, .. })\<close>.\<close>

definition pools :: "amount amount_result \<Rightarrow> amount amount_result \<Rightarrow> amount amount_result \<Rightarrow>
    amount amount_result \<Rightarrow> amount amount_result \<Rightarrow> amount amount_result \<Rightarrow> value_balance vb_result" where
  "pools t sp sa orch d i =
     and_then (map_err TransparentError t) (\<lambda>t.
     and_then (map_err SproutError sp) (\<lambda>sp.
     and_then (map_err SaplingError sa) (\<lambda>sa.
     and_then (map_err OrchardError orch) (\<lambda>orch.
     and_then (map_err DeferredError d) (\<lambda>d.
     and_then (map_err IronwoodError i) (\<lambda>i.
       Ok \<lparr>vb_transparent = t, vb_sprout = sp, vb_sapling = sa, vb_orchard = orch,
           vb_deferred = d, vb_ironwood = i\<rparr>))))))"

definition vb_zero :: value_balance where
  "vb_zero = \<lparr>vb_transparent = 0, vb_sprout = 0, vb_sapling = 0, vb_orchard = 0,
              vb_deferred = 0, vb_ironwood = 0\<rparr>"

definition from_transparent_amount :: "amount \<Rightarrow> value_balance" where
  "from_transparent_amount a = vb_zero\<lparr>vb_transparent := a\<rparr>"

definition from_sprout_amount :: "amount \<Rightarrow> value_balance" where
  "from_sprout_amount a = vb_zero\<lparr>vb_sprout := a\<rparr>"

definition from_sapling_amount :: "amount \<Rightarrow> value_balance" where
  "from_sapling_amount a = vb_zero\<lparr>vb_sapling := a\<rparr>"

definition from_orchard_amount :: "amount \<Rightarrow> value_balance" where
  "from_orchard_amount a = vb_zero\<lparr>vb_orchard := a\<rparr>"

definition from_ironwood_amount :: "amount \<Rightarrow> value_balance" where
  "from_ironwood_amount a = vb_zero\<lparr>vb_ironwood := a\<rparr>"

definition set_transparent_value_balance :: "value_balance \<Rightarrow> value_balance \<Rightarrow> value_balance" where
  "set_transparent_value_balance v w = v\<lparr>vb_transparent := vb_transparent w\<rparr>"

definition set_sprout_value_balance :: "value_balance \<Rightarrow> value_balance \<Rightarrow> value_balance" where
  "set_sprout_value_balance v w = v\<lparr>vb_sprout := vb_sprout w\<rparr>"

definition set_sapling_value_balance :: "value_balance \<Rightarrow> value_balance \<Rightarrow> value_balance" where
  "set_sapling_value_balance v w = v\<lparr>vb_sapling := vb_sapling w\<rparr>"

definition set_orchard_value_balance :: "value_balance \<Rightarrow> value_balance \<Rightarrow> value_balance" where
  "set_orchard_value_balance v w = v\<lparr>vb_orchard := vb_orchard w\<rparr>"

definition set_deferred_amount :: "value_balance \<Rightarrow> amount \<Rightarrow> value_balance" where
  "set_deferred_amount v a = v\<lparr>vb_deferred := a\<rparr>"

definition set_ironwood_value_balance :: "value_balance \<Rightarrow> value_balance \<Rightarrow> value_balance" where
  "set_ironwood_value_balance v w = v\<lparr>vb_ironwood := vb_ironwood w\<rparr>"

definition vb_constrain :: "range \<Rightarrow> value_balance \<Rightarrow> value_balance vb_result" where
  "vb_constrain r v =
     pools (constrain r (vb_transparent v)) (constrain r (vb_sprout v)) (constrain r (vb_sapling v))
       (constrain r (vb_orchard v)) (constrain r (vb_deferred v)) (constrain r (vb_ironwood v))"

definition vb_add :: "range \<Rightarrow> value_balance \<Rightarrow> value_balance \<Rightarrow> value_balance vb_result" where
  "vb_add r v w =
     pools (amount_add r (vb_transparent v) (vb_transparent w))
       (amount_add r (vb_sprout v) (vb_sprout w)) (amount_add r (vb_sapling v) (vb_sapling w))
       (amount_add r (vb_orchard v) (vb_orchard w)) (amount_add r (vb_deferred v) (vb_deferred w))
       (amount_add r (vb_ironwood v) (vb_ironwood w))"

definition vb_sub :: "range \<Rightarrow> value_balance \<Rightarrow> value_balance \<Rightarrow> value_balance vb_result" where
  "vb_sub r v w =
     pools (amount_sub r (vb_transparent v) (vb_transparent w))
       (amount_sub r (vb_sprout v) (vb_sprout w)) (amount_sub r (vb_sapling v) (vb_sapling w))
       (amount_sub r (vb_orchard v) (vb_orchard w)) (amount_sub r (vb_deferred v) (vb_deferred w))
       (amount_sub r (vb_ironwood v) (vb_ironwood w))"

definition vb_neg :: "value_balance \<Rightarrow> value_balance vb_result" where
  "vb_neg v =
     pools (amount_neg (vb_transparent v)) (amount_neg (vb_sprout v)) (amount_neg (vb_sapling v))
       (amount_neg (vb_orchard v)) (amount_neg (vb_deferred v)) (amount_neg (vb_ironwood v))"

fun vb_try_fold :: "range \<Rightarrow> value_balance \<Rightarrow> value_balance list \<Rightarrow> value_balance vb_result" where
  "vb_try_fold r acc [] = Ok acc"
| "vb_try_fold r acc (v # vs) = and_then (vb_add r acc v) (\<lambda>acc. vb_try_fold r acc vs)"

definition vb_sum :: "range \<Rightarrow> value_balance list \<Rightarrow> value_balance vb_result" where
  "vb_sum r vs = vb_try_fold r vb_zero vs"

text \<open>The value a non-coinbase transaction leaves to the miner. The deferred pool takes no part.\<close>

definition remaining_transaction_value :: "value_balance \<Rightarrow> amount amount_result" where
  "remaining_transaction_value v =
     (let r = valid_range NegativeAllowed in
      and_then
        (result_add r (result_add r (result_add r (amount_add r (vb_transparent v) (vb_sprout v))
           (vb_sapling v)) (vb_orchard v)) (vb_ironwood v))
        (constrain (valid_range NonNegative)))"

definition add_chain_value_pool_change :: "value_balance \<Rightarrow> value_balance \<Rightarrow> value_balance vb_result" where
  "add_chain_value_pool_change pool change =
     and_then (expect_ok (vb_constrain (valid_range NegativeAllowed) pool)) (\<lambda>pool.
     and_then (vb_add (valid_range NegativeAllowed) pool change) (\<lambda>pool.
       vb_constrain (valid_range NonNegative) pool))"

definition vb_to_bytes :: "value_balance \<Rightarrow> bytes" where
  "vb_to_bytes v =
     concat [to_bytes (vb_transparent v), to_bytes (vb_sprout v), to_bytes (vb_sapling v),
             to_bytes (vb_orchard v), to_bytes (vb_deferred v), to_bytes (vb_ironwood v)]"

definition byte_range :: "nat \<Rightarrow> nat \<Rightarrow> bytes \<Rightarrow> bytes" where
  "byte_range from to bs = take (to - from) (drop from bs)"

text \<open>Indexing a slice by a range panics when the range is not inside the slice.\<close>

definition byte_slice :: "nat \<Rightarrow> nat \<Rightarrow> bytes \<Rightarrow> (bytes, 'e) outcome" where
  "byte_slice from to bs = (if from \<le> to \<and> to \<le> length bs then Ok (byte_range from to bs) else Panic)"

definition vb_from_bytes :: "bytes \<Rightarrow> value_balance vb_result" where
  "vb_from_bytes bs =
     (let r = valid_range NonNegative; n = length bs;
          field = (\<lambda>from to. and_then (byte_slice from to bs) (from_bytes r)) in
      if n \<noteq> 32 \<and> n \<noteq> 40 \<and> n \<noteq> 48 then Err Unparsable
      else pools (field 0 8) (field 8 16) (field 16 24) (field 24 32)
        (if n = 32 then amount_zero r else field 32 40)
        (if n = 48 then field 40 48 else amount_zero r))"

subsection \<open>Pools as a list of amounts\<close>

text \<open>
  The lemmas below are about all pools at once: \<open>amounts v\<close> lists them in field order, \<open>vb_map2 f\<close>
  combines two balances pool by pool.
\<close>

definition amounts :: "value_balance \<Rightarrow> amount list" where
  "amounts v = [vb_transparent v, vb_sprout v, vb_sapling v, vb_orchard v, vb_deferred v, vb_ironwood v]"

definition vb_ok :: "range \<Rightarrow> value_balance \<Rightarrow> bool" where
  "vb_ok r v \<longleftrightarrow> (\<forall>a \<in> set (amounts v). contains r a)"

definition vb_map2 :: "(int \<Rightarrow> int \<Rightarrow> int) \<Rightarrow> value_balance \<Rightarrow> value_balance \<Rightarrow> value_balance" where
  "vb_map2 f v w = \<lparr>vb_transparent = f (vb_transparent v) (vb_transparent w),
     vb_sprout = f (vb_sprout v) (vb_sprout w), vb_sapling = f (vb_sapling v) (vb_sapling w),
     vb_orchard = f (vb_orchard v) (vb_orchard w), vb_deferred = f (vb_deferred v) (vb_deferred w),
     vb_ironwood = f (vb_ironwood v) (vb_ironwood w)\<rparr>"

lemma vb_ok_simps [simp]:
  "vb_ok r v \<longleftrightarrow> contains r (vb_transparent v) \<and> contains r (vb_sprout v) \<and> contains r (vb_sapling v) \<and>
     contains r (vb_orchard v) \<and> contains r (vb_deferred v) \<and> contains r (vb_ironwood v)"
  by (simp add: vb_ok_def amounts_def)

lemma pools_Ok [rust_simps]:
  "pools t sp sa orch d i = Ok v \<longleftrightarrow>
     t = Ok (vb_transparent v) \<and> sp = Ok (vb_sprout v) \<and> sa = Ok (vb_sapling v) \<and>
     orch = Ok (vb_orchard v) \<and> d = Ok (vb_deferred v) \<and> i = Ok (vb_ironwood v)"
  by (cases v) (auto simp: pools_def rust_simps)

lemma pools_not_Panic:
  "t \<noteq> Panic \<Longrightarrow> sp \<noteq> Panic \<Longrightarrow> sa \<noteq> Panic \<Longrightarrow> orch \<noteq> Panic \<Longrightarrow> d \<noteq> Panic \<Longrightarrow> i \<noteq> Panic \<Longrightarrow>
   pools t sp sa orch d i \<noteq> Panic"
  by (auto simp: pools_def rust_simps)

lemma constrain_Ok [rust_simps]: "constrain r a = Ok b \<longleftrightarrow> b = a \<and> contains r a"
  by (auto simp: constrain_def try_from_i64_def validate_def)

lemma constrain_not_Panic [simp]: "constrain r a \<noteq> Panic"
  by (simp add: constrain_def try_from_i64_def validate_def)

lemma vb_constrain_Ok [rust_simps]: "vb_constrain r v = Ok w \<longleftrightarrow> w = v \<and> vb_ok r v"
  by (auto simp: vb_constrain_def rust_simps)

lemma vb_constrain_not_Panic [simp]: "vb_constrain r v \<noteq> Panic"
  unfolding vb_constrain_def by (intro pools_not_Panic) simp_all

lemma non_negative_allowed: "contains (valid_range NonNegative) a \<Longrightarrow> contains (valid_range NegativeAllowed) a"
  by (simp add: contains_def money_defs)

context constraint
begin

lemma add_Ok: "contains r a \<Longrightarrow> contains r b \<Longrightarrow> amount_add r a b = Ok c \<longleftrightarrow> c = a + b \<and> contains r (a + b)"
  by (auto simp: add_exact)

lemma sub_Ok: "contains r a \<Longrightarrow> contains r b \<Longrightarrow> amount_sub r a b = Ok c \<longleftrightarrow> c = a - b \<and> contains r (a - b)"
  by (auto simp: sub_exact)

lemma add_not_Panic: "contains r a \<Longrightarrow> contains r b \<Longrightarrow> amount_add r a b \<noteq> Panic"
  by (simp add: add_exact)

lemma vb_add_Ok:
  "vb_ok r v \<Longrightarrow> vb_ok r w \<Longrightarrow>
   vb_add r v w = Ok u \<longleftrightarrow> u = vb_map2 (+) v w \<and> vb_ok r (vb_map2 (+) v w)"
  by (cases u) (auto simp: vb_add_def rust_simps add_Ok vb_map2_def)

lemma vb_sub_Ok:
  "vb_ok r v \<Longrightarrow> vb_ok r w \<Longrightarrow>
   vb_sub r v w = Ok u \<longleftrightarrow> u = vb_map2 (-) v w \<and> vb_ok r (vb_map2 (-) v w)"
  by (cases u) (auto simp: vb_sub_def rust_simps sub_Ok vb_map2_def)

lemma vb_add_not_Panic: "vb_ok r v \<Longrightarrow> vb_ok r w \<Longrightarrow> vb_add r v w \<noteq> Panic"
  unfolding vb_add_def by (intro pools_not_Panic) (simp_all add: add_not_Panic)

lemma vb_zero_ok: "vb_ok r vb_zero"
  using zero_in by (simp add: vb_zero_def contains_def)

lemma vb_neg_Ok: "vb_ok r v \<Longrightarrow> vb_neg v = Ok w \<longleftrightarrow> w = vb_map2 (-) vb_zero v"
  by (cases w) (auto simp: vb_neg_def rust_simps neg_exact vb_map2_def vb_zero_def)

lemma from_bytes_Ok:
  assumes "length bs = 8"
  shows "from_bytes r bs = Ok a \<longleftrightarrow> contains r a \<and> bs = to_bytes a"
proof
  assume "from_bytes r bs = Ok a"
  then have a: "a = bits_i64 (le_value bs)" "contains r a"
    by (auto simp: from_bytes_def try_from_i64_def validate_def split: if_splits)
  have "le_value bs < 2 ^ 64" using le_value_bound[of bs] assms by simp
  then have "to_bytes a = le_bytes (length bs) (le_value bs)"
    using a(1) assms by (simp add: to_bytes_def i64_bits_bits_i64)
  then show "contains r a \<and> bs = to_bytes a" using a(2) by (simp add: le_bytes_le_value)
qed (use bytes_roundtrip in auto)

end


lemmas nn_ops = amt.vb_add_Ok[of NonNegative] amt.vb_add_not_Panic[of NonNegative]
lemmas na_ops = amt.vb_add_Ok[of NegativeAllowed] amt.vb_add_not_Panic[of NegativeAllowed]

lemma vb_non_negative_allowed: "vb_ok (valid_range NonNegative) v \<Longrightarrow> vb_ok (valid_range NegativeAllowed) v"
  by (simp add: non_negative_allowed del: valid_range.simps)

lemma add_chain_value_pool_change_Ok:
  assumes "vb_ok (valid_range NonNegative) pool" "vb_ok (valid_range NegativeAllowed) change"
  shows "add_chain_value_pool_change pool change = Ok w \<longleftrightarrow>
    w = vb_map2 (+) pool change \<and> vb_ok (valid_range NonNegative) w"
proof -
  note p = vb_non_negative_allowed[OF assms(1)]
  have "add_chain_value_pool_change pool change = Ok w \<longleftrightarrow>
    w = vb_map2 (+) pool change \<and> vb_ok (valid_range NegativeAllowed) (vb_map2 (+) pool change) \<and>
    vb_ok (valid_range NonNegative) w"
    using p by (auto simp: add_chain_value_pool_change_def rust_simps na_ops(1)[OF p assms(2)]
        simp del: vb_ok_simps valid_range.simps)
  then show ?thesis using vb_non_negative_allowed by blast
qed

lemma add_chain_value_pool_change_not_Panic:
  assumes "vb_ok (valid_range NonNegative) pool" "vb_ok (valid_range NegativeAllowed) change"
  shows "add_chain_value_pool_change pool change \<noteq> Panic"
  using vb_non_negative_allowed[OF assms(1)] na_ops(2)[of pool change] assms(2)
  by (auto simp: add_chain_value_pool_change_def rust_simps simp del: vb_ok_simps valid_range.simps)

text \<open>The running sum of \<open>remaining_transaction_value\<close> is a fold, like \<open>Sum\<close>.\<close>

lemma result_add_Ok [rust_simps]:
  "result_add r x b = Ok c \<longleftrightarrow> (\<exists>a. x = Ok a \<and> amount_add r a b = Ok c)"
  by (auto simp: result_add_def rust_simps)

lemma amount_add_OkD: "amount_add r a b = Ok c \<Longrightarrow> c = a + b \<and> contains r c"
  by (auto simp: amount_add_def try_from_i64_def validate_def rust_simps split: if_splits)

lemma remaining_transaction_value_Ok:
  assumes "remaining_transaction_value v = Ok a"
  shows "a = vb_transparent v + vb_sprout v + vb_sapling v + vb_orchard v + vb_ironwood v"
    and "contains (valid_range NonNegative) a"
  using assms by (auto simp: remaining_transaction_value_def Let_def rust_simps
      simp del: valid_range.simps dest!: amount_add_OkD)

subsection \<open>Properties\<close>

text \<open>
  C3. Applying a change to the chain value pools succeeds exactly when every pool stays between
  zero and \<open>MAX_MONEY\<close>, the new balance is the pool-wise sum, the call never panics, and a change
  that was applied can be reverted: applying its negation gives back the old pools.
\<close>

theorem chain_value_pool_change_exact:
  assumes "vb_ok (valid_range NonNegative) pool" "vb_ok (valid_range NegativeAllowed) change"
  shows "(\<forall>w. add_chain_value_pool_change pool change = Ok w \<longleftrightarrow>
      w = vb_map2 (+) pool change \<and> vb_ok (valid_range NonNegative) w) \<and>
    add_chain_value_pool_change pool change \<noteq> Panic \<and>
    (\<forall>w change'. add_chain_value_pool_change pool change = Ok w \<and> vb_neg change = Ok change' \<longrightarrow>
      add_chain_value_pool_change w change' = Ok pool)"
proof (intro conjI allI impI)
  fix w
  show "add_chain_value_pool_change pool change = Ok w \<longleftrightarrow>
      w = vb_map2 (+) pool change \<and> vb_ok (valid_range NonNegative) w"
    by (rule add_chain_value_pool_change_Ok[OF assms])
next
  show "add_chain_value_pool_change pool change \<noteq> Panic"
    by (rule add_chain_value_pool_change_not_Panic[OF assms])
next
  fix w change'
  assume h: "add_chain_value_pool_change pool change = Ok w \<and> vb_neg change = Ok change'"
  then have w: "w = vb_map2 (+) pool change" "vb_ok (valid_range NonNegative) w"
    using add_chain_value_pool_change_Ok[OF assms] by blast+
  have c: "change' = vb_map2 (-) vb_zero change" using h assms(2) by (simp only: amt.vb_neg_Ok)
  then have ok: "vb_ok (valid_range NegativeAllowed) change'"
    using assms(2) by (simp add: vb_map2_def vb_zero_def contains_def)
  have "pool = vb_map2 (+) w change'" by (simp add: w c vb_map2_def vb_zero_def)
  then show "add_chain_value_pool_change w change' = Ok pool"
    using add_chain_value_pool_change_Ok[OF w(2) ok] assms(1) by blast
qed

theorem chain_value_pool_change_exact_witness:
  "\<exists>w. add_chain_value_pool_change (from_sapling_amount 10) (from_sapling_amount (- 4)) = Ok w \<and>
       vb_sapling w = 6"
  using chain_value_pool_change_exact[of "from_sapling_amount 10" "from_sapling_amount (- 4)"]
  by (simp add: from_sapling_amount_def vb_zero_def vb_map2_def contains_def money_defs)

lemma length_to_bytes [simp]: "length (to_bytes a) = 8"
  by (simp add: to_bytes_def)

lemma slices_of_concat:
  assumes "length t = 8" "length sp = 8" "length sa = 8" "length orch = 8"
  shows "byte_range 0 8 (t @ sp @ sa @ orch @ bs) = t" "byte_range 8 16 (t @ sp @ sa @ orch @ bs) = sp"
    "byte_range 16 24 (t @ sp @ sa @ orch @ bs) = sa" "byte_range 24 32 (t @ sp @ sa @ orch @ bs) = orch"
    "byte_range 32 40 (t @ sp @ sa @ orch @ bs) = take 8 bs"
    "byte_range 40 48 (t @ sp @ sa @ orch @ bs) = take 8 (drop 8 bs)"
  using assms by (auto simp: byte_range_def)

lemma slices_cover:
  assumes "length bs = 32 \<or> length bs = 40 \<or> length bs = 48"
  shows "bs = byte_range 0 8 bs @ byte_range 8 16 bs @ byte_range 16 24 bs @ byte_range 24 32 bs @
    take 8 (drop 32 bs) @ drop 40 bs"
proof -
  have s: "drop n bs = take 8 (drop n bs) @ drop (n + 8) bs" for n
    using append_take_drop_id[of 8 "drop n bs"] by (simp add: add.commute)
  show ?thesis using s[of 0] s[of 8] s[of 16] s[of 24] s[of 32] by (simp add: byte_range_def)
qed

text \<open>At the three lengths every range is inside the record.\<close>

lemma vb_from_bytes_eq:
  "vb_from_bytes bs =
     (let r = valid_range NonNegative; n = length bs in
      if n \<noteq> 32 \<and> n \<noteq> 40 \<and> n \<noteq> 48 then Err Unparsable
      else pools (from_bytes r (byte_range 0 8 bs)) (from_bytes r (byte_range 8 16 bs))
        (from_bytes r (byte_range 16 24 bs)) (from_bytes r (byte_range 24 32 bs))
        (if n = 32 then amount_zero r else from_bytes r (byte_range 32 40 bs))
        (if n = 48 then from_bytes r (byte_range 40 48 bs) else amount_zero r))"
  by (auto simp: vb_from_bytes_def byte_slice_def Let_def simp del: valid_range.simps)

lemma vb_from_bytes_no_panic: "vb_from_bytes bs \<noteq> Panic"
proof -
  let ?r = "valid_range NonNegative"
  have "from_bytes ?r b \<noteq> Panic" for b by (simp add: from_bytes_def try_from_i64_def validate_def)
  moreover have "amount_zero ?r \<noteq> Panic" using amt.zero_ok[of NonNegative] by simp
  ultimately show ?thesis
    unfolding vb_from_bytes_eq Let_def by (simp add: pools_not_Panic del: valid_range.simps)
qed

text \<open>
  C13. The on-disk record of the chain value pools round-trips: 48 bytes that parse back to the same
  balance; the 40- and 32-byte records of older versions parse with the missing pools zero; and
  every accepted record is the prefix of the encoding of the balance it parses to, with all pools
  between zero and \<open>MAX_MONEY\<close>. A record of any other length is refused as \<open>Unparsable\<close>, and no record
  makes the parser panic.
\<close>

theorem value_balance_bytes_roundtrip:
  "(vb_ok (valid_range NonNegative) v \<longrightarrow>
      length (vb_to_bytes v) = 48 \<and> vb_from_bytes (vb_to_bytes v) = Ok v \<and>
      vb_from_bytes (take 40 (vb_to_bytes v)) = Ok (v\<lparr>vb_ironwood := 0\<rparr>) \<and>
      vb_from_bytes (take 32 (vb_to_bytes v)) = Ok (v\<lparr>vb_deferred := 0, vb_ironwood := 0\<rparr>)) \<and>
   (vb_from_bytes bs = Ok v \<longrightarrow>
      vb_ok (valid_range NonNegative) v \<and> bs = take (length bs) (vb_to_bytes v)) \<and>
   (length bs \<notin> {32, 40, 48} \<longrightarrow> vb_from_bytes bs = Err Unparsable) \<and>
   vb_from_bytes bs \<noteq> Panic"
proof (intro conjI impI)
  let ?r = "valid_range NonNegative"
  assume ok: "vb_ok ?r v"
  note rt = amt.bytes_roundtrip[of NonNegative] and z = amt.zero_ok[of NonNegative]
  have enc: "vb_to_bytes v = to_bytes (vb_transparent v) @ to_bytes (vb_sprout v) @
    to_bytes (vb_sapling v) @ to_bytes (vb_orchard v) @ to_bytes (vb_deferred v) @
    to_bytes (vb_ironwood v)" by (simp add: vb_to_bytes_def)
  show "length (vb_to_bytes v) = 48" by (simp add: enc)
  show "vb_from_bytes (vb_to_bytes v) = Ok v"
    using ok by (simp add: vb_from_bytes_eq enc Let_def slices_of_concat
        slices_of_concat[where bs = "[]", simplified] rust_simps rt z del: valid_range.simps)
  show "vb_from_bytes (take 40 (vb_to_bytes v)) = Ok (v\<lparr>vb_ironwood := 0\<rparr>)"
    using ok by (simp add: vb_from_bytes_eq enc Let_def slices_of_concat
        slices_of_concat[where bs = "[]", simplified] rust_simps rt z del: valid_range.simps)
  show "vb_from_bytes (take 32 (vb_to_bytes v)) = Ok (v\<lparr>vb_deferred := 0, vb_ironwood := 0\<rparr>)"
    using ok by (simp add: vb_from_bytes_eq enc Let_def slices_of_concat
        slices_of_concat[where bs = "[]", simplified] rust_simps rt z del: valid_range.simps)
next
  let ?r = "valid_range NonNegative"
  assume "vb_from_bytes bs = Ok v"
  then have n: "length bs = 32 \<or> length bs = 40 \<or> length bs = 48"
    and p: "pools (from_bytes ?r (byte_range 0 8 bs)) (from_bytes ?r (byte_range 8 16 bs))
        (from_bytes ?r (byte_range 16 24 bs)) (from_bytes ?r (byte_range 24 32 bs))
        (if length bs = 32 then amount_zero ?r else from_bytes ?r (byte_range 32 40 bs))
        (if length bs = 48 then from_bytes ?r (byte_range 40 48 bs) else amount_zero ?r) = Ok v"
    by (auto simp: vb_from_bytes_eq Let_def simp del: valid_range.simps split: if_splits)
  have len: "length (byte_range 0 8 bs) = 8" "length (byte_range 8 16 bs) = 8" "length (byte_range 16 24 bs) = 8"
    "length (byte_range 24 32 bs) = 8" using n by (auto simp: byte_range_def)
  have first: "contains ?r (vb_transparent v)" "contains ?r (vb_sprout v)" "contains ?r (vb_sapling v)"
    "contains ?r (vb_orchard v)"
    "bs = to_bytes (vb_transparent v) @ to_bytes (vb_sprout v) @ to_bytes (vb_sapling v) @
      to_bytes (vb_orchard v) @ take 8 (drop 32 bs) @ drop 40 bs"
    using p slices_cover[OF n] len by (auto simp: rust_simps amt.from_bytes_Ok simp del: valid_range.simps)
  have z0: "contains ?r 0" by (simp add: contains_def money_defs)
  have rest: "contains ?r (vb_deferred v) \<and> contains ?r (vb_ironwood v) \<and>
    take 8 (drop 32 bs) @ drop 40 bs =
      take (length bs - 32) (to_bytes (vb_deferred v) @ to_bytes (vb_ironwood v))"
    using n p z0 by (auto simp: rust_simps amt.from_bytes_Ok amt.zero_ok byte_range_def
        simp del: valid_range.simps)
  show "vb_ok ?r v" using first rest by (simp del: valid_range.simps)
  show "bs = take (length bs) (vb_to_bytes v)"
    using first(5) rest n by (elim disjE) (simp_all add: vb_to_bytes_def)
qed (simp_all add: vb_from_bytes_no_panic, simp add: vb_from_bytes_eq)

theorem value_balance_bytes_roundtrip_witness:
  "vb_from_bytes (vb_to_bytes (from_orchard_amount 7)) = Ok (from_orchard_amount 7) \<and>
   vb_ok (valid_range NonNegative) (from_orchard_amount 7) \<and> vb_from_bytes [] = Err Unparsable"
  using value_balance_bytes_roundtrip[of "from_orchard_amount 7" "[]"]
  by (simp add: from_orchard_amount_def vb_zero_def contains_def money_defs)

end
