(* ===== verification/Block_Height.thy ===== *)
theory Block_Height
  imports Rust_Prelude
begin

section \<open>Block heights (zebra-chain/src/block/height.rs)\<close>

text \<open>
  \<open>Height\<close> wraps a \<open>u32\<close> and is its value here; a valid height is at most \<open>Height::MAX\<close>. A
  \<open>HeightDiff\<close> is an \<open>i64\<close>. Adding or subtracting a difference converts the height to \<open>i64\<close> first;
  the release profile wraps on overflow, which \<open>wrap_i64\<close> writes out.
\<close>

type_synonym height = nat

definition HEIGHT_MIN :: height where
  "HEIGHT_MIN = 0"

definition HEIGHT_MAX :: height where
  "HEIGHT_MAX = 2147483647"

definition MAX_EXPIRY_HEIGHT :: height where
  "MAX_EXPIRY_HEIGHT = 499999999"

datatype height_error = Overflow | Underflow

definition wrap_i64 :: "int \<Rightarrow> int" where
  "wrap_i64 x = bits_i64 (i64_bits x)"

definition height_try_from_u32 :: "nat \<Rightarrow> height option" where
  "height_try_from_u32 h = (if h \<le> HEIGHT_MAX then Some h else None)"

definition height_from_str :: "string \<Rightarrow> (height, string) outcome" where
  "height_from_str s =
     (case parse_u32 s of
        Some h \<Rightarrow> if h \<le> HEIGHT_MAX then Ok h else Err ''Height exceeds maximum height''
      | None \<Rightarrow> Err ''Height(u32) integer parse error'')"

text \<open>The conversion from \<open>i64\<close> checks the \<open>u32\<close> range only, not \<open>Height::MAX\<close>.\<close>

definition height_try_from_i64 :: "int \<Rightarrow> height option" where
  "height_try_from_i64 h = map_option nat (checked 0 u32_max h)"

definition try_into_height :: "int \<Rightarrow> height option" where
  "try_into_height n = Option.bind (checked 0 u32_max n) (\<lambda>h. height_try_from_u32 (nat h))"

definition height_sub :: "height \<Rightarrow> height \<Rightarrow> int" where
  "height_sub a b = int a - int b"

definition height_plus :: "height \<Rightarrow> int \<Rightarrow> height option" where
  "height_plus h d =
     (let res = wrap_i64 (int h + d)
      in Option.bind (checked 0 u32_max res) (\<lambda>r. height_try_from_u32 (nat r)))"

definition height_minus :: "height \<Rightarrow> int \<Rightarrow> height option" where
  "height_minus h d =
     (let res = wrap_i64 (int h - d)
      in Option.bind (checked 0 u32_max res) (\<lambda>r. height_try_from_u32 (nat r)))"

definition height_next :: "height \<Rightarrow> (height, height_error) outcome" where
  "height_next h = ok_or Overflow (height_plus h 1)"

definition height_previous :: "height \<Rightarrow> (height, height_error) outcome" where
  "height_previous h = ok_or Underflow (height_minus h 1)"

definition is_min :: "height \<Rightarrow> bool" where
  "is_min h = (h = HEIGHT_MIN)"

subsection \<open>Heights and differences are exact\<close>

lemma wrap_i64_exact: "i64_min \<le> x \<Longrightarrow> x \<le> i64_max \<Longrightarrow> wrap_i64 x = x"
  by (simp add: wrap_i64_def bits_i64_i64_bits)

lemma wrap_i64_add_above:
  assumes "i64_max < x" "x \<le> i64_max + 2 ^ 32"
  shows "wrap_i64 x < 0"
proof -
  have "x mod 2 ^ 64 = x" using assms by (intro mod_pos_pos_trivial) (auto simp: int_bounds)
  then show ?thesis using assms
    by (auto simp: wrap_i64_def i64_bits_def bits_i64_def int_bounds nat_less_iff)
qed

text \<open>
  For every \<open>u32\<close> height and every \<open>i64\<close> difference, the sum is the exact one when it is a valid
  height and \<open>None\<close> otherwise: a wrapped intermediate value is negative and is rejected too.
\<close>

lemma height_plus_exact:
  assumes "h < 2 ^ 32" "i64_min \<le> d" "d \<le> i64_max"
  shows "height_plus h d =
    (if 0 \<le> int h + d \<and> int h + d \<le> int HEIGHT_MAX then Some (nat (int h + d)) else None)"
proof (cases "int h + d \<le> i64_max")
  case True
  then have "wrap_i64 (int h + d) = int h + d" using assms by (intro wrap_i64_exact) auto
  then show ?thesis
    by (auto simp: height_plus_def height_try_from_u32_def checked_def Let_def HEIGHT_MAX_def
        int_bounds nat_le_iff)
next
  case False
  then have "wrap_i64 (int h + d) < 0" using assms by (intro wrap_i64_add_above) auto
  then show ?thesis using False
    by (auto simp: height_plus_def checked_def Let_def HEIGHT_MAX_def int_bounds)
qed

lemma height_minus_exact:
  assumes "h < 2 ^ 32" "i64_min \<le> d" "d \<le> i64_max"
  shows "height_minus h d =
    (if 0 \<le> int h - d \<and> int h - d \<le> int HEIGHT_MAX then Some (nat (int h - d)) else None)"
proof (cases "int h - d \<le> i64_max")
  case True
  have "i64_min \<le> int h - d" using assms(3) by (simp add: int_bounds)
  with True have "wrap_i64 (int h - d) = int h - d" by (intro wrap_i64_exact) auto
  then show ?thesis
    by (auto simp: height_minus_def height_try_from_u32_def checked_def Let_def HEIGHT_MAX_def
        int_bounds nat_le_iff)
next
  case False
  then have "wrap_i64 (int h - d) < 0"
    using assms by (intro wrap_i64_add_above) (auto simp: int_bounds)
  then show ?thesis using False
    by (auto simp: height_minus_def checked_def Let_def HEIGHT_MAX_def int_bounds)
qed

lemma height_plus_Some [rust_simps]:
  "h \<le> HEIGHT_MAX \<Longrightarrow> 0 \<le> d \<Longrightarrow> d \<le> i64_max \<Longrightarrow>
   height_plus h d = Some h' \<longleftrightarrow> int h' = int h + d \<and> h' \<le> HEIGHT_MAX"
  by (subst height_plus_exact) (auto simp: HEIGHT_MAX_def int_bounds)

subsection \<open>Properties\<close>

text \<open>
  C14. Height arithmetic agrees with integer arithmetic on every \<open>u32\<close> height and \<open>i64\<close> difference,
  including the differences for which the intermediate \<open>i64\<close> wraps: the result is the exact height
  or \<open>None\<close> when that height is outside \<open>0..=Height::MAX\<close>; the difference of two heights undoes the
  addition; and \<open>next\<close> and \<open>previous\<close> are inverse where they succeed.
\<close>

theorem height_arithmetic_exact:
  assumes "h < 2 ^ 32" "i64_min \<le> d" "d \<le> i64_max"
  shows "height_plus h d =
      (if 0 \<le> int h + d \<and> int h + d \<le> int HEIGHT_MAX then Some (nat (int h + d)) else None) \<and>
    height_minus h d =
      (if 0 \<le> int h - d \<and> int h - d \<le> int HEIGHT_MAX then Some (nat (int h - d)) else None) \<and>
    (\<forall>h'. height_plus h d = Some h' \<longrightarrow> height_sub h' h = d) \<and>
    (h \<le> HEIGHT_MAX \<longrightarrow>
      (\<forall>n. height_next h = Ok n \<longrightarrow> height_previous n = Ok h) \<and>
      (height_next h = Err Overflow \<longleftrightarrow> h = HEIGHT_MAX) \<and>
      (height_previous h = Err Underflow \<longleftrightarrow> is_min h))"
proof -
  have one: "i64_min \<le> 1" "1 \<le> i64_max" by (auto simp: int_bounds)
  have n: "height_next h = (if h < HEIGHT_MAX then Ok (Suc h) else Err Overflow)" if "h \<le> HEIGHT_MAX"
    using that by (simp add: height_next_def height_plus_exact[OF assms(1) one] nat_add_distrib)
  have p: "height_previous (Suc m) = Ok m" if "m < HEIGHT_MAX" for m
    using that by (simp add: height_previous_def height_minus_exact[OF _ one] HEIGHT_MAX_def)
  have z: "height_previous h = Err Underflow \<longleftrightarrow> is_min h" if "h \<le> HEIGHT_MAX"
    using that assms(1) p[of "h - 1"]
    by (cases h) (auto simp: height_previous_def height_minus_exact[OF _ one] is_min_def
        HEIGHT_MIN_def)
  show ?thesis
    using height_plus_exact[OF assms] height_minus_exact[OF assms] n p z
    by (auto simp: height_sub_def split: if_splits)
qed

theorem height_arithmetic_exact_witness:
  "height_plus 4294967295 i64_max = None \<and> height_minus 5 (- 3) = Some 8"
  using height_arithmetic_exact[of 4294967295 i64_max] height_arithmetic_exact[of 5 "- 3"]
  by (simp add: HEIGHT_MAX_def int_bounds)

end
