(* ===== verification/BTree_Map.thy ===== *)
theory BTree_Map
  imports Rust_Prelude
begin

section \<open>Ordered maps of the standard library\<close>

text \<open>
  \<open>BTreeMap<K, V>\<close> as the list of its entries in ascending key order. The operations are the ones the
  components call; every one keeps the keys strictly ascending (\<open>bt_inv\<close>), and \<open>bt_get\<close> sees an
  insertion or a removal exactly at its key.
\<close>

type_synonym ('k, 'v) btree = "('k \<times> 'v) list"

abbreviation bt_get :: "('k, 'v) btree \<Rightarrow> 'k \<Rightarrow> 'v option" where
  "bt_get \<equiv> map_of"

abbreviation bt_keys :: "('k, 'v) btree \<Rightarrow> 'k list" where
  "bt_keys m \<equiv> map fst m"

definition bt_inv :: "('k :: linorder, 'v) btree \<Rightarrow> bool" where
  "bt_inv m = sorted_wrt (<) (bt_keys m)"

fun bt_insert :: "'k :: linorder \<Rightarrow> 'v \<Rightarrow> ('k, 'v) btree \<Rightarrow> ('k, 'v) btree" where
  "bt_insert k v [] = [(k, v)]"
| "bt_insert k v ((k', v') # m) =
     (if k < k' then (k, v) # (k', v') # m
      else if k = k' then (k, v) # m
      else (k', v') # bt_insert k v m)"

definition bt_remove :: "'k \<Rightarrow> ('k, 'v) btree \<Rightarrow> ('k, 'v) btree" where
  "bt_remove k m = filter (\<lambda>e. fst e \<noteq> k) m"

text \<open>\<open>collect\<close> and \<open>extend\<close> insert the items in order, so a later item wins.\<close>

definition bt_extend :: "('k :: linorder \<times> 'v) list \<Rightarrow> ('k, 'v) btree \<Rightarrow> ('k, 'v) btree" where
  "bt_extend items m = foldl (\<lambda>acc e. bt_insert (fst e) (snd e) acc) m items"

definition bt_collect :: "('k :: linorder \<times> 'v) list \<Rightarrow> ('k, 'v) btree" where
  "bt_collect items = bt_extend items []"

text \<open>\<open>range(..=k)\<close> and \<open>range(k..)\<close>; \<open>split_off\<close> cuts a map in these two at a key.\<close>

definition bt_upto :: "'k :: linorder \<Rightarrow> ('k, 'v) btree \<Rightarrow> ('k, 'v) btree" where
  "bt_upto k m = filter (\<lambda>e. fst e \<le> k) m"

definition bt_below :: "'k :: linorder \<Rightarrow> ('k, 'v) btree \<Rightarrow> ('k, 'v) btree" where
  "bt_below k m = filter (\<lambda>e. fst e < k) m"

definition bt_from :: "'k :: linorder \<Rightarrow> ('k, 'v) btree \<Rightarrow> ('k, 'v) btree" where
  "bt_from k m = filter (\<lambda>e. k \<le> fst e) m"

text \<open>\<open>next\<close> and \<open>next_back\<close> of an iterator over the entries.\<close>

definition bt_first :: "('k, 'v) btree \<Rightarrow> ('k \<times> 'v) option" where
  "bt_first m = (case m of [] \<Rightarrow> None | e # _ \<Rightarrow> Some e)"

definition bt_last :: "('k, 'v) btree \<Rightarrow> ('k \<times> 'v) option" where
  "bt_last m = (if m = [] then None else Some (last m))"

subsection \<open>Laws\<close>

lemma bt_inv_Nil [simp]: "bt_inv []"
  by (simp add: bt_inv_def)

lemma bt_inv_Cons: "bt_inv ((k, v) # m) \<longleftrightarrow> (\<forall>k'\<in>set (bt_keys m). k < k') \<and> bt_inv m"
  by (simp add: bt_inv_def)

lemma bt_inv_append:
  "bt_inv (m @ n) \<longleftrightarrow> bt_inv m \<and> bt_inv n \<and> (\<forall>a\<in>set (bt_keys m). \<forall>b\<in>set (bt_keys n). a < b)"
  by (simp add: bt_inv_def sorted_wrt_append)

lemma bt_inv_distinct: "bt_inv m \<Longrightarrow> distinct (bt_keys m)"
  by (simp add: bt_inv_def strict_sorted_iff)

lemma set_bt_keys_insert: "set (bt_keys (bt_insert k v m)) = insert k (set (bt_keys m))"
  by (induction k v m rule: bt_insert.induct) auto

lemma bt_inv_insert: "bt_inv m \<Longrightarrow> bt_inv (bt_insert k v m)"
proof (induction k v m rule: bt_insert.induct)
  case (1 k v)
  then show ?case by (simp add: bt_inv_def)
next
  case (2 k v k' v' m)
  then show ?case using set_bt_keys_insert[of k v m] by (auto simp: bt_inv_Cons simp del: set_map)
qed

lemma bt_inv_filter: "bt_inv m \<Longrightarrow> bt_inv (filter P m)"
  by (induction m) (auto simp: bt_inv_Cons)

lemma bt_inv_remove: "bt_inv m \<Longrightarrow> bt_inv (bt_remove k m)"
  by (simp add: bt_remove_def bt_inv_filter)

lemma bt_inv_extend: "bt_inv m \<Longrightarrow> bt_inv (bt_extend items m)"
  unfolding bt_extend_def by (induction items arbitrary: m) (auto simp: bt_inv_insert)

lemma bt_get_insert: "bt_inv m \<Longrightarrow> bt_get (bt_insert k v m) = (bt_get m)(k \<mapsto> v)"
proof (induction k v m rule: bt_insert.induct)
  case (2 k v k' v' m)
  then show ?case by (auto simp: bt_inv_Cons fun_upd_twist)
qed auto

lemma bt_get_filter_key: "bt_get (filter (\<lambda>e. P (fst e)) m) = (\<lambda>k. if P k then bt_get m k else None)"
  by (induction m) (auto simp: fun_eq_iff)

lemma bt_get_remove: "bt_get (bt_remove k m) = (bt_get m)(k := None)"
  unfolding bt_remove_def using bt_get_filter_key[of "\<lambda>j. j \<noteq> k" m] by auto

lemma bt_get_extend: "bt_inv m \<Longrightarrow> bt_get (bt_extend items m) = bt_get m ++ map_of (rev items)"
  unfolding bt_extend_def
proof (induction items arbitrary: m)
  case (Cons e items)
  then show ?case
    by (cases e) (simp add: bt_get_insert bt_inv_insert map_add_upd_left fun_eq_iff map_add_def
        split: option.split)
qed simp

lemma bt_get_in: "bt_inv m \<Longrightarrow> bt_get m k = Some v \<longleftrightarrow> (k, v) \<in> set m"
  by (simp add: bt_inv_distinct)

lemma bt_insert_above:
  "\<forall>k'\<in>set (bt_keys m). k' < k \<Longrightarrow> bt_insert k v m = m @ [(k, v)]"
  by (induction k v m rule: bt_insert.induct) auto

lemma bt_extend_sorted:
  "bt_inv (m @ items) \<Longrightarrow> bt_extend items m = m @ items"
proof (induction items arbitrary: m)
  case (Cons e items)
  then have "bt_insert (fst e) (snd e) m = m @ [e]"
    by (subst bt_insert_above) (auto simp: bt_inv_append)
  then show ?case using Cons(1)[of "m @ [e]"] Cons(2) by (simp add: bt_extend_def)
qed (simp add: bt_extend_def)

lemma bt_collect_sorted: "bt_inv items \<Longrightarrow> bt_collect items = items"
  using bt_extend_sorted[of "[]" items] by (simp add: bt_collect_def)

lemma bt_keys_extend: "set (bt_keys (bt_extend items m)) = set (bt_keys m) \<union> fst ` set items"
  unfolding bt_extend_def
proof (induction items arbitrary: m)
  case (Cons e items)
  show ?case using Cons[of "bt_insert (fst e) (snd e) m"] set_bt_keys_insert[of "fst e" "snd e" m]
    by (auto simp del: set_map)
qed simp

lemma bt_inv_collect: "bt_inv (bt_collect items)"
  by (simp add: bt_collect_def bt_inv_extend)

lemma length_bt_collect: "length (bt_collect items) = card (fst ` set items)"
proof -
  have "distinct (bt_keys (bt_collect items))" by (simp add: bt_inv_distinct[OF bt_inv_collect])
  then have "card (set (bt_keys (bt_collect items))) = length (bt_collect items)"
    by (metis distinct_card length_map)
  then show ?thesis using bt_keys_extend[of items "[]"] by (simp add: bt_collect_def)
qed

lemma length_bt_collect_distinct:
  "length (bt_collect items) = length items \<longleftrightarrow> distinct (map fst items)"
proof -
  have "fst ` set items = set (map fst items)" by simp
  then show ?thesis
    by (metis card_distinct distinct_card length_bt_collect length_map)
qed

lemma set_bt_collect:
  assumes "distinct (map fst items)"
  shows "set (bt_collect items) = set items"
proof -
  have "map_of (rev items) = map_of items"
    using assms by (intro map_of_inject_set[THEN iffD2]) (auto simp: rev_map[symmetric])
  then have "bt_get (bt_collect items) = map_of items"
    using bt_get_extend[of "[]" items] by (simp add: bt_collect_def)
  then show ?thesis using bt_get_in[OF bt_inv_collect[of items]] assms by auto
qed

lemma bt_collect_subset: "set (bt_collect items) \<subseteq> set items"
proof
  fix e assume "e \<in> set (bt_collect items)"
  then have "bt_get (bt_collect items) (fst e) = Some (snd e)"
    by (simp add: bt_get_in[OF bt_inv_collect])
  then have "map_of (rev items) (fst e) = Some (snd e)"
    using bt_get_extend[of "[]" items] by (simp add: bt_collect_def)
  then show "e \<in> set items" using map_of_SomeD by fastforce
qed

lemma bt_last_max:
  "bt_inv m \<Longrightarrow> bt_last m = Some (k, v) \<longleftrightarrow> (k, v) \<in> set m \<and> (\<forall>k'\<in>set (bt_keys m). k' \<le> k)"
proof (induction m rule: rev_induct)
  case Nil
  then show ?case by (simp add: bt_last_def)
next
  case (snoc e m)
  have "\<forall>a\<in>set m. fst a < fst e" using snoc(2) by (auto simp: bt_inv_append)
  then show ?case by (cases e) (force simp: bt_last_def)
qed

lemma bt_split: "bt_inv m \<Longrightarrow> bt_below k m @ bt_from k m = m"
proof (induction m)
  case (Cons e m)
  then have ih: "bt_below k m @ bt_from k m = m" and gt: "\<forall>a\<in>set m. fst e < fst a"
    by (cases e, auto simp: bt_inv_Cons)+
  show ?case
  proof (cases "fst e < k")
    case False
    then have "bt_below k m = []" using gt by (auto simp: bt_below_def filter_empty_conv)
    then show ?thesis using False ih by (simp add: bt_below_def bt_from_def)
  qed (use ih in \<open>simp add: bt_below_def bt_from_def\<close>)
qed (simp add: bt_below_def bt_from_def)

end
