(* ===== verification/Network_Upgrade.thy ===== *)
theory Network_Upgrade
  imports Block_Height BTree_Map
begin

section \<open>Network upgrades (zebra-chain/src/parameters/network_upgrade.rs)\<close>

text \<open>
  The upgrades in their declared order, the activation schedules and the two ways the node asks
  about them: the upgrade that is current at a height, and the activation height of an upgrade. A
  schedule is the \<open>BTreeMap\<close> that \<open>Network::activation_list\<close> returns. The locale
  \<open>activation_schedule\<close> holds what the schedules promise; it is interpreted on the Mainnet and
  Testnet tables here and on every configured schedule in \<open>Network_Params\<close>. The \<open>zfuture\<close> upgrade is
  behind a compile-time flag that is off by default and is left out.
\<close>

subsection \<open>Upgrades and their order\<close>

datatype network_upgrade =
    Genesis | BeforeOverwinter | Overwinter | Sapling | Blossom | Heartwood | Canopy
  | Nu5 | Nu6 | Nu6_1 | Nu6_2 | Nu6_3 | Nu7

definition upgrades :: "network_upgrade list" where
  "upgrades = [Genesis, BeforeOverwinter, Overwinter, Sapling, Blossom, Heartwood, Canopy,
     Nu5, Nu6, Nu6_1, Nu6_2, Nu6_3, Nu7]"

fun upgrade_index :: "network_upgrade \<Rightarrow> nat" where
  "upgrade_index Genesis = 0"
| "upgrade_index BeforeOverwinter = 1"
| "upgrade_index Overwinter = 2"
| "upgrade_index Sapling = 3"
| "upgrade_index Blossom = 4"
| "upgrade_index Heartwood = 5"
| "upgrade_index Canopy = 6"
| "upgrade_index Nu5 = 7"
| "upgrade_index Nu6 = 8"
| "upgrade_index Nu6_1 = 9"
| "upgrade_index Nu6_2 = 10"
| "upgrade_index Nu6_3 = 11"
| "upgrade_index Nu7 = 12"

lemma upgrade_index_inj: "upgrade_index a = upgrade_index b \<longleftrightarrow> a = b"
  by (cases a; cases b) simp_all

text \<open>The derived \<open>Ord\<close> compares the positions of the variants.\<close>

instantiation network_upgrade :: linorder
begin

definition less_eq_network_upgrade :: "network_upgrade \<Rightarrow> network_upgrade \<Rightarrow> bool" where
  "less_eq_network_upgrade a b = (upgrade_index a \<le> upgrade_index b)"

definition less_network_upgrade :: "network_upgrade \<Rightarrow> network_upgrade \<Rightarrow> bool" where
  "less_network_upgrade a b = (upgrade_index a < upgrade_index b)"

instance
  by standard (auto simp: less_eq_network_upgrade_def less_network_upgrade_def upgrade_index_inj)

end

lemmas upgrade_ord = less_eq_network_upgrade_def less_network_upgrade_def

definition next_upgrade :: "network_upgrade \<Rightarrow> network_upgrade option" where
  "next_upgrade nu = list_get (dropWhile (\<lambda>n. nu \<noteq> n) upgrades) 1"

definition previous_upgrade :: "network_upgrade \<Rightarrow> network_upgrade option" where
  "previous_upgrade nu = list_get (dropWhile (\<lambda>n. nu \<noteq> n) (rev upgrades)) 1"

subsection \<open>Schedules\<close>

type_synonym schedule = "(height, network_upgrade) btree"

definition MAINNET_ACTIVATION_HEIGHTS :: "(height \<times> network_upgrade) list" where
  "MAINNET_ACTIVATION_HEIGHTS =
     [(0, Genesis), (1, BeforeOverwinter), (347500, Overwinter), (419200, Sapling),
      (653600, Blossom), (903000, Heartwood), (1046400, Canopy), (1687104, Nu5), (2726400, Nu6),
      (3146400, Nu6_1), (3364600, Nu6_2)]"

definition TESTNET_ACTIVATION_HEIGHTS :: "(height \<times> network_upgrade) list" where
  "TESTNET_ACTIVATION_HEIGHTS =
     [(0, Genesis), (1, BeforeOverwinter), (207500, Overwinter), (280000, Sapling),
      (584000, Blossom), (903800, Heartwood), (1028500, Canopy), (1842420, Nu5), (2976000, Nu6),
      (3536500, Nu6_1), (4052000, Nu6_2), (4134000, Nu6_3)]"

text \<open>
  The functions of \<open>NetworkUpgrade\<close> take the network and read nothing of it but its
  \<open>activation_list\<close>, which is their argument here.
\<close>

definition current_with_activation_height ::
    "schedule \<Rightarrow> height \<Rightarrow> (network_upgrade \<times> height, 'e) outcome" where
  "current_with_activation_height l h =
     expect (map_option (\<lambda>(a, nu). (nu, a)) (bt_last (bt_upto h l)))"

definition current_upgrade :: "schedule \<Rightarrow> height \<Rightarrow> (network_upgrade, 'e) outcome" where
  "current_upgrade l h = expect (map_option snd (bt_last (bt_upto h l)))"

definition scheduled_at :: "schedule \<Rightarrow> network_upgrade \<Rightarrow> height option" where
  "scheduled_at l nu = map_option fst (find (\<lambda>e. snd e = nu) l)"

lemma next_upgrade_index:
  "next_upgrade nu = Some n \<Longrightarrow> upgrade_index n = Suc (upgrade_index nu)"
  by (cases nu) (auto simp: next_upgrade_def upgrades_def list_get_def)

lemma next_upgrade_None: "next_upgrade nu = None \<Longrightarrow> nu = Nu7"
  by (cases nu) (auto simp: next_upgrade_def upgrades_def list_get_def)

function upgrade_activation_height :: "schedule \<Rightarrow> network_upgrade \<Rightarrow> height option" where
  "upgrade_activation_height l nu =
     (case scheduled_at l nu of
        Some h \<Rightarrow> Some h
      | None \<Rightarrow> (case next_upgrade nu of
                   None \<Rightarrow> None
                 | Some next_nu \<Rightarrow> upgrade_activation_height l next_nu))"
  by pat_completeness auto
termination
proof (relation "measure (\<lambda>(l, nu). 13 - upgrade_index nu)", goal_cases)
  case (2 l nu next_nu)
  then have "upgrade_index next_nu = Suc (upgrade_index nu)" by (simp add: next_upgrade_index)
  moreover have "upgrade_index next_nu \<le> 12" by (cases next_nu) auto
  ultimately show ?case by simp
qed simp

declare upgrade_activation_height.simps [simp del]

definition full_activation_list :: "schedule \<Rightarrow> (height \<times> network_upgrade) list" where
  "full_activation_list l =
     List.map_filter (\<lambda>nu. map_option (\<lambda>h. (h, nu)) (upgrade_activation_height l nu)) upgrades"

definition is_activation_height :: "schedule \<Rightarrow> height \<Rightarrow> bool" where
  "is_activation_height l h = (bt_get l h \<noteq> None)"

subsection \<open>Branch identifiers and block spacing\<close>

type_synonym consensus_branch_id = u32

definition CONSENSUS_BRANCH_IDS :: "(network_upgrade \<times> consensus_branch_id) list" where
  "CONSENSUS_BRANCH_IDS =
     [(Overwinter, 0x5ba81b19), (Sapling, 0x76b809bb), (Blossom, 0x2bb40e60),
      (Heartwood, 0xf5b9230b), (Canopy, 0xe9ff75a6), (Nu5, 0xc2d6d0b4), (Nu6, 0xc8e71055),
      (Nu6_1, 0x4dec4df0), (Nu6_2, 0x5437f330), (Nu6_3, 0x37a5165b), (Nu7, 0xfffffffe)]"

definition upgrade_try_from_branch_id :: "u32 \<Rightarrow> network_upgrade option" where
  "upgrade_try_from_branch_id b = map_option fst (find (\<lambda>e. snd e = b) CONSENSUS_BRANCH_IDS)"

definition branch_id :: "network_upgrade \<Rightarrow> consensus_branch_id option" where
  "branch_id nu = map_of CONSENSUS_BRANCH_IDS nu"

definition current_branch_id :: "schedule \<Rightarrow> height \<Rightarrow> (consensus_branch_id option, 'e) outcome" where
  "current_branch_id l h = and_then (current_upgrade l h) (\<lambda>nu. Ok (branch_id nu))"

definition PRE_BLOSSOM_POW_TARGET_SPACING :: int where
  "PRE_BLOSSOM_POW_TARGET_SPACING = 150"

definition POST_BLOSSOM_POW_TARGET_SPACING :: int where
  "POST_BLOSSOM_POW_TARGET_SPACING = 75"

definition POW_AVERAGING_WINDOW :: nat where
  "POW_AVERAGING_WINDOW = 17"

definition TESTNET_MINIMUM_DIFFICULTY_GAP_MULTIPLIER :: int where
  "TESTNET_MINIMUM_DIFFICULTY_GAP_MULTIPLIER = 6"

definition TESTNET_MINIMUM_DIFFICULTY_START_HEIGHT :: height where
  "TESTNET_MINIMUM_DIFFICULTY_START_HEIGHT = 299188"

definition TESTNET_MAX_TIME_START_HEIGHT :: height where
  "TESTNET_MAX_TIME_START_HEIGHT = 653606"

text \<open>Durations are in seconds.\<close>

fun target_spacing :: "network_upgrade \<Rightarrow> int" where
  "target_spacing Genesis = PRE_BLOSSOM_POW_TARGET_SPACING"
| "target_spacing BeforeOverwinter = PRE_BLOSSOM_POW_TARGET_SPACING"
| "target_spacing Overwinter = PRE_BLOSSOM_POW_TARGET_SPACING"
| "target_spacing Sapling = PRE_BLOSSOM_POW_TARGET_SPACING"
| "target_spacing _ = POST_BLOSSOM_POW_TARGET_SPACING"

definition target_spacing_for_height :: "schedule \<Rightarrow> height \<Rightarrow> (int, 'e) outcome" where
  "target_spacing_for_height l h = and_then (current_upgrade l h) (\<lambda>nu. Ok (target_spacing nu))"

definition target_spacings :: "schedule \<Rightarrow> (height \<times> int) list" where
  "target_spacings l =
     List.map_filter (\<lambda>(nu, spacing). map_option (\<lambda>h. (h, spacing)) (upgrade_activation_height l nu))
       [(Genesis, PRE_BLOSSOM_POW_TARGET_SPACING), (Blossom, POST_BLOSSOM_POW_TARGET_SPACING)]"

definition averaging_window_timespan :: "network_upgrade \<Rightarrow> int" where
  "averaging_window_timespan nu = target_spacing nu * int POW_AVERAGING_WINDOW"

definition averaging_window_timespan_for_height :: "schedule \<Rightarrow> height \<Rightarrow> (int, 'e) outcome" where
  "averaging_window_timespan_for_height l h =
     and_then (current_upgrade l h) (\<lambda>nu. Ok (averaging_window_timespan nu))"

subsection \<open>What a schedule promises\<close>

text \<open>
  \<open>valid_schedule\<close> is the condition on the tables that the queries rely on: Genesis at height zero,
  and upgrades that appear in their declared order at strictly ascending heights.
\<close>

definition valid_schedule :: "schedule \<Rightarrow> bool" where
  "valid_schedule l =
     (bt_inv l \<and> sorted_wrt (<) (map snd l) \<and> bt_get l 0 = Some Genesis)"

lemma upgrade_activation_height_first:
  assumes "sorted_wrt (<) (map snd l)"
  shows "upgrade_activation_height l nu = map_option fst (find (\<lambda>e. nu \<le> snd e) l)"
proof (induction nu rule: measure_induct_rule[of "\<lambda>nu. 13 - upgrade_index nu"])
  case (less nu)
  have le12: "upgrade_index n \<le> 12" for n by (cases n) auto
  show ?case
  proof (cases "scheduled_at l nu")
    case (Some h)
    then obtain e where e: "find (\<lambda>e. snd e = nu) l = Some e" "h = fst e"
      by (auto simp: scheduled_at_def)
    then obtain i where i: "i < length l" "snd (l ! i) = nu" "e = l ! i"
      by (auto simp: find_Some_iff)
    have "\<not> nu \<le> snd (l ! j)" if "j < i" for j
      using sorted_wrt_nth_less[OF assms, of j i] that i by auto
    then have "find (\<lambda>e. nu \<le> snd e) l = Some e"
      using i by (auto simp: find_Some_iff intro!: exI[of _ i])
    then show ?thesis using Some e by (simp add: upgrade_activation_height.simps[of l nu])
  next
    case None
    then have no: "\<forall>e\<in>set l. snd e \<noteq> nu" by (auto simp: scheduled_at_def find_None_iff)
    show ?thesis
    proof (cases "next_upgrade nu")
      case None': None
      then have "nu = Nu7" by (rule next_upgrade_None)
      then have "\<not> nu \<le> snd e" if "e \<in> set l" for e
        using no that le12[of "snd e"] upgrade_index_inj[of "snd e" nu]
        by (auto simp: upgrade_ord)
      then show ?thesis using None None'
        by (auto simp: upgrade_activation_height.simps[of l nu] find_None_iff)
    next
      case (Some n)
      then have n: "upgrade_index n = Suc (upgrade_index nu)" by (rule next_upgrade_index)
      have "nu \<le> snd e \<longleftrightarrow> n \<le> snd e" if "e \<in> set l" for e
        using no that upgrade_index_inj[of "snd e" nu] by (auto simp: upgrade_ord n)
      then have "find (\<lambda>e. nu \<le> snd e) l = find (\<lambda>e. n \<le> snd e) l" by (auto intro: find_cong)
      then show ?thesis using None Some less[of n] le12[of n]
        by (simp add: upgrade_activation_height.simps[of l nu] n)
    qed
  qed
qed

text \<open>The current upgrade as a total function.\<close>

definition current_of :: "schedule \<Rightarrow> height \<Rightarrow> network_upgrade" where
  "current_of l h = snd (last (bt_upto h l))"

locale activation_schedule =
  fixes l :: schedule
  assumes valid: "valid_schedule l"
begin

lemma genesis_in: "(0, Genesis) \<in> set l"
  using valid by (auto simp: valid_schedule_def map_of_SomeD)

lemma ascending: "i < j \<Longrightarrow> j < length l \<Longrightarrow> fst (l ! i) < fst (l ! j) \<and> snd (l ! i) < snd (l ! j)"
  using valid sorted_wrt_nth_less[of "(<)" "map fst l" i j] sorted_wrt_nth_less[of "(<)" "map snd l" i j]
  by (auto simp: valid_schedule_def bt_inv_def)

lemma together:
  assumes "e \<in> set l" "e' \<in> set l"
  shows "fst e < fst e' \<longleftrightarrow> snd e < snd e'"
proof -
  obtain i j where ij: "i < length l" "j < length l" "e = l ! i" "e' = l ! j"
    using assms by (auto simp: in_set_conv_nth)
  consider "i = j" | "i < j" | "j < i" by linarith
  then show ?thesis
  proof cases
    case 2
    then show ?thesis using ascending[of i j] ij by simp
  next
    case 3
    then show ?thesis using ascending[of j i] ij by auto
  qed (use ij in simp)
qed

text \<open>Every height has a current upgrade: the last one scheduled at or below it.\<close>

lemma last_upto: "bt_upto h l \<noteq> [] \<and> bt_inv (bt_upto h l)"
  using genesis_in valid
  by (auto simp: bt_upto_def filter_empty_conv valid_schedule_def bt_inv_filter intro!: bexI[of _ "(0, Genesis)"])

lemma current_upgrade_eq: "current_upgrade l h = Ok (current_of l h)"
  using last_upto[of h] by (simp add: current_upgrade_def bt_last_def current_of_def)

lemma current_of_spec:
  "\<exists>a. (a, current_of l h) \<in> set l \<and> a \<le> h \<and> (\<forall>e\<in>set l. fst e \<le> h \<longrightarrow> snd e \<le> current_of l h)"
proof -
  note inv = last_upto[of h]
  obtain a nu where "last (bt_upto h l) = (a, nu)" by force
  then have last: "bt_last (bt_upto h l) = Some (a, nu)" "current_of l h = nu"
    using inv by (auto simp: bt_last_def current_of_def)
  then have in_l: "(a, nu) \<in> set l" "a \<le> h" and max: "\<forall>e\<in>set l. fst e \<le> h \<longrightarrow> fst e \<le> a"
    using bt_last_max[of "bt_upto h l" a nu] inv by (auto simp: bt_upto_def)
  have "snd e \<le> nu" if "e \<in> set l" "fst e \<le> h" for e
    using together[OF in_l(1) that(1)] max that by (auto simp: not_less[symmetric])
  then show ?thesis using last in_l by auto
qed

text \<open>The two queries agree.\<close>

lemma activated_iff:
  "nu \<le> current_of l h \<longleftrightarrow> (\<exists>a. upgrade_activation_height l nu = Some a \<and> a \<le> h)"
proof -
  obtain a0 where cur: "(a0, current_of l h) \<in> set l" "a0 \<le> h"
      "\<forall>e\<in>set l. fst e \<le> h \<longrightarrow> snd e \<le> current_of l h"
    using current_of_spec[of h] by blast
  have first: "upgrade_activation_height l nu = map_option fst (find (\<lambda>e. nu \<le> snd e) l)"
    using valid by (simp add: valid_schedule_def upgrade_activation_height_first)
  show ?thesis
  proof
    assume le: "nu \<le> current_of l h"
    then obtain e where e: "find (\<lambda>e. nu \<le> snd e) l = Some e"
      using cur(1) by (cases "find (\<lambda>e. nu \<le> snd e) l") (auto simp: find_None_iff)
    then obtain i where i: "i < length l" "e = l ! i" "nu \<le> snd e" "\<forall>j<i. \<not> nu \<le> snd (l ! j)"
      by (auto simp: find_Some_iff)
    obtain j where j: "j < length l" "l ! j = (a0, current_of l h)"
      using cur(1) by (auto simp: in_set_conv_nth)
    have "i \<le> j" using i(4) j le by (auto simp: not_less[symmetric])
    then have "fst e \<le> a0" using ascending[of i j] i j by (cases "i = j") auto
    then show "\<exists>a. upgrade_activation_height l nu = Some a \<and> a \<le> h"
      using first e cur(2) by auto
  next
    assume "\<exists>a. upgrade_activation_height l nu = Some a \<and> a \<le> h"
    then obtain e where "find (\<lambda>e. nu \<le> snd e) l = Some e" "fst e \<le> h" using first by auto
    then have "e \<in> set l" "nu \<le> snd e" "fst e \<le> h" by (auto simp: find_Some_iff)
    then show "nu \<le> current_of l h" using cur(3) by (auto intro: order_trans)
  qed
qed

lemma current_mono: "h \<le> h' \<Longrightarrow> current_of l h \<le> current_of l h'"
  using activated_iff[of "current_of l h" h] activated_iff[of "current_of l h" h'] by auto

lemma spacing_changes_at_blossom:
  "target_spacing_for_height l h =
     Ok (if (\<exists>a. upgrade_activation_height l Blossom = Some a \<and> a \<le> h)
         then POST_BLOSSOM_POW_TARGET_SPACING else PRE_BLOSSOM_POW_TARGET_SPACING)"
proof -
  have "target_spacing nu = (if Blossom \<le> nu then POST_BLOSSOM_POW_TARGET_SPACING
      else PRE_BLOSSOM_POW_TARGET_SPACING)" for nu by (cases nu) (auto simp: upgrade_ord)
  then show ?thesis
    by (simp add: target_spacing_for_height_def current_upgrade_eq activated_iff[symmetric])
qed

end

lemma mainnet_schedule_valid: "valid_schedule MAINNET_ACTIVATION_HEIGHTS"
  by (simp add: valid_schedule_def MAINNET_ACTIVATION_HEIGHTS_def bt_inv_def upgrade_ord)

lemma testnet_schedule_valid: "valid_schedule TESTNET_ACTIVATION_HEIGHTS"
  by (simp add: valid_schedule_def TESTNET_ACTIVATION_HEIGHTS_def bt_inv_def upgrade_ord)

interpretation mainnet: activation_schedule MAINNET_ACTIVATION_HEIGHTS
  by unfold_locales (rule mainnet_schedule_valid)

interpretation testnet: activation_schedule TESTNET_ACTIVATION_HEIGHTS
  by unfold_locales (rule testnet_schedule_valid)

text \<open>
  Branch identifiers identify upgrades: converting an upgrade's identifier back gives the upgrade.
\<close>

lemma branch_id_roundtrip:
  "branch_id nu = Some b \<longleftrightarrow> upgrade_try_from_branch_id b = Some nu"
proof
  assume "branch_id nu = Some b"
  then show "upgrade_try_from_branch_id b = Some nu"
    by (cases nu)
      (auto simp: branch_id_def upgrade_try_from_branch_id_def CONSENSUS_BRANCH_IDS_def)
next
  assume "upgrade_try_from_branch_id b = Some nu"
  then show "branch_id nu = Some b"
    by (auto simp: branch_id_def upgrade_try_from_branch_id_def CONSENSUS_BRANCH_IDS_def
        split: if_splits)
qed

end
