(* ===== verification/Checkpoint_List.thy ===== *)
theory Checkpoint_List
  imports Block_Height BTree_Map
begin

section \<open>Checkpoint lists (zebra-chain/src/parameters/checkpoint/list.rs)\<close>

text \<open>
  A \<open>CheckpointList\<close> is a \<open>BTreeMap\<close> from heights to block hashes; a hash is its 32 bytes. The range
  queries take the set of heights as a predicate. The parser of 64 hexadecimal digits is the \<open>hex\<close>
  crate's and the argument \<open>hex\<close> of the text parser, which is \<open>None\<close> for an error.
\<close>

type_synonym block_hash = bytes
type_synonym checkpoint_list = "(height, block_hash) btree"

definition null_hash :: block_hash where
  "null_hash = replicate 32 0"

definition max_height_in_range :: "checkpoint_list \<Rightarrow> (height \<Rightarrow> bool) \<Rightarrow> height option" where
  "max_height_in_range cl r = map_option fst (bt_last (filter (\<lambda>e. r (fst e)) cl))"

definition min_height_in_range :: "checkpoint_list \<Rightarrow> (height \<Rightarrow> bool) \<Rightarrow> height option" where
  "min_height_in_range cl r = map_option fst (bt_first (filter (\<lambda>e. r (fst e)) cl))"

definition max_height :: "checkpoint_list \<Rightarrow> (height, 'e) outcome" where
  "max_height cl = expect (max_height_in_range cl (\<lambda>_. True))"

definition from_list :: "(height \<times> block_hash) list \<Rightarrow> (checkpoint_list, string) outcome" where
  "from_list original_checkpoints =
     (let original_len = length original_checkpoints;
          checkpoints = bt_collect original_checkpoints
      in case bt_first checkpoints of
           None \<Rightarrow> Err ''there must be at least one checkpoint, for the genesis block''
         | Some (first_height, _) \<Rightarrow>
             if first_height \<noteq> 0 then Err ''checkpoints must start at the genesis block height 0''
             else if length checkpoints \<noteq> original_len then Err ''checkpoint heights must be unique''
             else
               let block_hashes = remdups (map snd checkpoints)
               in if length block_hashes \<noteq> original_len then Err ''checkpoint hashes must be unique''
                  else if null_hash \<in> set block_hashes
                  then Err ''checkpoint list contains invalid checkpoint hash: found null hash''
                  else and_then (max_height checkpoints) (\<lambda>m.
                    if m > HEIGHT_MAX
                    then Err ''checkpoint list contains invalid checkpoint: checkpoint height is greater than the maximum block height''
                    else Ok checkpoints))"

text \<open>Parsing a checkpoint file; the errors are those of the source without their display text.\<close>

datatype checkpoint_error = FieldCount nat string | HeightParse string | HashParse | InvalidList string

definition hash_from_str :: "(string \<Rightarrow> bytes option) \<Rightarrow> string \<Rightarrow> block_hash option" where
  "hash_from_str hex s = map_option rev (hex s)"

definition checkpoint_height_and_hash ::
    "(string \<Rightarrow> bytes option) \<Rightarrow> string \<Rightarrow> (height \<times> block_hash, checkpoint_error) outcome" where
  "checkpoint_height_and_hash hex checkpoint =
     (let fields = split_char (CHR '' '') checkpoint
      in case fields of
           [height, hash] \<Rightarrow>
             and_then (map_err HeightParse (height_from_str height)) (\<lambda>h.
             and_then (ok_or HashParse (hash_from_str hex hash)) (\<lambda>b. Ok (h, b)))
         | _ \<Rightarrow> Err (FieldCount (length fields) checkpoint))"

definition checkpoints_from_str ::
    "(string \<Rightarrow> bytes option) \<Rightarrow> string \<Rightarrow> (checkpoint_list, checkpoint_error) outcome" where
  "checkpoints_from_str hex s =
     and_then (try_map (checkpoint_height_and_hash hex) (str_lines s)) (\<lambda>l. map_err InvalidList (from_list l))"

definition has_checkpoint :: "checkpoint_list \<Rightarrow> height \<Rightarrow> bool" where
  "has_checkpoint cl h = (bt_get cl h \<noteq> None)"

definition checkpoint_hash :: "checkpoint_list \<Rightarrow> height \<Rightarrow> block_hash option" where
  "checkpoint_hash cl h = bt_get cl h"

definition prev_checkpoint_index :: "checkpoint_list \<Rightarrow> height \<Rightarrow> (nat, 'e) outcome" where
  "prev_checkpoint_index cl h = expect (rposition (\<lambda>k. k \<le> h) (bt_keys cl))"

subsection \<open>Well-formed lists\<close>

text \<open>What every list that \<open>from_list\<close> returns satisfies, and what its users rely on.\<close>

definition valid_checkpoints :: "checkpoint_list \<Rightarrow> bool" where
  "valid_checkpoints cl =
     (bt_inv cl \<and> bt_get cl 0 \<noteq> None \<and> distinct (map snd cl) \<and>
      (\<forall>e\<in>set cl. fst e \<le> HEIGHT_MAX \<and> snd e \<noteq> null_hash))"

text \<open>The highest checkpoint, as a total function.\<close>

definition top_height :: "checkpoint_list \<Rightarrow> height" where
  "top_height cl = fst (last cl)"

lemma has_checkpoint_iff: "has_checkpoint cl h \<longleftrightarrow> h \<in> fst ` set cl"
  by (simp add: has_checkpoint_def map_of_eq_None_iff)

locale checkpoints =
  fixes cl :: checkpoint_list
  assumes wf: "valid_checkpoints cl"
begin

lemma keys_sorted: "bt_inv cl"
  using wf by (simp add: valid_checkpoints_def)

lemma genesis: "\<exists>g. (0, g) \<in> set cl"
  using wf by (auto simp: valid_checkpoints_def dest: map_of_SomeD)

lemma max_height_in_range_Some:
  "max_height_in_range cl r = Some h \<longleftrightarrow>
     has_checkpoint cl h \<and> r h \<and> (\<forall>k. has_checkpoint cl k \<longrightarrow> r k \<longrightarrow> k \<le> h)"
proof -
  have "bt_inv (filter (\<lambda>e. r (fst e)) cl)" using keys_sorted by (simp add: bt_inv_filter)
  from bt_last_max[OF this, of h] show ?thesis
    by (force simp: max_height_in_range_def has_checkpoint_iff)
qed

lemma max_height_eq: "max_height cl = Ok (top_height cl)"
  using genesis by (auto simp: max_height_def max_height_in_range_def bt_last_def top_height_def)

lemma top_max:
  "has_checkpoint cl (top_height cl)" "has_checkpoint cl k \<Longrightarrow> k \<le> top_height cl"
  "top_height cl \<le> HEIGHT_MAX"
proof -
  have "cl \<noteq> []" using genesis by auto
  then have "max_height_in_range cl (\<lambda>_. True) = Some (top_height cl)"
    by (simp add: max_height_in_range_def bt_last_def top_height_def)
  then show *: "has_checkpoint cl (top_height cl)" "has_checkpoint cl k \<Longrightarrow> k \<le> top_height cl"
    by (simp_all add: max_height_in_range_Some)
  then show "top_height cl \<le> HEIGHT_MAX"
    using wf \<open>cl \<noteq> []\<close> by (simp add: valid_checkpoints_def top_height_def)
qed

lemma hash_unique:
  "checkpoint_hash cl h = Some b \<Longrightarrow> checkpoint_hash cl h' = Some b \<Longrightarrow> h = h'"
proof -
  assume "checkpoint_hash cl h = Some b" "checkpoint_hash cl h' = Some b"
  then have "(h, b) \<in> set cl" "(h', b) \<in> set cl" by (simp_all add: checkpoint_hash_def map_of_SomeD)
  moreover have "inj_on snd (set cl)" using wf by (simp add: valid_checkpoints_def distinct_map)
  ultimately show "h = h'" using inj_onD[of snd "set cl" "(h, b)" "(h', b)"] by simp
qed

lemma prev_checkpoint_index_spec:
  "\<exists>i. prev_checkpoint_index cl h = Ok i \<and> i < length cl \<and> fst (cl ! i) \<le> h \<and>
     (\<forall>e\<in>set cl. fst e \<le> h \<longrightarrow> fst e \<le> fst (cl ! i))"
proof -
  obtain g where "(0, g) \<in> set cl" using genesis by blast
  then have "0 \<in> set (bt_keys cl)" by force
  then have "rposition (\<lambda>k. k \<le> h) (bt_keys cl) \<noteq> None"
    unfolding rposition_None by blast
  then obtain i where i: "rposition (\<lambda>k. k \<le> h) (bt_keys cl) = Some i" by blast
  then have "i < length cl" "fst (cl ! i) \<le> h" "\<forall>j. i < j \<longrightarrow> j < length cl \<longrightarrow> h < fst (cl ! j)"
    by (auto simp: rposition_Some)
  moreover have "fst e \<le> fst (cl ! i)" if "e \<in> set cl" "fst e \<le> h" for e
  proof -
    from that(1) obtain j where j: "j < length cl" "e = cl ! j" by (auto simp: in_set_conv_nth)
    then have "j \<le> i" using calculation(3) that(2) by (meson leD leI)
    then show ?thesis
      using j calculation(1) keys_sorted sorted_wrt_nth_less[of "(<)" "bt_keys cl" j i]
      by (cases "j = i") (auto simp: bt_inv_def)
  qed
  ultimately show ?thesis using i by (auto simp: prev_checkpoint_index_def)
qed

end

lemma from_list_Ok_iff:
  "from_list xs = Ok cl \<longleftrightarrow>
     distinct (map fst xs) \<and> cl = bt_collect xs \<and> valid_checkpoints cl"
proof -
  let ?c = "bt_collect xs"
  have inv: "bt_inv ?c" by (rule bt_inv_collect)
  have first: "(\<exists>b. bt_first ?c = Some (0, b)) \<longleftrightarrow> bt_get ?c 0 \<noteq> None"
  proof (cases ?c)
    case (Cons e c)
    then have "\<forall>k\<in>set (bt_keys c). fst e < k" using inv by (cases e) (simp add: bt_inv_Cons)
    then show ?thesis using Cons by (cases e) (auto simp: bt_first_def map_of_eq_None_iff)
  qed (simp add: bt_first_def)
  have len: "length ?c = length xs \<longleftrightarrow> distinct (map fst xs)" by (rule length_bt_collect_distinct)
  have hashes: "length (remdups (map snd ?c)) = length ?c \<longleftrightarrow> distinct (map snd ?c)"
    by (metis length_map length_remdups_eq distinct_remdups distinct_remdups_id)
  have null: "null_hash \<in> set (remdups (map snd ?c)) \<longleftrightarrow> \<not> (\<forall>e\<in>set ?c. snd e \<noteq> null_hash)"
    by force
  have max: "max_height ?c = Ok (top_height ?c)" if "?c \<noteq> []"
    using that by (simp add: max_height_def max_height_in_range_def bt_last_def top_height_def)
  have top: "top_height ?c \<le> HEIGHT_MAX \<longleftrightarrow> (\<forall>e\<in>set ?c. fst e \<le> HEIGHT_MAX)" if "?c \<noteq> []"
  proof -
    have "last ?c \<in> set ?c" "\<forall>e\<in>set ?c. fst e \<le> top_height ?c"
      using bt_last_max[OF inv, of "top_height ?c" "snd (last ?c)"] that
      by (auto simp: bt_last_def top_height_def)
    then show ?thesis unfolding top_height_def by (meson order_trans)
  qed
  show ?thesis
  proof (cases "?c = []")
    case True
    then show ?thesis
      by (auto simp: from_list_def bt_first_def valid_checkpoints_def)
  next
    case False
    then obtain h b where e: "bt_first ?c = Some (h, b)"
      by (cases ?c) (auto simp: bt_first_def)
    show ?thesis unfolding from_list_def Let_def e valid_checkpoints_def
      using inv first[unfolded e] len hashes top[OF False]
      by (auto simp: max[OF False] null simp del: set_remdups set_map)
  qed
qed

lemma from_list_checkpoints: "from_list xs = Ok cl \<Longrightarrow> checkpoints cl"
  by (auto simp: from_list_Ok_iff checkpoints_def)

lemma from_str_checkpoints: "checkpoints_from_str hex s = Ok cl \<Longrightarrow> checkpoints cl"
  by (auto simp: checkpoints_from_str_def rust_simps intro: from_list_checkpoints)

text \<open>
  C8. A checkpoint list is accepted exactly when its heights are unique and at most \<open>Height::MAX\<close>,
  its hashes are unique and not null, and it has some checkpoint at height zero, whose hash is not
  compared with a network's genesis hash; the accepted map holds
  exactly the given pairs in ascending height order, and its maximum height is a checkpoint that no
  other one exceeds.
\<close>

theorem from_list_accepts:
  "((\<exists>cl. from_list xs = Ok cl) \<longleftrightarrow>
     distinct (map fst xs) \<and> distinct (map snd xs) \<and> 0 \<in> fst ` set xs \<and>
     (\<forall>e\<in>set xs. fst e \<le> HEIGHT_MAX \<and> snd e \<noteq> null_hash)) \<and>
   (\<forall>cl. from_list xs = Ok cl \<longrightarrow> bt_inv cl \<and> set cl = set xs \<and>
     max_height cl = Ok (top_height cl) \<and> has_checkpoint cl (top_height cl) \<and>
     (\<forall>e\<in>set xs. fst e \<le> top_height cl))"
proof (intro conjI[where Q = "\<forall>cl. _ cl \<longrightarrow> _ cl"] allI impI)
  have "distinct (map snd (bt_collect xs)) \<longleftrightarrow> distinct (map snd xs)" if "distinct (map fst xs)"
  proof -
    have "distinct xs" "distinct (bt_collect xs)"
      using that bt_inv_distinct[OF bt_inv_collect[of xs]] by (auto simp: distinct_map)
    then show ?thesis by (simp add: distinct_map set_bt_collect[OF that])
  qed
  then show "(\<exists>cl. from_list xs = Ok cl) \<longleftrightarrow>
     distinct (map fst xs) \<and> distinct (map snd xs) \<and> 0 \<in> fst ` set xs \<and>
     (\<forall>e\<in>set xs. fst e \<le> HEIGHT_MAX \<and> snd e \<noteq> null_hash)"
    by (auto simp: from_list_Ok_iff valid_checkpoints_def bt_inv_collect set_bt_collect
        map_of_eq_None_iff)
next
  fix cl assume ok: "from_list xs = Ok cl"
  then have c: "checkpoints cl" and s: "set cl = set xs"
    by (auto simp: from_list_checkpoints from_list_Ok_iff set_bt_collect)
  have "\<forall>e\<in>set cl. fst e \<le> top_height cl"
    using checkpoints.top_max(2)[OF c] by (auto simp: has_checkpoint_iff)
  then show "bt_inv cl \<and> set cl = set xs \<and>
     max_height cl = Ok (top_height cl) \<and> has_checkpoint cl (top_height cl) \<and>
     (\<forall>e\<in>set xs. fst e \<le> top_height cl)"
    using checkpoints.keys_sorted[OF c] checkpoints.max_height_eq[OF c] checkpoints.top_max(1)[OF c] s
    by auto
qed

theorem from_list_accepts_witness:
  "(\<exists>cl. from_list [(5, replicate 32 2), (0, replicate 32 1)] = Ok cl) \<and>
   (let xs = [(5, replicate 32 2), (0, replicate 32 1)];
        cl = [(0, replicate 32 1), (5, replicate 32 2)] in
    from_list xs = Ok cl \<and> bt_inv cl \<and> set cl = set xs \<and>
    max_height cl = Ok (top_height cl) \<and> has_checkpoint cl (top_height cl) \<and>
    (\<forall>e\<in>set xs. fst e \<le> top_height cl))"
proof -
  let ?xs = "[(5, replicate 32 2), (0, replicate 32 1)] :: (height \<times> block_hash) list"
  have "bt_collect ?xs = [(0, replicate 32 1), (5, replicate 32 2)]"
    by (simp add: bt_collect_def bt_extend_def)
  then have 1: "from_list ?xs = Ok [(0, replicate 32 1), (5, replicate 32 2)]"
    by (simp add: from_list_Ok_iff valid_checkpoints_def bt_inv_def HEIGHT_MAX_def null_hash_def)
  show ?thesis unfolding Let_def using 1 from_list_accepts[of ?xs] by blast
qed

end
