(* ===== verification/Difficulty.thy ===== *)
theory Difficulty
  imports Rust_Prelude
begin

section \<open>Difficulty and work (zebra-chain/src/work/difficulty.rs)\<close>

text \<open>
  A \<open>CompactDifficulty\<close> is the 32-bit pattern of the header field. An \<open>ExpandedDifficulty\<close> wraps a
  \<open>U256\<close>, which is its value here: additions and products above \<open>2^256 - 1\<close> panic, as the crate
  that provides \<open>U256\<close> documents. \<open>Work\<close> and \<open>PartialCumulativeWork\<close> wrap a \<open>u128\<close>. The reference
  function \<open>to_target\<close> is the target threshold of the protocol specification; the optimised
  conversions are proved equal to it.
\<close>

unbundle bit_operations_syntax

type_synonym compact = u32
type_synonym expanded = nat
type_synonym work = nat

definition u256_max :: nat where "u256_max = 2 ^ 256 - 1"
definition u128_max :: nat where "u128_max = 2 ^ 128 - 1"

definition u256_checked :: "nat \<Rightarrow> (nat, 'e) outcome" where
  "u256_checked x = (if x \<le> u256_max then Ok x else Panic)"

subsection \<open>Compact difficulties\<close>

definition PRECISION :: nat where
  "PRECISION = 24"

definition SIGN_BIT :: u32 where
  "SIGN_BIT = push_bit (PRECISION - 1) 1"

definition UNSIGNED_MANTISSA_MASK :: u32 where
  "UNSIGNED_MANTISSA_MASK = SIGN_BIT - 1"

definition OFFSET :: int where
  "OFFSET = 3"

text \<open>The match that normalises mantissa and exponent, arm by arm; \<open>None\<close> is its early return.\<close>

definition normalise :: "nat \<Rightarrow> int \<Rightarrow> (nat \<times> nat) option" where
  "normalise m e =
     (if e \<ge> 32 then None
      else if e = 31 \<and> m > 255 then None
      else if e = 31 \<and> m \<le> 255 then Some (push_bit 16 m, nat (e - 2))
      else if e = 30 \<and> m > 65535 then None
      else if e = 30 \<and> m \<le> 65535 then Some (push_bit 8 m, nat (e - 1))
      else if e < 0 then Some (drop_bit (nat (\<bar>e\<bar> * 8)) m, 0)
      else Some (m, nat e))"

definition to_expanded :: "compact \<Rightarrow> (expanded option, 'e) outcome" where
  "to_expanded c =
     (if c AND SIGN_BIT = SIGN_BIT then Ok None
      else
        let mantissa = unat (c AND UNSIGNED_MANTISSA_MASK);
            exponent = int (unat (drop_bit PRECISION c)) - OFFSET
        in case normalise mantissa exponent of
             None \<Rightarrow> Ok None
           | Some (m, e) \<Rightarrow>
               and_then (u256_checked (256 ^ e)) (\<lambda>b.
               and_then (u256_checked (m * b)) (\<lambda>result.
               Ok (if result = 0 then None else Some result))))"

text \<open>\<open>Work::try_from\<close>: \<open>!x / (x + 1) + 1\<close>, rejected when it does not fit a \<open>u128\<close>.\<close>

definition work_try_from :: "expanded \<Rightarrow> (work option, 'e) outcome" where
  "work_try_from x =
     and_then (u256_checked (x + 1)) (\<lambda>d.
     and_then (u256_checked ((u256_max - x) div d + 1)) (\<lambda>result.
     Ok (if result \<le> u128_max then Some result else None)))"

definition to_work :: "compact \<Rightarrow> (work option, 'e) outcome" where
  "to_work c = and_then (to_expanded c)
     (\<lambda>r. case r of None \<Rightarrow> Ok None | Some expanded \<Rightarrow> work_try_from expanded)"

definition compact_bytes_in_display_order :: "compact \<Rightarrow> bytes" where
  "compact_bytes_in_display_order c = be_bytes 4 (unat c)"

definition compact_from_bytes_in_display_order :: "bytes \<Rightarrow> (compact, string) outcome" where
  "compact_from_bytes_in_display_order bs =
     (let difficulty = of_nat (be_value bs)
      in and_then (to_expanded difficulty)
           (\<lambda>r. if r = None then Err ''invalid difficulty value'' else Ok difficulty))"

subsection \<open>Expanded difficulties\<close>

text \<open>\<open>U256::bits\<close>: the number of bits up to the highest set bit.\<close>

fun bit_size :: "nat \<Rightarrow> nat" where
  "bit_size x = (if x = 0 then 0 else Suc (bit_size (x div 2)))"

declare bit_size.simps [simp del]

definition from_hash :: "bytes \<Rightarrow> expanded" where
  "from_hash h = le_value h"

text \<open>A left shift of a \<open>U256\<close> drops the bits above the top one.\<close>

definition to_compact :: "expanded \<Rightarrow> (compact, 'e) outcome" where
  "to_compact x =
     (if \<not> x > 0 then Panic
      else
        let sz = bit_size x div 8 + 1;
            mantissa = (if x \<le> unat UNSIGNED_MANTISSA_MASK
                        then take_bit 256 (push_bit (8 * (3 - sz)) x)
                        else drop_bit (8 * (sz - 3)) x)
        in if \<not> sz < nat (31 + OFFSET) then Panic
           else if \<not> mantissa \<le> unat UNSIGNED_MANTISSA_MASK then Panic
           else if mantissa > 0 then Ok (of_nat mantissa + push_bit 24 (of_nat sz))
           else Panic)"

definition expanded_sum :: "expanded list \<Rightarrow> (expanded, 'e) outcome" where
  "expanded_sum ds = foldl (\<lambda>acc d. and_then acc (\<lambda>a. u256_checked (a + d))) (Ok 0) ds"

definition expanded_div :: "expanded \<Rightarrow> nat \<Rightarrow> (expanded, 'e) outcome" where
  "expanded_div x d = (if d = 0 then Panic else Ok (x div d))"

definition expanded_mul :: "expanded \<Rightarrow> nat \<Rightarrow> (expanded, 'e) outcome" where
  "expanded_mul x m = u256_checked (x * m)"

definition hash_le_difficulty :: "bytes \<Rightarrow> expanded \<Rightarrow> bool" where
  "hash_le_difficulty h x = (from_hash h \<le> x)"

subsection \<open>Cumulative work\<close>

definition work_zero :: work where
  "work_zero = 0"

definition pcw_add :: "work \<Rightarrow> work \<Rightarrow> (work, 'e) outcome" where
  "pcw_add a b = (if a + b \<le> u128_max then Ok (a + b) else Panic)"

definition pcw_sub :: "work \<Rightarrow> work \<Rightarrow> (work, 'e) outcome" where
  "pcw_sub a b = (if b \<le> a then Ok (a - b) else Panic)"

definition work_add :: "work \<Rightarrow> work \<Rightarrow> (work, 'e) outcome" where
  "work_add a b = pcw_add a b"

subsection \<open>Reference definitions\<close>

text \<open>
  \<open>ToTarget\<close> and the work of a target as the protocol specification has them, and the target that a
  conversion to the compact form keeps: the value with the bytes below its mantissa cleared.
\<close>

definition to_target :: "compact \<Rightarrow> nat" where
  "to_target c =
     (let x = unat c; m = x mod 2 ^ 23; s = x div 2 ^ 24
      in if odd (x div 2 ^ 23) then 0
         else if 3 \<le> s then m * 256 ^ (s - 3) else m div 256 ^ (3 - s))"

definition target_option :: "compact \<Rightarrow> expanded option" where
  "target_option c = (let t = to_target c in if t = 0 \<or> u256_max < t then None else Some t)"

text \<open>Dropping the bytes below the mantissa.\<close>

definition mantissa_unit :: "nat \<Rightarrow> nat" where
  "mantissa_unit x = 256 ^ (bit_size x div 8 - 2)"

definition compact_floor :: "expanded \<Rightarrow> expanded" where
  "compact_floor x = x div mantissa_unit x * mantissa_unit x"

definition byte_size :: "nat \<Rightarrow> nat" where
  "byte_size x = bit_size x div 8 + 1"

definition compact_mantissa :: "expanded \<Rightarrow> nat" where
  "compact_mantissa x =
     (if byte_size x \<le> 3 then x * 256 ^ (3 - byte_size x) else x div 256 ^ (byte_size x - 3))"

definition work_spec :: "expanded \<Rightarrow> work" where
  "work_spec t = 2 ^ 256 div (t + 1)"

subsection \<open>The conversions agree with the reference\<close>

lemma SIGN_BIT_eq: "SIGN_BIT = 0x800000"
  by (simp add: SIGN_BIT_def PRECISION_def)

lemma MASK_eq: "UNSIGNED_MANTISSA_MASK = 0x7fffff"
  by (simp add: UNSIGNED_MANTISSA_MASK_def SIGN_BIT_eq)

lemma mask_mod: "unat (c AND UNSIGNED_MANTISSA_MASK) = unat c mod 2 ^ 23" for c :: compact
proof -
  have "UNSIGNED_MANTISSA_MASK = mask 23" by (simp add: MASK_eq mask_eq_exp_minus_1)
  then have "unat (c AND UNSIGNED_MANTISSA_MASK) = unat (take_bit 23 c)"
    by (simp only: take_bit_eq_mask)
  also have "\<dots> = take_bit 23 (unat c)" by (rule unsigned_take_bit_eq)
  finally show ?thesis by (simp only: take_bit_eq_mod)
qed

lemma and_single_bit: "n < LENGTH('a) \<Longrightarrow> c AND push_bit n 1 = push_bit n 1 \<longleftrightarrow> bit c n"
  for c :: "'a::len word"
  by (auto simp: bit_and_iff bit_exp_iff intro!: bit_word_eqI
      dest: arg_cong[where f = "\<lambda>w. bit w n"])

lemma sign_odd: "c AND SIGN_BIT = SIGN_BIT \<longleftrightarrow> odd (unat c div 2 ^ 23)" for c :: compact
proof -
  have "c AND SIGN_BIT = SIGN_BIT \<longleftrightarrow> bit c 23"
    unfolding SIGN_BIT_def PRECISION_def using and_single_bit[of 23 c] by simp
  also have "\<dots> \<longleftrightarrow> bit (unat c) 23" by (simp add: bit_unsigned_iff)
  finally show ?thesis by (simp only: bit_iff_odd)
qed

lemma exponent_div: "unat (drop_bit PRECISION c) = unat c div 2 ^ 24" for c :: compact
  by (simp add: PRECISION_def drop_bit_eq_div unat_div_distrib)

lemma normalise_exact:
  assumes "m < 2 ^ 23"
  shows "case normalise m e of
           None \<Rightarrow> m = 0 \<or> 2 ^ 256 \<le> m * 256 ^ nat e
         | Some (m', e') \<Rightarrow> e' \<le> 29 \<and> m' < 2 ^ 24 \<and>
             m' * 256 ^ e' = (if e < 0 then m div 256 ^ nat (- e) else m * 256 ^ nat e)"
proof -
  have big: "2 ^ 256 \<le> m * 256 ^ nat e" if "0 < m" "e \<ge> 32" 
  proof -
    have "(256::nat) ^ 32 \<le> 256 ^ nat e" using that by (intro power_increasing) auto
    then have "1 * (256::nat) ^ 32 \<le> m * 256 ^ nat e" using that by (intro mult_mono) auto
    then show ?thesis by simp
  qed
  have shift: "m div 2 ^ nat (8 * \<bar>e\<bar>) = m div 256 ^ nat (- e)" if "e < 0"
  proof -
    have "nat (8 * \<bar>e\<bar>) = 8 * nat (- e)" using that by simp
    then have "(2::nat) ^ nat (8 * \<bar>e\<bar>) = 256 ^ nat (- e)" by (simp only: power_mult) simp
    then show ?thesis by (simp only:)
  qed
  consider "e \<ge> 32" | "e = 31" | "e = 30" | "e < 0" | "0 \<le> e" "e < 30" by linarith
  then show ?thesis
  proof cases
    case 1
    then show ?thesis using big by (auto simp: normalise_def)
  next
    case 4
    have "m div 256 ^ nat (- e) \<le> m" by simp
    also have "m < 2 ^ 24" using assms by simp
    finally have "m div 256 ^ nat (- e) < 2 ^ 24" .
    then show ?thesis using 4 shift
      by (simp add: normalise_def drop_bit_eq_div mult.commute)
  qed (use assms in \<open>auto simp: normalise_def push_bit_eq_mult nat_le_iff\<close>)
qed

lemma normalised_in_u256:
  fixes m' e' :: nat
  assumes "e' \<le> 29" "m' < 2 ^ 24"
  shows "256 ^ e' \<le> u256_max" and "m' * 256 ^ e' \<le> u256_max"
proof -
  have pow: "(256::nat) ^ e' \<le> 256 ^ 29" using assms(1) by (intro power_increasing) auto
  then show "256 ^ e' \<le> u256_max" by (simp add: u256_max_def)
  have "m' * 256 ^ e' \<le> (2 ^ 24 - 1) * 256 ^ 29" using assms(2) pow by (intro mult_mono) auto
  also have "\<dots> \<le> u256_max" by (simp add: u256_max_def)
  finally show "m' * 256 ^ e' \<le> u256_max" .
qed

lemma to_target_exponent:
  fixes c :: compact
  defines "m \<equiv> unat c mod 2 ^ 23" and "e \<equiv> int (unat c div 2 ^ 24) - 3"
  shows "to_target c = (if odd (unat c div 2 ^ 23) then 0
      else if e < 0 then m div 256 ^ nat (- e) else m * 256 ^ nat e)"
proof -
  define s where "s = unat c div 2 ^ 24"
  have "e = int s - 3" by (simp only: e_def s_def)
  then have "nat e = s - 3" "nat (- e) = 3 - s" "e < 0 \<longleftrightarrow> \<not> 3 \<le> s" by auto
  then show ?thesis by (simp only: to_target_def Let_def m_def s_def[symmetric]) simp
qed

lemma to_expanded_eq: "to_expanded c = Ok (target_option c)"
proof (cases "odd (unat c div 2 ^ 23)")
  case True
  then show ?thesis by (simp add: to_expanded_def sign_odd target_option_def to_target_def)
next
  case False
  define m where "m = unat c mod 2 ^ 23"
  define e where "e = int (unat c div 2 ^ 24) - 3"
  have "m < 2 ^ 23" by (simp add: m_def)
  note norm = normalise_exact[OF this, of e]
  note tgt = to_target_exponent[of c, folded m_def e_def]
  note code = to_expanded_def sign_odd mask_mod exponent_div OFFSET_def m_def[symmetric]
    e_def[symmetric] Let_def
  show ?thesis
  proof (cases "normalise m e")
    case None
    then have "m = 0 \<or> 2 ^ 256 \<le> m * 256 ^ nat e" using norm by simp
    moreover have "\<not> e < 0" using None by (auto simp: normalise_def split: if_splits)
    ultimately have "target_option c = None" using False
      by (auto simp: target_option_def tgt u256_max_def)
    then show ?thesis unfolding code using False None by simp
  next
    case (Some p)
    obtain m' e' where p: "p = (m', e')" by (cases p)
    then have n: "e' \<le> 29" "m' < 2 ^ 24" "m' * 256 ^ e' = to_target c"
      using norm Some False by (auto simp: tgt)
    then show ?thesis unfolding code using False Some p normalised_in_u256[OF n(1,2)]
      by (simp add: u256_checked_def target_option_def Let_def)
  qed
qed

lemma bit_size_bounds: "0 < x \<Longrightarrow> 2 ^ (bit_size x - 1) \<le> x \<and> x < 2 ^ bit_size x \<and> 0 < bit_size x"
proof (induction x rule: bit_size.induct)
  case (1 x)
  show ?case
  proof (cases "x = 1")
    case True
    then show ?thesis by (simp add: bit_size.simps)
  next
    case False
    then have "0 < x div 2" using 1(2) by auto
    with 1 have ih: "2 ^ (bit_size (x div 2) - 1) \<le> x div 2" "x div 2 < 2 ^ bit_size (x div 2)"
        "0 < bit_size (x div 2)" by auto
    have n: "bit_size x = Suc (bit_size (x div 2))" using 1(2) by (subst bit_size.simps) simp
    have "2 ^ bit_size (x div 2) = 2 * (2::nat) ^ (bit_size (x div 2) - 1)"
      using ih(3) by (cases "bit_size (x div 2)") auto
    with ih show ?thesis unfolding n by (simp; linarith)
  qed
qed

lemma bit_size_eqI:
  assumes "2 ^ n \<le> x" "x < 2 ^ Suc n"
  shows "bit_size x = Suc n"
proof -
  have pos: "0 < x" using assms(1) by (metis gr0I not_one_le_zero one_le_numeral one_le_power order_trans)
  note b = bit_size_bounds[OF pos]
  have "(2::nat) ^ n < 2 ^ bit_size x" using assms b by linarith
  then have 1: "n < bit_size x" by simp
  have "(2::nat) ^ (bit_size x - 1) < 2 ^ Suc n" using assms b by linarith
  then have "bit_size x - 1 < Suc n" by (simp only: power_strict_increasing_iff one_less_numeral_iff semiring_norm)
  with 1 show ?thesis by simp
qed

lemma mantissa_unit_dvd: 
  assumes "0 < x" shows "mantissa_unit x dvd 2 ^ (bit_size x - 1)"
proof -
  have "mantissa_unit x = 2 ^ (8 * (bit_size x div 8 - 2))"
    unfolding mantissa_unit_def by (simp add: power_mult)
  moreover have "8 * (bit_size x div 8 - 2) \<le> bit_size x - 1"
    using bit_size_bounds[OF assms] by linarith
  ultimately show ?thesis by (simp add: le_imp_power_dvd)
qed

lemma compact_floor_bounds:
  assumes "0 < x"
  shows "2 ^ (bit_size x - 1) \<le> compact_floor x" "compact_floor x \<le> x"
    "x < compact_floor x + mantissa_unit x"
proof -
  have u: "0 < mantissa_unit x" by (simp add: mantissa_unit_def)
  show "compact_floor x \<le> x" by (simp add: compact_floor_def)
  show "x < compact_floor x + mantissa_unit x"
    using u mod_less_divisor[OF u, of x] div_mult_mod_eq[of x "mantissa_unit x"]
    unfolding compact_floor_def by linarith
  obtain k where k: "2 ^ (bit_size x - 1) = mantissa_unit x * k"
    using mantissa_unit_dvd[OF assms] by blast
  then have "mantissa_unit x * k \<le> x" using bit_size_bounds[OF assms] by simp
  then have "k \<le> x div mantissa_unit x"
    using u by (simp add: less_eq_div_iff_mult_less_eq mult.commute)
  then show "2 ^ (bit_size x - 1) \<le> compact_floor x"
    unfolding k compact_floor_def by (simp add: mult.commute)
qed

lemma bit_size_compact_floor:
  assumes "0 < x"
  shows "bit_size (compact_floor x) = bit_size x"
proof -
  obtain n where n: "bit_size x = Suc n" using bit_size_bounds[OF assms] by (cases "bit_size x") auto
  have "compact_floor x < 2 ^ Suc n"
    using bit_size_bounds[OF assms] compact_floor_bounds(2)[OF assms] n by (metis le_less_trans)
  then show ?thesis using compact_floor_bounds(1)[OF assms] by (simp add: n bit_size_eqI)
qed

lemma compact_floor_idem: "0 < x \<Longrightarrow> compact_floor (compact_floor x) = compact_floor x"
  unfolding compact_floor_def[of "compact_floor x"]
  by (simp add: mantissa_unit_def bit_size_compact_floor) (simp add: compact_floor_def mantissa_unit_def)

lemma compact_floor_mono:
  assumes "0 < x" "x \<le> y"
  shows "compact_floor x \<le> compact_floor y"
proof (cases "bit_size x = bit_size y")
  case True
  then show ?thesis using assms by (simp add: compact_floor_def mantissa_unit_def div_le_mono)
next
  case False
  have y: "0 < y" using assms by simp
  have "2 ^ (bit_size x - 1) < (2::nat) ^ bit_size y"
    using bit_size_bounds[OF assms(1)] bit_size_bounds[OF y] assms(2) by linarith
  then have "bit_size x - 1 < bit_size y" by simp
  with False have "bit_size x \<le> bit_size y - 1" by simp
  then have "2 ^ bit_size x \<le> (2::nat) ^ (bit_size y - 1)" by simp
  then show ?thesis
    using bit_size_bounds[OF assms(1)] compact_floor_bounds[OF assms(1)] compact_floor_bounds[OF y]
    by linarith
qed

lemma shift_bytes: "(2::nat) ^ (8 * k) = 256 ^ k"
  by (simp add: power_mult)

lemma byte_size_bounds:
  assumes "0 < x"
  shows "x < 2 ^ (8 * byte_size x - 1)" and "2 ^ (8 * (byte_size x - 1) - 1) \<le> x"
    and "x < 2 ^ 23 \<longleftrightarrow> byte_size x \<le> 3" and "x \<le> u256_max \<Longrightarrow> byte_size x \<le> 33"
proof -
  define n where "n = bit_size x"
  define sz where "sz = byte_size x"
  have b: "2 ^ (n - 1) \<le> x" "x < 2 ^ n" "0 < n"
    using bit_size_bounds[OF assms(1)] by (auto simp: n_def)
  have sz: "8 * (sz - 1) \<le> n" "n \<le> 8 * sz - 1" "1 \<le> sz"
    by (auto simp: sz_def byte_size_def n_def)
  have size_less: "n - 1 < k" if "x < 2 ^ k" for k
  proof -
    have "(2::nat) ^ (n - 1) < 2 ^ k" using b that by linarith
    then show ?thesis by simp
  qed
  show up: "x < 2 ^ (8 * sz - 1)"
    by (rule less_le_trans[OF b(2)]) (use sz in \<open>auto intro: power_increasing\<close>)
  have "(2::nat) ^ (8 * (sz - 1) - 1) \<le> 2 ^ (n - 1)" using sz by (intro power_increasing) auto
  then show "2 ^ (8 * (sz - 1) - 1) \<le> x" using b by linarith
  show "sz \<le> 33" if "x \<le> u256_max"
    using size_less[of 256] that sz by (simp add: u256_max_def)
  show "x < 2 ^ 23 \<longleftrightarrow> sz \<le> 3"
  proof
    assume "x < 2 ^ 23"
    then show "sz \<le> 3" using size_less[of 23] sz by linarith
  next
    assume "sz \<le> 3"
    then have "(2::nat) ^ (8 * sz - 1) \<le> 2 ^ 23" by (intro power_increasing) auto
    then show "x < 2 ^ 23" using up by linarith
  qed
qed

lemma compact_mantissa_bounds:
  assumes "0 < x"
  shows "compact_mantissa x < 2 ^ 23" and "3 < byte_size x \<Longrightarrow> 2 ^ 15 \<le> compact_mantissa x"
    and "0 < compact_mantissa x"
proof -
  define sz where "sz = byte_size x"
  note b = byte_size_bounds[OF assms, folded sz_def]
  have sz: "1 \<le> sz" by (simp add: sz_def byte_size_def)
  show "compact_mantissa x < 2 ^ 23"
  proof (cases "sz \<le> 3")
    case True
    then have "x * 2 ^ (8 * (3 - sz)) < 2 ^ (8 * sz - 1) * 2 ^ (8 * (3 - sz))" using b by simp
    also have "\<dots> = 2 ^ ((8 * sz - 1) + 8 * (3 - sz))" by (rule power_add[symmetric])
    also have "(8 * sz - 1) + 8 * (3 - sz) = 23" using True sz by linarith
    finally show ?thesis using True by (simp add: compact_mantissa_def sz_def shift_bytes)
  next
    case False
    then have "8 * sz - 1 = 23 + 8 * (sz - 3)" by linarith
    then have "x < 2 ^ 23 * 2 ^ (8 * (sz - 3))" using b(1) by (simp only: power_add)
    then show ?thesis
      using False by (simp add: compact_mantissa_def sz_def shift_bytes less_mult_imp_div_less)
  qed
  show big: "2 ^ 15 \<le> compact_mantissa x" if "3 < byte_size x"
  proof -
    have "15 + 8 * (sz - 3) = 8 * (sz - 1) - 1" using that sz_def by linarith
    then have "2 ^ (15 + 8 * (sz - 3)) \<le> x" using b(2) by (simp only:)
    then have "2 ^ 15 * 2 ^ (8 * (sz - 3)) \<le> x" by (simp only: power_add)
    then show ?thesis
      using that by (simp add: compact_mantissa_def sz_def shift_bytes less_eq_div_iff_mult_less_eq)
  qed
  show "0 < compact_mantissa x"
    using big assms by (cases "byte_size x \<le> 3") (auto simp: compact_mantissa_def)
qed

lemma to_compact_eq:
  assumes "0 < x" "x \<le> u256_max"
  shows "to_compact x = Ok (of_nat (compact_mantissa x + byte_size x * 2 ^ 24))"
proof -
  note b = byte_size_bounds[OF assms(1)] and m = compact_mantissa_bounds[OF assms(1)]
  have mask: "unat UNSIGNED_MANTISSA_MASK = 2 ^ 23 - 1" by (simp add: MASK_eq)
  have lhs: "(if x \<le> unat UNSIGNED_MANTISSA_MASK
      then take_bit 256 (push_bit (8 * (3 - byte_size x)) x)
      else drop_bit (8 * (byte_size x - 3)) x) = compact_mantissa x"
  proof (cases "byte_size x \<le> 3")
    case True
    then have "push_bit (8 * (3 - byte_size x)) x = compact_mantissa x"
      by (simp add: compact_mantissa_def push_bit_eq_mult shift_bytes)
    then show ?thesis using True b(3) m by (auto simp: mask take_bit_nat_eq_self_iff)
  next
    case False
    then show ?thesis
      using b(3) by (auto simp: mask compact_mantissa_def drop_bit_eq_div shift_bytes)
  qed
  show ?thesis
    unfolding to_compact_def Let_def byte_size_def[symmetric] lhs using assms(1) m b(4)[OF assms(2)]
    by (simp add: mask OFFSET_def push_bit_eq_mult)
qed

lemma to_target_compact:
  assumes "0 < x" "x \<le> u256_max"
  shows "to_target (of_nat (compact_mantissa x + byte_size x * 2 ^ 24)) = compact_floor x"
proof -
  define m where "m = compact_mantissa x"
  define sz where "sz = byte_size x"
  have m: "m < 2 ^ 23" and sz: "sz \<le> 33"
    using compact_mantissa_bounds[OF assms(1)] byte_size_bounds[OF assms(1)] assms(2)
    by (auto simp: m_def sz_def)
  have u: "unat (of_nat (m + sz * 2 ^ 24) :: compact) = m + sz * 2 ^ 24"
    using m sz by (subst unat_of_nat) (simp del: of_nat_add of_nat_mult)
  have "(m + sz * 2 ^ 24) div 2 ^ 23 = 2 * sz" "(m + sz * 2 ^ 24) mod 2 ^ 23 = m"
      "(m + sz * 2 ^ 24) div 2 ^ 24 = sz"
    using m by (auto intro!: div_nat_eqI simp: mod_nat_eqI)
  then have "to_target (of_nat (m + sz * 2 ^ 24))
      = (if 3 \<le> sz then m * 256 ^ (sz - 3) else m div 256 ^ (3 - sz))"
    unfolding to_target_def Let_def u by simp
  also have "\<dots> = compact_floor x"
  proof -
    have "bit_size x div 8 - 2 = sz - 3" by (simp add: sz_def byte_size_def)
    then show ?thesis
      by (cases "sz \<le> 3") (auto simp: m_def compact_mantissa_def sz_def compact_floor_def mantissa_unit_def)
  qed
  finally show ?thesis unfolding m_def sz_def .
qed

lemma compact_floor_range:
  assumes "0 < x" "x \<le> u256_max"
  shows "0 < compact_floor x" "compact_floor x \<le> u256_max"
  using compact_floor_bounds[OF assms(1)] assms(2)
  by (auto intro: less_le_trans[of 0 "2 ^ (bit_size x - 1)"])

lemma to_expanded_to_compact:
  assumes "0 < x" "x \<le> u256_max"
  shows "and_then (to_compact x) to_expanded = Ok (Some (compact_floor x))"
  unfolding to_compact_eq[OF assms] and_then.simps to_expanded_eq target_option_def Let_def
    to_target_compact[OF assms]
  using compact_floor_range[OF assms] by simp

lemma to_compact_floor:
  assumes "0 < x" "x \<le> u256_max"
  shows "to_compact (compact_floor x) = to_compact x"
proof -
  note r = compact_floor_range[OF assms]
  have sz: "byte_size (compact_floor x) = byte_size x"
    by (simp add: byte_size_def bit_size_compact_floor[OF assms(1)])
  have "bit_size x div 8 - 2 = byte_size x - 3" by (simp add: byte_size_def)
  then have "compact_mantissa (compact_floor x) = compact_mantissa x"
    by (simp add: compact_mantissa_def sz) (simp add: compact_floor_def mantissa_unit_def)
  then show ?thesis by (simp add: to_compact_eq[OF assms] to_compact_eq[OF r] sz)
qed

lemma compact_floor_precise:
  assumes "0 < x"
  shows "2 ^ 15 * (x - compact_floor x) < compact_floor x"
proof (cases "3 < byte_size x")
  case True
  have u: "mantissa_unit x = 256 ^ (byte_size x - 3)" by (simp add: mantissa_unit_def byte_size_def)
  have "2 ^ 15 * mantissa_unit x \<le> compact_floor x"
    using compact_mantissa_bounds(2)[OF assms True] True
    by (simp add: compact_floor_def compact_mantissa_def u)
  moreover have "x - compact_floor x < mantissa_unit x"
    using compact_floor_bounds[OF assms] by linarith
  ultimately show ?thesis by simp
next
  case False
  then have "mantissa_unit x = 1" by (simp add: mantissa_unit_def byte_size_def)
  then show ?thesis using assms by (simp add: compact_floor_def)
qed

lemma work_identity:
  fixes x :: nat
  assumes "x < u256_max"
  shows "(u256_max - x) div (x + 1) + 1 = 2 ^ 256 div (x + 1)"
proof -
  have "2 ^ 256 = (u256_max - x) + (x + 1)" using assms by (simp add: u256_max_def)
  then have "2 ^ 256 div (x + 1) = ((u256_max - x) + (x + 1)) div (x + 1)" by simp
  also have "\<dots> = (u256_max - x) div (x + 1) + 1" by (rule div_add_self2) simp
  finally show ?thesis by simp
qed

lemma work_try_from_eq:
  assumes "0 < x" "x < u256_max"
  shows "work_try_from x = Ok (if work_spec x \<le> u128_max then Some (work_spec x) else None)"
proof -
  have "work_spec x \<le> 2 ^ 256 div 2"
    unfolding work_spec_def using assms by (intro div_le_mono2) auto
  also have "\<dots> \<le> u256_max" by (simp add: u256_max_def)
  finally have "work_spec x \<le> u256_max" .
  moreover have "(u256_max - x) div (x + 1) + 1 = work_spec x"
    using work_identity[OF assms(2)] by (simp add: work_spec_def)
  ultimately show ?thesis using assms
    by (simp add: work_try_from_def u256_checked_def)
qed

lemma target_option_Some: "target_option c = Some t \<longleftrightarrow> to_target c = t \<and> 0 < t \<and> t \<le> u256_max"
  by (auto simp: target_option_def Let_def)

lemma to_target_less: "to_target c \<noteq> u256_max"
proof
  assume a: "to_target c = u256_max"
  define m where "m = unat c mod 2 ^ 23"
  define s where "s = unat c div 2 ^ 24"
  have m: "m < 2 ^ 23" by (simp add: m_def)
  have big: "2 ^ 23 \<le> u256_max" by (simp add: u256_max_def)
  have eq: "u256_max = (if 3 \<le> s then m * 256 ^ (s - 3) else m div 256 ^ (3 - s))"
    using a big unfolding to_target_def Let_def m_def[symmetric] s_def[symmetric]
    by (simp split: if_splits)
  show False
  proof (cases "3 < s")
    case True
    then have "even u256_max" by (simp add: eq)
    then show False by (simp add: u256_max_def)
  next
    case False
    then have "u256_max \<le> m"
      using eq div_le_dividend[of m "256 ^ (3 - s)"] by (cases "s = 3") simp_all
    then show False using m big by linarith
  qed
qed

lemma to_work_eq:
  "to_work c = Ok (case target_option c of None \<Rightarrow> None
     | Some t \<Rightarrow> if work_spec t \<le> u128_max then Some (work_spec t) else None)"
proof (cases "target_option c")
  case None
  then show ?thesis by (simp add: to_work_def to_expanded_eq)
next
  case (Some t)
  then have "0 < t" "t < u256_max" using to_target_less[of c] by (auto simp: target_option_Some)
  then show ?thesis using Some by (simp add: to_work_def to_expanded_eq work_try_from_eq)
qed

lemma work_spec_antimono: "t \<le> t' \<Longrightarrow> work_spec t' \<le> work_spec t"
  unfolding work_spec_def by (intro div_le_mono2) auto

lemma work_spec_pos: "t \<le> u256_max \<Longrightarrow> 0 < work_spec t"
  by (simp add: work_spec_def u256_max_def div_greater_zero_iff)

lemma pcw_sub_add: "pcw_add a b = Ok s \<Longrightarrow> pcw_sub s b = Ok a"
  by (auto simp: pcw_add_def pcw_sub_def split: if_splits)

lemma compact_display_roundtrip:
  "compact_from_bytes_in_display_order (compact_bytes_in_display_order c) =
     (if target_option c = None then Err ''invalid difficulty value'' else Ok c)"
proof -
  have "unat c < 2 ^ 32" using unsigned_less[of c] by simp
  then have "be_value (be_bytes 4 (unat c)) = unat c" by (simp add: be_value_be_bytes)
  then show ?thesis
    by (simp add: compact_from_bytes_in_display_order_def compact_bytes_in_display_order_def
        to_expanded_eq Let_def)
qed

subsection \<open>Properties\<close>

text \<open>
  C4. Expanding a compact difficulty computes the specification's \<open>ToTarget\<close> on all \<open>2^32\<close> bit
  patterns without ever overflowing 256 bits; the rejected patterns are exactly those whose target
  is zero (negative patterns included) or does not fit 256 bits.
\<close>

theorem to_expanded_is_to_target:
  "to_expanded c =
     Ok (if to_target c = 0 \<or> u256_max < to_target c then None else Some (to_target c))"
  by (simp add: to_expanded_eq target_option_def)

text \<open>
  C5. Converting a positive 256-bit target to the compact form never panics, rounds down with a
  relative error below \<open>2^-15\<close>, is stable under a second conversion, and is monotone: a harder
  target never becomes easier than another one by rounding.
\<close>

theorem to_compact_rounds_down:
  assumes "0 < x" "x \<le> y" "y \<le> u256_max"
  shows "\<exists>c x' d y'.
    to_compact x = Ok c \<and> to_expanded c = Ok (Some x') \<and>
    to_compact y = Ok d \<and> to_expanded d = Ok (Some y') \<and>
    x' \<le> x \<and> 2 ^ 15 * (x - x') < x' \<and> to_compact x' = Ok c \<and> x' \<le> y'"
proof -
  have x: "x \<le> u256_max" and y: "0 < y" using assms by auto
  define c :: compact where "c = of_nat (compact_mantissa x + byte_size x * 2 ^ 24)"
  define d :: compact where "d = of_nat (compact_mantissa y + byte_size y * 2 ^ 24)"
  have c: "to_compact x = Ok c" unfolding c_def by (rule to_compact_eq[OF assms(1) x])
  have d: "to_compact y = Ok d" unfolding d_def by (rule to_compact_eq[OF y assms(3)])
  have "to_expanded c = Ok (Some (compact_floor x))" "to_expanded d = Ok (Some (compact_floor y))"
    using to_expanded_to_compact[OF assms(1) x] to_expanded_to_compact[OF y assms(3)]
    by (simp_all add: c d)
  then show ?thesis
    using compact_floor_bounds(2)[OF assms(1)] compact_floor_precise[OF assms(1)]
      compact_floor_mono[OF assms(1,2)]
    by (intro exI[of _ c] exI[of _ "compact_floor x"] exI[of _ d] exI[of _ "compact_floor y"])
      (simp add: c d to_compact_floor[OF assms(1) x])
qed

theorem to_compact_rounds_down_witness:
  "\<exists>c x' d y'.
    to_compact 1000 = Ok c \<and> to_expanded c = Ok (Some x') \<and>
    to_compact (2 ^ 243 - 1) = Ok d \<and> to_expanded d = Ok (Some y') \<and>
    x' \<le> 1000 \<and> 2 ^ 15 * (1000 - x') < x' \<and> to_compact x' = Ok c \<and> x' \<le> y'"
  by (rule to_compact_rounds_down) (simp_all add: u256_max_def)

text \<open>
  C6. The work of a compact difficulty is \<open>floor(2^256 / (target + 1))\<close>, computed in 256 bits
  without overflow; it is refused exactly when it does not fit 128 bits, it is positive, and an
  easier target never has more work.
\<close>

theorem to_work_is_work_spec:
  assumes "to_expanded c = Ok (Some t)" "to_expanded d = Ok (Some u)" "t \<le> u"
  shows "(to_work c :: (work option, 'e) outcome) =
      Ok (if 2 ^ 256 div (t + 1) \<le> u128_max then Some (2 ^ 256 div (t + 1)) else None) \<and>
    (\<forall>w. (to_work c :: (work option, 'e) outcome) = Ok (Some w) \<longrightarrow>
       (\<exists>w'. (to_work d :: (work option, 'e) outcome) = Ok (Some w') \<and> 0 < w' \<and> w' \<le> w))"
proof (intro conjI allI impI)
  have t: "target_option c = Some t" and u: "target_option d = Some u"
    using assms by (simp_all add: to_expanded_eq)
  show "(to_work c :: (work option, 'e) outcome) =
      Ok (if 2 ^ 256 div (t + 1) \<le> u128_max then Some (2 ^ 256 div (t + 1)) else None)"
    using t by (simp add: to_work_eq work_spec_def)
  have "0 < work_spec u" using u by (simp add: target_option_Some work_spec_pos)
  then show "\<exists>w'. (to_work d :: (work option, 'e) outcome) = Ok (Some w') \<and> 0 < w' \<and> w' \<le> w"
    if "(to_work c :: (work option, 'e) outcome) = Ok (Some w)" for w
    using that t u work_spec_antimono[OF assms(3)] by (auto simp: to_work_eq split: if_splits)
qed

theorem to_work_is_work_spec_witness:
  "(to_work (0x1d00ffff) :: (work option, unit) outcome) = Ok (Some (2 ^ 256 div (65535 * 256 ^ 26 + 1))) \<and>
   (\<exists>w'. (to_work (0x1f07ffff) :: (work option, unit) outcome) = Ok (Some w') \<and> 0 < w' \<and>
      w' \<le> 2 ^ 256 div (65535 * 256 ^ 26 + 1))"
proof -
  have t: "to_expanded (0x1d00ffff) = Ok (Some (65535 * 256 ^ 26))"
    and u: "to_expanded (0x1f07ffff) = Ok (Some (524287 * 256 ^ 28))"
    by (simp_all add: to_expanded_eq target_option_def to_target_def Let_def u256_max_def)
  have 1: "(to_work (0x1d00ffff) :: (work option, unit) outcome) = Ok (Some (2 ^ 256 div (65535 * 256 ^ 26 + 1)))"
    by (subst conjunct1[OF to_work_is_work_spec[OF t u]]) (simp_all add: u128_max_def)
  show ?thesis using 1 conjunct2[OF to_work_is_work_spec[where 'e = unit, OF t u]] by simp
qed

end
