(* ===== verification/Network_Params.thy ===== *)
theory Network_Params
  imports Network_Upgrade Subsidy_Constants Checkpoint_List Difficulty
begin

section \<open>Networks (zebra-chain/src/parameters/network.rs and network/testnet.rs)\<close>

text \<open>
  The network type, the parameters of test networks and the builder that configures them. A builder
  call that returns \<open>Result\<close> is an \<open>outcome\<close>; the calls compose in any order, as in the configuration
  code. The hard-coded Testnet checkpoint list is parsed from a data file and is the argument \<open>tcl\<close>
  of the definitions that compare with the default Testnet. The files that a configured checkpoint path
  may name and the parser of hexadecimal digits are the argument \<open>F\<close>. Network names and the parser of
  configured genesis hashes are not modelled. \<open>Parameters::new_regtest\<close> needs the funding stream periods
  and is in \<open>Regtest_Network\<close>; here is its part up to the extension of the funding streams.
\<close>

subsection \<open>Parameters and their builder\<close>

datatype network_kind = MainnetKind | TestnetKind | RegtestKind

record testnet_parameters =
  network_name :: string
  network_magic :: bytes
  genesis_hash :: block_hash
  activation_heights :: schedule
  slow_start_interval :: height
  slow_start_shift :: height
  funding_streams_of :: "funding_streams list"
  target_difficulty_limit_of :: expanded
  disable_pow :: bool
  should_allow_unshielded_coinbase_spends :: bool
  pre_blossom_halving_interval :: int
  post_blossom_halving_interval :: int
  lockbox_disbursements_of :: "(address \<times> amount) list"
  checkpoints_of :: checkpoint_list
  temporary_orchard_disabling_soft_fork_height :: "height option"

record parameters_builder =
  pb_network_name :: string
  pb_network_magic :: bytes
  pb_genesis_hash :: block_hash
  pb_activation_heights :: schedule
  pb_slow_start_interval :: height
  pb_funding_streams :: "funding_streams list"
  pb_should_lock_funding_stream_address_period :: bool
  pb_target_difficulty_limit :: expanded
  pb_disable_pow :: bool
  pb_should_allow_unshielded_coinbase_spends :: bool
  pb_pre_blossom_halving_interval :: int
  pb_post_blossom_halving_interval :: int
  pb_lockbox_disbursements :: "(address \<times> amount) list"
  pb_checkpoints :: checkpoint_list
  pb_temporary_orchard_disabling_soft_fork_height :: "height option"

datatype network = Mainnet | Testnet testnet_parameters

datatype parameters_builder_error =
    ReservedNetworkMagic | LockFundingStreams | InvalidActivationHeight | InvalidHeightZero
  | OutOfOrderUpgrades | InvaildDifficultyLimits | HalvingIntervalAfterFundingStreams
  | FailedToParseDefaultCheckpoint | FailedToReadCheckpointFile string
  | FailedToParseCheckpointFile string checkpoint_error | InvalidCustomCheckpoints
  | CheckpointGenesisMismatch | InsufficientCheckpointCoverage

type_synonym 'a builder_result = "('a, parameters_builder_error) outcome"

subsection \<open>Constants\<close>

definition MAGIC_MAINNET :: bytes where
  "MAGIC_MAINNET = [0x24, 0xe9, 0x27, 0x64]"

definition MAGIC_TESTNET :: bytes where
  "MAGIC_TESTNET = [0xfa, 0x1a, 0xf9, 0xbf]"

definition MAGIC_REGTEST :: bytes where
  "MAGIC_REGTEST = [0xaa, 0xe8, 0x3f, 0x5f]"

text \<open>The genesis hashes are written in display order in the source, and in byte order here.\<close>

definition MAINNET_GENESIS_HASH :: block_hash where
  "MAINNET_GENESIS_HASH =
     [0x08, 0xce, 0x3d, 0x97, 0x31, 0xb0, 0x00, 0xc0, 0x83, 0x38, 0x45, 0x5c, 0x8a, 0x4a, 0x6b,
      0xd0, 0x5d, 0xa1, 0x6e, 0x26, 0xb1, 0x1d, 0xaa, 0x1b, 0x91, 0x71, 0x84, 0xec, 0xe8, 0x0f,
      0x04, 0x00]"

definition TESTNET_GENESIS_HASH :: block_hash where
  "TESTNET_GENESIS_HASH =
     [0x38, 0x2c, 0x4a, 0x33, 0x26, 0x61, 0xc7, 0xed, 0x06, 0x71, 0xf3, 0x2a, 0x34, 0xd7, 0x24,
      0x61, 0x9f, 0x08, 0x6c, 0x61, 0x87, 0x3b, 0xce, 0x7c, 0x99, 0x85, 0x9d, 0xd9, 0x92, 0x0a,
      0xa6, 0x05]"

definition REGTEST_GENESIS_HASH :: block_hash where
  "REGTEST_GENESIS_HASH =
     [0x27, 0xe3, 0x01, 0x34, 0xd6, 0x20, 0xe9, 0xfe, 0x61, 0xf7, 0x19, 0x93, 0x83, 0x20, 0xba,
      0xb6, 0x3e, 0x7e, 0x72, 0xc9, 0x1b, 0x5e, 0x23, 0x02, 0x56, 0x76, 0xf9, 0x0e, 0xd8, 0x11,
      0x9f, 0x02]"

definition PRE_BLOSSOM_REGTEST_HALVING_INTERVAL :: int where
  "PRE_BLOSSOM_REGTEST_HALVING_INTERVAL = 144"

definition MAINNET_TEMPORARY_ORCHARD_DISABLING_SOFT_FORK_HEIGHT :: height where
  "MAINNET_TEMPORARY_ORCHARD_DISABLING_SOFT_FORK_HEIGHT = 3363426"

definition TESTNET_TEMPORARY_ORCHARD_DISABLING_SOFT_FORK_HEIGHT :: height where
  "TESTNET_TEMPORARY_ORCHARD_DISABLING_SOFT_FORK_HEIGHT = 4048500"

subsection \<open>Building parameters\<close>

text \<open>A difficulty limit is stored after a round trip through the compact form.\<close>

definition compacted_limit :: "expanded \<Rightarrow> (expanded option, 'e) outcome" where
  "compacted_limit x = and_then (to_compact x) to_expanded"

definition builder_default :: "checkpoint_list \<Rightarrow> (parameters_builder, 'e) outcome" where
  "builder_default tcl =
     and_then (compacted_limit (2 ^ 251 - 1)) (\<lambda>r. and_then (expect r) (\<lambda>limit.
     Ok \<lparr>pb_network_name = ''UnknownTestnet'',
         pb_network_magic = MAGIC_TESTNET,
         pb_genesis_hash = TESTNET_GENESIS_HASH,
         pb_activation_heights = bt_collect TESTNET_ACTIVATION_HEIGHTS,
         pb_slow_start_interval = SLOW_START_INTERVAL,
         pb_funding_streams = TESTNET_FUNDING_STREAMS,
         pb_should_lock_funding_stream_address_period = False,
         pb_target_difficulty_limit = limit,
         pb_disable_pow = False,
         pb_should_allow_unshielded_coinbase_spends = False,
         pb_pre_blossom_halving_interval = PRE_BLOSSOM_HALVING_INTERVAL,
         pb_post_blossom_halving_interval = POST_BLOSSOM_HALVING_INTERVAL,
         pb_lockbox_disbursements = TESTNET_NU6_1_LOCKBOX_DISBURSEMENTS,
         pb_checkpoints = tcl,
         pb_temporary_orchard_disabling_soft_fork_height =
           Some TESTNET_TEMPORARY_ORCHARD_DISABLING_SOFT_FORK_HEIGHT\<rparr>))"

definition with_network_magic ::
    "bytes \<Rightarrow> parameters_builder \<Rightarrow> parameters_builder builder_result" where
  "with_network_magic m b =
     (if m \<in> set [MAGIC_MAINNET, MAGIC_REGTEST] then Err ReservedNetworkMagic
      else Ok (b\<lparr>pb_network_magic := m\<rparr>))"

record configured_activation_heights =
  c_before_overwinter :: "nat option"
  c_overwinter :: "nat option"
  c_sapling :: "nat option"
  c_blossom :: "nat option"
  c_heartwood :: "nat option"
  c_canopy :: "nat option"
  c_nu5 :: "nat option"
  c_nu6 :: "nat option"
  c_nu6_1 :: "nat option"
  c_nu6_2 :: "nat option"
  c_nu6_3 :: "nat option"
  c_nu7 :: "nat option"

definition no_activation_heights :: configured_activation_heights where
  "no_activation_heights =
     \<lparr>c_before_overwinter = None, c_overwinter = None, c_sapling = None, c_blossom = None,
      c_heartwood = None, c_canopy = None, c_nu5 = None, c_nu6 = None, c_nu6_1 = None,
      c_nu6_2 = None, c_nu6_3 = None, c_nu7 = None\<rparr>"

definition option_or :: "'a option \<Rightarrow> 'a option \<Rightarrow> 'a option" where
  "option_or a b = (case a of None \<Rightarrow> b | Some x \<Rightarrow> Some x)"

definition for_regtest :: "configured_activation_heights \<Rightarrow> configured_activation_heights" where
  "for_regtest c =
     (let overwinter = option_or (option_or (c_overwinter c) (c_before_overwinter c)) (Some 1);
          sapling = option_or (c_sapling c) overwinter;
          blossom = option_or (c_blossom c) sapling;
          heartwood = option_or (c_heartwood c) blossom;
          canopy = option_or (c_canopy c) heartwood
      in c\<lparr>c_overwinter := overwinter, c_sapling := sapling, c_blossom := blossom,
           c_heartwood := heartwood, c_canopy := canopy\<rparr>)"

definition configured_slots :: "configured_activation_heights \<Rightarrow> (nat option \<times> network_upgrade) list" where
  "configured_slots c =
     [(c_before_overwinter c, BeforeOverwinter), (c_overwinter c, Overwinter),
      (c_sapling c, Sapling), (c_blossom c, Blossom), (c_heartwood c, Heartwood),
      (c_canopy c, Canopy), (c_nu5 c, Nu5), (c_nu6 c, Nu6), (c_nu6_1 c, Nu6_1),
      (c_nu6_2 c, Nu6_2), (c_nu6_3 c, Nu6_3), (c_nu7 c, Nu7)]"

definition configured_pairs :: "configured_activation_heights \<Rightarrow> (nat \<times> network_upgrade) list" where
  "configured_pairs c =
     List.map_filter (\<lambda>(h, nu). map_option (\<lambda>h. (h, nu)) h) (configured_slots c)"

text \<open>
  The loop of \<open>with_activation_heights\<close>: the first argument is what is left of
  \<open>NetworkUpgrade::iter()\<close>, the last what is left of the iterator over the configured map.
\<close>

fun check_upgrade_order ::
    "network_upgrade list \<Rightarrow> network_upgrade list \<Rightarrow> (height \<times> network_upgrade) list \<Rightarrow>
     unit builder_result" where
  "check_upgrade_order [] present iter = Ok ()"
| "check_upgrade_order (expected # es) present iter =
     (if expected \<notin> set present then check_upgrade_order es present iter
      else case iter of
             [] \<Rightarrow> check_upgrade_order es present iter
           | (h, nu) # rest \<Rightarrow>
               if h = 0 then Err InvalidHeightZero
               else if nu \<noteq> expected then Err OutOfOrderUpgrades
               else check_upgrade_order es present rest)"

definition with_activation_heights ::
    "configured_activation_heights \<Rightarrow> parameters_builder \<Rightarrow> parameters_builder builder_result" where
  "with_activation_heights c b =
     (if pb_should_lock_funding_stream_address_period b then Err LockFundingStreams
      else
        and_then
          (try_map (\<lambda>(h, nu). and_then (ok_or InvalidActivationHeight (height_try_from_u32 h))
                               (\<lambda>height. Ok (height, nu))) (configured_pairs c))
          (\<lambda>pairs.
            let heights = bt_collect pairs
            in and_then (check_upgrade_order upgrades (map snd heights) heights) (\<lambda>_.
               Ok (b\<lparr>pb_activation_heights :=
                     bt_extend heights (bt_below 1 (pb_activation_heights b))\<rparr>))))"

definition with_slow_start_interval :: "height \<Rightarrow> parameters_builder \<Rightarrow> parameters_builder" where
  "with_slow_start_interval h b = b\<lparr>pb_slow_start_interval := h\<rparr>"

record configured_funding_streams =
  cf_height_range :: "(height \<times> height) option"
  cf_recipients :: "(funding_stream_receiver \<times> funding_stream_recipient) list option"

text \<open>Collecting the recipients into a \<open>HashMap\<close>: a later entry replaces an earlier one.\<close>

definition collect_recipients ::
    "(funding_stream_receiver \<times> funding_stream_recipient) list \<Rightarrow>
     (funding_stream_receiver \<times> funding_stream_recipient) list" where
  "collect_recipients rs =
     fold (\<lambda>(r, x) acc. (r, x) # filter (\<lambda>e. fst e \<noteq> r) acc) rs []"

text \<open>A sum of \<open>u64\<close> values, which wraps in the release profile.\<close>

definition sum_numerators :: "funding_streams \<Rightarrow> nat" where
  "sum_numerators fs = sum_list (map (\<lambda>e. numerator (snd e)) (recipients fs)) mod 2 ^ 64"

definition convert_with_default ::
    "funding_streams option \<Rightarrow> configured_funding_streams \<Rightarrow> funding_streams builder_result" where
  "convert_with_default defaults c =
     and_then (case cf_height_range c of
                 Some r \<Rightarrow> Ok r
               | None \<Rightarrow> and_then (expect defaults) (\<lambda>d. Ok (height_range d))) (\<lambda>hr.
     and_then (case cf_recipients c of
                 Some rs \<Rightarrow> Ok (collect_recipients rs)
               | None \<Rightarrow> and_then (expect defaults) (\<lambda>d. Ok (recipients d))) (\<lambda>rs.
     if \<not> fst hr \<le> snd hr then Panic
     else let fs = new_funding_streams hr rs
          in if \<not> sum_numerators fs \<le> FUNDING_STREAM_RECEIVER_DENOMINATOR then Panic
             else Ok fs))"

definition with_funding_streams ::
    "configured_funding_streams list \<Rightarrow> parameters_builder \<Rightarrow> parameters_builder builder_result" where
  "with_funding_streams cs b =
     and_then
       (try_map (\<lambda>(idx, c). convert_with_default (list_get TESTNET_FUNDING_STREAMS idx) c)
          (enumerate 0 cs))
       (\<lambda>fss. Ok (b\<lparr>pb_funding_streams := fss,
                      pb_should_lock_funding_stream_address_period := True\<rparr>))"

definition clear_funding_streams :: "parameters_builder \<Rightarrow> parameters_builder" where
  "clear_funding_streams b = b\<lparr>pb_funding_streams := []\<rparr>"

definition with_target_difficulty_limit ::
    "expanded \<Rightarrow> parameters_builder \<Rightarrow> parameters_builder builder_result" where
  "with_target_difficulty_limit x b =
     and_then (compacted_limit x) (\<lambda>r. and_then (ok_or InvaildDifficultyLimits r) (\<lambda>limit.
     Ok (b\<lparr>pb_target_difficulty_limit := limit\<rparr>)))"

definition with_disable_pow :: "bool \<Rightarrow> parameters_builder \<Rightarrow> parameters_builder" where
  "with_disable_pow d b = b\<lparr>pb_disable_pow := d\<rparr>"

definition with_unshielded_coinbase_spends :: "bool \<Rightarrow> parameters_builder \<Rightarrow> parameters_builder" where
  "with_unshielded_coinbase_spends s b = b\<lparr>pb_should_allow_unshielded_coinbase_spends := s\<rparr>"

definition with_halving_interval ::
    "int \<Rightarrow> parameters_builder \<Rightarrow> parameters_builder builder_result" where
  "with_halving_interval pre b =
     (if pb_should_lock_funding_stream_address_period b then Err HalvingIntervalAfterFundingStreams
      else Ok (b\<lparr>pb_pre_blossom_halving_interval := pre,
                 pb_post_blossom_halving_interval :=
                   wrap_i64 (pre * int BLOSSOM_POW_TARGET_SPACING_RATIO)\<rparr>))"

definition with_lockbox_disbursements ::
    "(address \<times> amount) list \<Rightarrow> parameters_builder \<Rightarrow> parameters_builder" where
  "with_lockbox_disbursements l b = b\<lparr>pb_lockbox_disbursements := l\<rparr>"

text \<open>
  What \<open>std::fs::read_to_string\<close> returns for a path, and the \<open>hex\<close> crate for a text of hexadecimal digits;
  \<open>None\<close> is an error.
\<close>

record checkpoint_source =
  read_to_string :: "string \<Rightarrow> string option"
  from_hex :: "string \<Rightarrow> bytes option"

datatype configured_checkpoints =
    DefaultCheckpoints bool | CheckpointsPath string | HeightsAndHashes "(height \<times> block_hash) list"

definition with_checkpoints ::
    "checkpoint_source \<Rightarrow> checkpoint_list \<Rightarrow> configured_checkpoints \<Rightarrow> parameters_builder \<Rightarrow>
     parameters_builder builder_result" where
  "with_checkpoints F tcl c b =
     and_then (case c of
        DefaultCheckpoints True \<Rightarrow> Ok tcl
      | DefaultCheckpoints False \<Rightarrow>
          map_err (\<lambda>_. FailedToParseDefaultCheckpoint) (from_list [(0, pb_genesis_hash b)])
      | CheckpointsPath path \<Rightarrow>
          (case read_to_string F path of
             None \<Rightarrow> Err (FailedToReadCheckpointFile path)
           | Some raw_checkpoints_str \<Rightarrow>
               map_err (FailedToParseCheckpointFile path) (checkpoints_from_str (from_hex F) raw_checkpoints_str))
      | HeightsAndHashes items \<Rightarrow> map_err (\<lambda>_. InvalidCustomCheckpoints) (from_list items))
     (\<lambda>cl. Ok (b\<lparr>pb_checkpoints := cl\<rparr>))"

definition clear_checkpoints ::
    "checkpoint_source \<Rightarrow> checkpoint_list \<Rightarrow> parameters_builder \<Rightarrow> parameters_builder builder_result" where
  "clear_checkpoints F tcl b = with_checkpoints F tcl (DefaultCheckpoints False) b"

definition with_temporary_orchard_disabling_soft_fork_height ::
    "height \<Rightarrow> parameters_builder \<Rightarrow> parameters_builder" where
  "with_temporary_orchard_disabling_soft_fork_height h b =
     b\<lparr>pb_temporary_orchard_disabling_soft_fork_height := Some h\<rparr>"

definition disable_temporary_orchard_disabling_soft_fork ::
    "parameters_builder \<Rightarrow> parameters_builder" where
  "disable_temporary_orchard_disabling_soft_fork b =
     b\<lparr>pb_temporary_orchard_disabling_soft_fork_height := None\<rparr>"

definition finish :: "parameters_builder \<Rightarrow> testnet_parameters" where
  "finish b =
     \<lparr>network_name = pb_network_name b,
      network_magic = pb_network_magic b,
      genesis_hash = pb_genesis_hash b,
      activation_heights = pb_activation_heights b,
      slow_start_interval = pb_slow_start_interval b,
      slow_start_shift = pb_slow_start_interval b div 2,
      funding_streams_of = pb_funding_streams b,
      target_difficulty_limit_of = pb_target_difficulty_limit b,
      disable_pow = pb_disable_pow b,
      should_allow_unshielded_coinbase_spends = pb_should_allow_unshielded_coinbase_spends b,
      pre_blossom_halving_interval = pb_pre_blossom_halving_interval b,
      post_blossom_halving_interval = pb_post_blossom_halving_interval b,
      lockbox_disbursements_of = pb_lockbox_disbursements b,
      checkpoints_of = pb_checkpoints b,
      temporary_orchard_disabling_soft_fork_height =
        pb_temporary_orchard_disabling_soft_fork_height b\<rparr>"

definition to_network_unchecked :: "parameters_builder \<Rightarrow> network" where
  "to_network_unchecked b = Testnet (finish b)"

subsection \<open>Queries on a network\<close>

definition parameters_default :: "checkpoint_list \<Rightarrow> (testnet_parameters, 'e) outcome" where
  "parameters_default tcl =
     and_then (builder_default tcl) (\<lambda>b. Ok ((finish b)\<lparr>network_name := ''Testnet''\<rparr>))"

definition is_default_testnet :: "checkpoint_list \<Rightarrow> testnet_parameters \<Rightarrow> (bool, 'e) outcome" where
  "is_default_testnet tcl p = and_then (parameters_default tcl) (\<lambda>d. Ok (p = d))"

record regtest_parameters =
  rp_activation_heights :: configured_activation_heights
  rp_funding_streams :: "configured_funding_streams list option"
  rp_lockbox_disbursements :: "(address \<times> amount) list option"
  rp_checkpoints :: "configured_checkpoints option"
  rp_extend_funding_stream_addresses_as_required :: "bool option"

definition unwrap_or :: "'a \<Rightarrow> 'a option \<Rightarrow> 'a" where
  "unwrap_or d z = (case z of None \<Rightarrow> d | Some x \<Rightarrow> x)"

text \<open>
  The builder of \<open>new_regtest\<close> before its funding streams are extended; \<open>0x0f\<close> repeated 32 times is the
  difficulty limit. Then the fields that \<open>new_regtest\<close> sets on the finished parameters.
\<close>

definition regtest_builder ::
    "checkpoint_source \<Rightarrow> checkpoint_list \<Rightarrow> regtest_parameters \<Rightarrow> parameters_builder builder_result" where
  "regtest_builder F tcl p =
     and_then (builder_default tcl) (\<lambda>b0.
     and_then (Ok (b0\<lparr>pb_genesis_hash := REGTEST_GENESIS_HASH\<rparr>)) (\<lambda>b1.
     and_then (with_target_difficulty_limit (be_value (replicate 32 0x0f)) b1) (\<lambda>b2.
     let b3 = with_slow_start_interval HEIGHT_MIN
                (with_unshielded_coinbase_spends True (with_disable_pow True b2));
         b4 = disable_temporary_orchard_disabling_soft_fork b3
     in and_then (with_activation_heights (for_regtest (rp_activation_heights p)) b4) (\<lambda>b5.
        and_then (with_halving_interval PRE_BLOSSOM_REGTEST_HALVING_INTERVAL b5) (\<lambda>b6.
        and_then (with_funding_streams (unwrap_or [] (rp_funding_streams p)) b6) (\<lambda>b7.
        let b8 = with_lockbox_disbursements (unwrap_or [] (rp_lockbox_disbursements p)) b7
        in with_checkpoints F tcl (unwrap_or (DefaultCheckpoints False) (rp_checkpoints p)) b8))))))"

definition finish_regtest :: "parameters_builder \<Rightarrow> testnet_parameters" where
  "finish_regtest b = (finish b)\<lparr>network_name := ''Regtest'', network_magic := MAGIC_REGTEST\<rparr>"

definition default_regtest_parameters :: regtest_parameters where
  "default_regtest_parameters =
     \<lparr>rp_activation_heights = no_activation_heights, rp_funding_streams = None,
      rp_lockbox_disbursements = None, rp_checkpoints = None,
      rp_extend_funding_stream_addresses_as_required = None\<rparr>"

text \<open>
  \<open>new_regtest\<close> of the default parameters, which \<open>is_regtest\<close> compares with. It reads no file and extends
  no funding stream; \<open>Regtest_Network\<close> shows that it is \<open>new_regtest\<close> of these parameters.
\<close>

definition no_files :: checkpoint_source where
  "no_files = \<lparr>read_to_string = \<lambda>_. None, from_hex = \<lambda>_. None\<rparr>"

definition default_regtest :: "checkpoint_list \<Rightarrow> testnet_parameters builder_result" where
  "default_regtest tcl =
     and_then (regtest_builder no_files tcl default_regtest_parameters) (\<lambda>b. Ok (finish_regtest b))"

definition is_regtest :: "checkpoint_list \<Rightarrow> testnet_parameters \<Rightarrow> (bool, 'e) outcome" where
  "is_regtest tcl p =
     (if network_magic p \<noteq> MAGIC_REGTEST then Ok False
      else and_then (expect_ok (default_regtest tcl)) (\<lambda>d.
        Ok (network_name p = network_name d \<and>
            genesis_hash p = genesis_hash d \<and>
            slow_start_interval p = slow_start_interval d \<and>
            slow_start_shift p = slow_start_shift d \<and>
            target_difficulty_limit_of p = target_difficulty_limit_of d \<and>
            disable_pow p = disable_pow d \<and>
            should_allow_unshielded_coinbase_spends p = should_allow_unshielded_coinbase_spends d \<and>
            pre_blossom_halving_interval p = pre_blossom_halving_interval d \<and>
            post_blossom_halving_interval p = post_blossom_halving_interval d)))"

definition network_is_regtest :: "checkpoint_list \<Rightarrow> network \<Rightarrow> (bool, 'e) outcome" where
  "network_is_regtest tcl net = (case net of Testnet p \<Rightarrow> is_regtest tcl p | Mainnet \<Rightarrow> Ok False)"

definition kind :: "checkpoint_list \<Rightarrow> network \<Rightarrow> (network_kind, 'e) outcome" where
  "kind tcl net =
     (case net of
        Mainnet \<Rightarrow> Ok MainnetKind
      | Testnet p \<Rightarrow> and_then (is_regtest tcl p) (\<lambda>r. Ok (if r then RegtestKind else TestnetKind)))"

fun t_addr_kind :: "network \<Rightarrow> network_kind" where
  "t_addr_kind Mainnet = MainnetKind"
| "t_addr_kind (Testnet p) = TestnetKind"

fun magic :: "network \<Rightarrow> bytes" where
  "magic Mainnet = MAGIC_MAINNET"
| "magic (Testnet p) = network_magic p"

fun activation_list :: "network \<Rightarrow> schedule" where
  "activation_list Mainnet = bt_collect MAINNET_ACTIVATION_HEIGHTS"
| "activation_list (Testnet p) = activation_heights p"

abbreviation activation_height :: "network_upgrade \<Rightarrow> network \<Rightarrow> height option" where
  "activation_height nu net \<equiv> upgrade_activation_height (activation_list net) nu"

abbreviation current :: "network \<Rightarrow> height \<Rightarrow> (network_upgrade, 'e) outcome" where
  "current net h \<equiv> current_upgrade (activation_list net) h"

fun network_slow_start_interval :: "network \<Rightarrow> height" where
  "network_slow_start_interval (Testnet p) = slow_start_interval p"
| "network_slow_start_interval Mainnet = SLOW_START_INTERVAL"

fun network_slow_start_shift :: "network \<Rightarrow> height" where
  "network_slow_start_shift (Testnet p) = slow_start_shift p"
| "network_slow_start_shift Mainnet = SLOW_START_SHIFT"

fun network_disable_pow :: "network \<Rightarrow> bool" where
  "network_disable_pow (Testnet p) = disable_pow p"
| "network_disable_pow Mainnet = False"

fun network_allows_unshielded_coinbase_spends :: "network \<Rightarrow> bool" where
  "network_allows_unshielded_coinbase_spends (Testnet p) = should_allow_unshielded_coinbase_spends p"
| "network_allows_unshielded_coinbase_spends Mainnet = False"

fun all_funding_streams :: "network \<Rightarrow> funding_streams list" where
  "all_funding_streams (Testnet p) = funding_streams_of p"
| "all_funding_streams Mainnet = MAINNET_FUNDING_STREAMS"

definition in_range :: "height \<times> height \<Rightarrow> height \<Rightarrow> bool" where
  "in_range r h = (fst r \<le> h \<and> h < snd r)"

definition network_funding_streams :: "network \<Rightarrow> height \<Rightarrow> funding_streams option" where
  "network_funding_streams net h = find (\<lambda>fs. in_range (height_range fs) h) (all_funding_streams net)"

fun founder_address_list :: "network \<Rightarrow> address list" where
  "founder_address_list Mainnet = MAINNET_FOUNDER_ADDRESS_LIST"
| "founder_address_list (Testnet p) = TESTNET_FOUNDER_ADDRESS_LIST"

fun network_pre_blossom_halving_interval :: "network \<Rightarrow> int" where
  "network_pre_blossom_halving_interval Mainnet = PRE_BLOSSOM_HALVING_INTERVAL"
| "network_pre_blossom_halving_interval (Testnet p) = pre_blossom_halving_interval p"

fun network_post_blossom_halving_interval :: "network \<Rightarrow> int" where
  "network_post_blossom_halving_interval Mainnet = POST_BLOSSOM_HALVING_INTERVAL"
| "network_post_blossom_halving_interval (Testnet p) = post_blossom_halving_interval p"

fun target_difficulty_limit :: "network \<Rightarrow> (expanded, 'e) outcome" where
  "target_difficulty_limit Mainnet =
     and_then (to_compact (2 ^ 243 - 1)) (\<lambda>c. and_then (to_expanded c) expect)"
| "target_difficulty_limit (Testnet p) = Ok (target_difficulty_limit_of p)"

fun network_genesis_hash :: "network \<Rightarrow> block_hash" where
  "network_genesis_hash Mainnet = MAINNET_GENESIS_HASH"
| "network_genesis_hash (Testnet p) = genesis_hash p"

definition is_max_block_time_enforced :: "network \<Rightarrow> height \<Rightarrow> bool" where
  "is_max_block_time_enforced net h =
     (case net of Mainnet \<Rightarrow> True | Testnet p \<Rightarrow> h \<ge> TESTNET_MAX_TIME_START_HEIGHT)"

definition mandatory_checkpoint_height :: "network \<Rightarrow> (height, 'e) outcome" where
  "mandatory_checkpoint_height net =
     and_then (expect (activation_height Canopy net)) (\<lambda>h. expect_ok (height_previous h))"

definition sapling_activation_height :: "network \<Rightarrow> (height, 'e) outcome" where
  "sapling_activation_height net = expect (activation_height Sapling net)"

definition params_lockbox_disbursement_total_amount :: "testnet_parameters \<Rightarrow> amount amount_result" where
  "params_lockbox_disbursement_total_amount p =
     (case map snd (lockbox_disbursements_of p) of
        [] \<Rightarrow> amount_zero (valid_range NonNegative)
      | a # as \<Rightarrow>
          foldl (\<lambda>acc b. and_then acc (\<lambda>x. expect_ok (amount_add (valid_range NonNegative) x b))) (Ok a) as)"

definition lockbox_disbursement_total_amount ::
    "checkpoint_list \<Rightarrow> network \<Rightarrow> height \<Rightarrow> amount amount_result" where
  "lockbox_disbursement_total_amount tcl net h =
     (if Some h \<noteq> activation_height Nu6_1 net then amount_zero (valid_range NonNegative)
      else case net of
             Mainnet \<Rightarrow> Ok MAINNET_EXPECTED_NU6_1_LOCKBOX_DISBURSEMENTS_TOTAL
           | Testnet p \<Rightarrow>
               and_then (is_default_testnet tcl p) (\<lambda>d.
                 if d then Ok TESTNET_EXPECTED_NU6_1_LOCKBOX_DISBURSEMENTS_TOTAL
                 else params_lockbox_disbursement_total_amount p))"

definition lockbox_disbursements ::
    "checkpoint_list \<Rightarrow> network \<Rightarrow> height \<Rightarrow> ((address \<times> amount) list, 'e) outcome" where
  "lockbox_disbursements tcl net h =
     (if Some h \<noteq> activation_height Nu6_1 net then Ok []
      else case net of
             Mainnet \<Rightarrow> Ok MAINNET_NU6_1_LOCKBOX_DISBURSEMENTS
           | Testnet p \<Rightarrow>
               and_then (is_default_testnet tcl p) (\<lambda>d.
                 Ok (if d then TESTNET_NU6_1_LOCKBOX_DISBURSEMENTS else lockbox_disbursements_of p)))"

fun soft_fork_height :: "network \<Rightarrow> height option" where
  "soft_fork_height Mainnet = Some MAINNET_TEMPORARY_ORCHARD_DISABLING_SOFT_FORK_HEIGHT"
| "soft_fork_height (Testnet p) = temporary_orchard_disabling_soft_fork_height p"

definition is_some_and :: "('a \<Rightarrow> bool) \<Rightarrow> 'a option \<Rightarrow> bool" where
  "is_some_and P z = (case z of None \<Rightarrow> False | Some x \<Rightarrow> P x)"

definition is_none_or :: "('a \<Rightarrow> bool) \<Rightarrow> 'a option \<Rightarrow> bool" where
  "is_none_or P z = (case z of None \<Rightarrow> True | Some x \<Rightarrow> P x)"

definition soft_fork_active :: "network \<Rightarrow> height \<Rightarrow> bool" where
  "soft_fork_active net h = is_some_and (\<lambda>f. h \<ge> f) (soft_fork_height net)"

definition is_orchard_temporarily_disabled :: "network \<Rightarrow> height \<Rightarrow> bool" where
  "is_orchard_temporarily_disabled net h =
     (soft_fork_active net h \<and> is_none_or (\<lambda>nu6_2. h < nu6_2) (activation_height Nu6_2 net))"

definition is_soft_fork_activation_height :: "network \<Rightarrow> height \<Rightarrow> bool" where
  "is_soft_fork_activation_height net h = (soft_fork_height net = Some h)"

definition orchard_canonical_proof_size_rule_active :: "network \<Rightarrow> height \<Rightarrow> bool" where
  "orchard_canonical_proof_size_rule_active net h =
     (is_some_and (\<lambda>a. h \<ge> a) (activation_height Nu6_2 net) \<or>
      is_some_and (\<lambda>a. h \<ge> a) (activation_height Nu6_3 net))"

definition minimum_difficulty_spacing_for_height ::
    "network \<Rightarrow> height \<Rightarrow> (int option, 'e) outcome" where
  "minimum_difficulty_spacing_for_height net h =
     (case net of
        Testnet p \<Rightarrow>
          if h < TESTNET_MINIMUM_DIFFICULTY_START_HEIGHT then Ok None
          else and_then (current net h)
                 (\<lambda>nu. Ok (Some (target_spacing nu * TESTNET_MINIMUM_DIFFICULTY_GAP_MULTIPLIER)))
      | Mainnet \<Rightarrow> Ok None)"

definition is_testnet_min_difficulty_block ::
    "network \<Rightarrow> height \<Rightarrow> int \<Rightarrow> int \<Rightarrow> (bool, 'e) outcome" where
  "is_testnet_min_difficulty_block net h block_time previous_block_time =
     (let block_time_gap = block_time - previous_block_time
      in and_then (minimum_difficulty_spacing_for_height net h) (\<lambda>g.
         Ok (case g of Some min_difficulty_gap \<Rightarrow> block_time_gap > min_difficulty_gap | None \<Rightarrow> False)))"

subsection \<open>Configured schedules are valid\<close>

lemma set_upgrades: "set upgrades = UNIV"
proof -
  have "nu \<in> set upgrades" for nu by (cases nu) (simp_all add: upgrades_def)
  then show ?thesis by auto
qed

lemma sorted_upgrades: "sorted_wrt (<) upgrades"
  by (simp add: upgrades_def upgrade_ord)

lemma check_upgrade_order_Ok:
  assumes "check_upgrade_order es present iter = Ok ()"
  shows "length iter \<le> length (filter (\<lambda>u. u \<in> set present) es) \<Longrightarrow>
    map snd iter = take (length iter) (filter (\<lambda>u. u \<in> set present) es) \<and> (\<forall>e\<in>set iter. fst e \<noteq> 0)"
  using assms
proof (induction es present iter rule: check_upgrade_order.induct)
  case (2 expected es present iter)
  show ?case
  proof (cases iter)
    case (Cons e rest)
    then show ?thesis using 2 by (cases e) (auto split: if_splits)
  qed simp
qed simp

lemma map_snd_slots:
  "map snd (List.map_filter (\<lambda>(h, nu). map_option (\<lambda>h. (h, nu)) h) xs) =
     map snd (filter (\<lambda>e. fst e \<noteq> None) xs)"
  by (induction xs) (auto simp: List.map_filter_def)

lemma sorted_map_filter: "sorted_wrt P (map f xs) \<Longrightarrow> sorted_wrt P (map f (filter Q xs))"
  by (induction xs) auto

lemma slots_upgrades: "map snd (configured_slots c) = tl upgrades"
  by (simp add: configured_slots_def upgrades_def)

lemma configured_pairs_sorted: "sorted_wrt (<) (map snd (configured_pairs c))"
proof -
  have "sorted_wrt (<) (map snd (configured_slots c))"
    using sorted_upgrades by (simp add: slots_upgrades upgrades_def)
  then show ?thesis unfolding configured_pairs_def map_snd_slots by (rule sorted_map_filter)
qed

lemma configured_pairs_Genesis: "(h, Genesis) \<notin> set (configured_pairs c)"
proof
  assume "(h, Genesis) \<in> set (configured_pairs c)"
  then have "Genesis \<in> set (map snd (configured_slots c))"
    by (force simp: configured_pairs_def List.map_filter_def)
  then show False by (simp add: slots_upgrades upgrades_def)
qed

lemma bt_below_1: "valid_schedule l \<Longrightarrow> bt_below 1 l = [(0, Genesis)]"
proof -
  assume v: "valid_schedule l"
  then have inv: "bt_inv (bt_below 1 l)" and g: "(0, Genesis) \<in> set (bt_below 1 l)"
    by (auto simp: valid_schedule_def bt_below_def bt_inv_filter map_of_SomeD)
  have "distinct (bt_keys (bt_below 1 l))" "\<forall>e\<in>set (bt_below 1 l). fst e = 0"
    using bt_inv_distinct[OF inv] by (auto simp: bt_below_def)
  then show ?thesis using g
    by (cases "bt_below 1 l"; cases "tl (bt_below 1 l)") auto
qed
lemma check_upgrade_order_sorted:
  assumes "check_upgrade_order upgrades (map snd m) m = Ok ()" "distinct (map snd m)"
  shows "sorted_wrt (<) (map snd m)" and "\<forall>e\<in>set m. fst e \<noteq> 0"
proof -
  let ?L = "filter (\<lambda>u. u \<in> set (map snd m)) upgrades"
  have "set ?L = set (map snd m)" using set_upgrades by auto
  moreover have "distinct ?L" using sorted_upgrades by (simp add: strict_sorted_iff)
  ultimately have "length ?L = length m" using assms(2) by (metis distinct_card length_map)
  then have "map snd m = ?L" "\<forall>e\<in>set m. fst e \<noteq> 0"
    using check_upgrade_order_Ok[OF assms(1)] by (simp_all del: set_map)
  moreover have "sorted_wrt (<) ?L"
    using sorted_upgrades sorted_map_filter[of "(<)" id upgrades] by simp
  ultimately show "sorted_wrt (<) (map snd m)" "\<forall>e\<in>set m. fst e \<noteq> 0" by metis+
qed

lemma try_heights_Ok:
  "try_map (\<lambda>(h, nu). and_then (ok_or InvalidActivationHeight (height_try_from_u32 h))
     (\<lambda>height. Ok (height, nu))) xs = Ok ys \<longleftrightarrow> ys = xs \<and> (\<forall>e\<in>set xs. fst e \<le> HEIGHT_MAX)"
  by (induction xs arbitrary: ys) (auto simp: rust_simps height_try_from_u32_def split: if_splits)

lemma with_activation_heights_Ok:
  assumes "with_activation_heights c b = Ok b'" "valid_schedule (pb_activation_heights b)"
  defines "m \<equiv> bt_collect (configured_pairs c)"
  shows "pb_activation_heights b' = (0, Genesis) # m" "sorted_wrt (<) (map snd m)"
    "\<And>e. e \<in> set m \<Longrightarrow> 0 < fst e \<and> fst e \<le> HEIGHT_MAX \<and> Genesis < snd e"
proof -
  have ok: "check_upgrade_order upgrades (map snd m) m = Ok ()"
      "pb_activation_heights b' = bt_extend m (bt_below 1 (pb_activation_heights b))"
      "\<forall>e\<in>set (configured_pairs c). fst e \<le> HEIGHT_MAX"
    using assms(1)
    by (auto simp: with_activation_heights_def Let_def and_then_Ok_iff try_heights_Ok m_def
        split: if_splits)
  have sub: "set m \<subseteq> set (configured_pairs c)" unfolding m_def by (rule bt_collect_subset)
  have "distinct (map snd (configured_pairs c))"
    using configured_pairs_sorted by (simp add: strict_sorted_iff)
  then have "inj_on snd (set m)" using sub by (auto simp: distinct_map intro: inj_on_subset)
  moreover have "distinct m"
    using bt_inv_distinct[OF bt_inv_collect[of "configured_pairs c"]] by (simp add: distinct_map m_def)
  ultimately have d: "distinct (map snd m)" by (simp add: distinct_map)
  note order = check_upgrade_order_sorted[OF ok(1) d]
  show "sorted_wrt (<) (map snd m)" by (rule order(1))
  show "0 < fst e \<and> fst e \<le> HEIGHT_MAX \<and> Genesis < snd e" if "e \<in> set m" for e
  proof -
    have "snd e \<noteq> Genesis"
      using that sub configured_pairs_Genesis[of "fst e" c] by (metis prod.collapse subsetD)
    then have "Genesis < snd e" by (cases "snd e") (simp_all add: upgrade_ord)
    then show ?thesis using that sub order(2) ok(3) by auto
  qed
  have "bt_inv ((0, Genesis) # m)" using order(2) by (auto simp: bt_inv_Cons bt_inv_collect m_def)
  then show "pb_activation_heights b' = (0, Genesis) # m"
    using bt_extend_sorted[of "[(0, Genesis)]" m] ok(2) bt_below_1[OF assms(2)] by simp
qed

lemma with_activation_heights_valid:
  assumes "with_activation_heights c b = Ok b'" "valid_schedule (pb_activation_heights b)"
  shows "valid_schedule (pb_activation_heights b')"
  using with_activation_heights_Ok[OF assms] bt_inv_collect[of "configured_pairs c"]
  by (auto simp: valid_schedule_def bt_inv_Cons)

text \<open>
  C7. Every activation schedule the Testnet builder accepts answers both schedule queries
  consistently: for any configured heights that pass the check, each height has a current upgrade,
  the current upgrade is at least \<open>nu\<close> exactly from the activation height of \<open>nu\<close> on, and upgrades
  never go back as the height grows.
\<close>

theorem configured_schedule_consistent:
  assumes "valid_schedule (pb_activation_heights b)"
    and "with_activation_heights c b = Ok b'"
    and "l = activation_list (to_network_unchecked b')"
  shows "\<exists>cur. current_upgrade l h = Ok cur \<and>
      (\<forall>nu. nu \<le> cur \<longleftrightarrow> (\<exists>a. upgrade_activation_height l nu = Some a \<and> a \<le> h)) \<and>
      (\<forall>h' cur'. h \<le> h' \<longrightarrow> current_upgrade l h' = Ok cur' \<longrightarrow> cur \<le> cur')"
proof -
  have "activation_schedule l"
    using with_activation_heights_valid[OF assms(2,1)] assms(3)
    by (simp add: activation_schedule_def to_network_unchecked_def finish_def)
  note sched = activation_schedule.current_upgrade_eq[OF this]
    activation_schedule.activated_iff[OF this] activation_schedule.current_mono[OF this]
  show ?thesis by (intro exI[of _ "current_of l h"]) (auto simp: sched(1) sched(2)[symmetric] sched(3))
qed

text \<open>A builder as \<open>ParametersBuilder::default\<close> returns it, for any built-in checkpoint list.\<close>

definition default_builder :: "checkpoint_list \<Rightarrow> parameters_builder" where
  "default_builder tcl =
     \<lparr>pb_network_name = ''UnknownTestnet'',
      pb_network_magic = MAGIC_TESTNET,
      pb_genesis_hash = TESTNET_GENESIS_HASH,
      pb_activation_heights = TESTNET_ACTIVATION_HEIGHTS,
      pb_slow_start_interval = SLOW_START_INTERVAL,
      pb_funding_streams = TESTNET_FUNDING_STREAMS,
      pb_should_lock_funding_stream_address_period = False,
      pb_target_difficulty_limit = compact_floor (2 ^ 251 - 1),
      pb_disable_pow = False,
      pb_should_allow_unshielded_coinbase_spends = False,
      pb_pre_blossom_halving_interval = PRE_BLOSSOM_HALVING_INTERVAL,
      pb_post_blossom_halving_interval = POST_BLOSSOM_HALVING_INTERVAL,
      pb_lockbox_disbursements = TESTNET_NU6_1_LOCKBOX_DISBURSEMENTS,
      pb_checkpoints = tcl,
      pb_temporary_orchard_disabling_soft_fork_height =
        Some TESTNET_TEMPORARY_ORCHARD_DISABLING_SOFT_FORK_HEIGHT\<rparr>"

lemma compacted_limit_eq:
  "0 < x \<Longrightarrow> x \<le> u256_max \<Longrightarrow> compacted_limit x = Ok (Some (compact_floor x))"
  by (simp add: compacted_limit_def to_expanded_to_compact)

lemma testnet_collect: "bt_collect TESTNET_ACTIVATION_HEIGHTS = TESTNET_ACTIVATION_HEIGHTS"
  using testnet_schedule_valid by (simp add: bt_collect_sorted valid_schedule_def)

lemma mainnet_collect: "bt_collect MAINNET_ACTIVATION_HEIGHTS = MAINNET_ACTIVATION_HEIGHTS"
  using mainnet_schedule_valid by (simp add: bt_collect_sorted valid_schedule_def)

lemma testnet_limit: "compacted_limit (2 ^ 251 - 1) = Ok (Some (compact_floor (2 ^ 251 - 1)))"
  by (rule compacted_limit_eq) (simp_all add: u256_max_def)

lemma builder_default_eq: "builder_default tcl = Ok (default_builder tcl)"
  unfolding builder_default_def default_builder_def testnet_limit testnet_collect by simp

text \<open>
  C18. The schedule check accepts some heights that are out of order: here Overwinter is configured
  after Sapling, and shares its height with Blossom, which replaces it in the map before the order
  is checked. Overwinter then activates at height 5 instead of the configured height 10.
\<close>

theorem shadowed_upgrade_accepted_out_of_order:
  "\<exists>b. with_activation_heights
         (no_activation_heights\<lparr>c_overwinter := Some 10, c_sapling := Some 5, c_blossom := Some 10\<rparr>)
         (default_builder tcl) = Ok b \<and>
       activation_height Overwinter (to_network_unchecked b) = Some 5"
proof -
  let ?c = "no_activation_heights\<lparr>c_overwinter := Some 10, c_sapling := Some 5, c_blossom := Some 10\<rparr>"
  have p: "configured_pairs ?c = [(10, Overwinter), (5, Sapling), (10, Blossom)]"
    by (simp add: configured_pairs_def configured_slots_def no_activation_heights_def
        List.map_filter_def)
  have m: "bt_collect [(10, Overwinter), (5, Sapling), (10, Blossom)] = [(5::nat, Sapling), (10, Blossom)]"
    by (simp add: bt_collect_def bt_extend_def)
  have ok: "check_upgrade_order upgrades [Sapling, Blossom] [(5, Sapling), (10, Blossom)] = Ok ()"
    by (simp add: upgrades_def)
  have g: "bt_below 1 TESTNET_ACTIVATION_HEIGHTS = [(0, Genesis)]"
    using bt_below_1[OF testnet_schedule_valid] .
  have "with_activation_heights ?c (default_builder tcl) =
      Ok ((default_builder tcl)\<lparr>pb_activation_heights := [(0, Genesis), (5, Sapling), (10, Blossom)]\<rparr>)"
    using g ok
    by (simp add: with_activation_heights_def default_builder_def p m HEIGHT_MAX_def
        height_try_from_u32_def Let_def bt_extend_def)
  moreover have "upgrade_activation_height [(0, Genesis), (5, Sapling), (10, Blossom)] Overwinter = Some 5"
    by (subst upgrade_activation_height_first) (simp_all add: upgrade_ord)
  ultimately show ?thesis by (simp add: to_network_unchecked_def finish_def)
qed

theorem configured_schedule_consistent_witness:
  "let c = no_activation_heights\<lparr>c_overwinter := Some 1, c_canopy := Some 7\<rparr>;
       b = default_builder [];
       b' = b\<lparr>pb_activation_heights := [(0, Genesis), (1, Overwinter), (7, Canopy)]\<rparr>;
       l = activation_list (to_network_unchecked b') in
   with_activation_heights c b = Ok b' \<and>
   (\<exists>cur. current_upgrade l 6 = Ok cur \<and>
      (\<forall>nu. nu \<le> cur \<longleftrightarrow> (\<exists>a. upgrade_activation_height l nu = Some a \<and> a \<le> 6)) \<and>
      (\<forall>h' cur'. 6 \<le> h' \<longrightarrow> current_upgrade l h' = Ok cur' \<longrightarrow> cur \<le> cur'))"
proof -
  let ?c = "no_activation_heights\<lparr>c_overwinter := Some 1, c_canopy := Some 7\<rparr>"
  let ?b' = "(default_builder [])\<lparr>pb_activation_heights := [(0, Genesis), (1, Overwinter), (7, Canopy)]\<rparr>"
  have v: "valid_schedule (pb_activation_heights (default_builder []))"
    by (simp add: default_builder_def testnet_schedule_valid)
  have g: "bt_below 1 TESTNET_ACTIVATION_HEIGHTS = [(0, Genesis)]"
    using bt_below_1[OF testnet_schedule_valid] .
  have ok: "with_activation_heights ?c (default_builder []) = Ok ?b'"
    using g
    by (simp add: with_activation_heights_def default_builder_def configured_pairs_def
        configured_slots_def no_activation_heights_def List.map_filter_def HEIGHT_MAX_def
        height_try_from_u32_def Let_def bt_extend_def bt_collect_def upgrades_def)
  show ?thesis unfolding Let_def using ok configured_schedule_consistent[OF v ok refl, of 6] by blast
qed

subsection \<open>Regtest\<close>

lemma from_genesis_list: "g \<noteq> null_hash \<Longrightarrow> from_list [(0, g)] = Ok [(0, g)]"
  by (auto simp: from_list_Ok_iff bt_collect_def bt_extend_def valid_checkpoints_def bt_inv_def)

lemma regtest_genesis_not_null: "REGTEST_GENESIS_HASH \<noteq> null_hash"
  using replicate_Suc[of 31 "0 :: u8"] by (simp add: REGTEST_GENESIS_HASH_def null_hash_def)

interpretation regtest: checkpoints "[(0, REGTEST_GENESIS_HASH)]"
  by (rule from_list_checkpoints[OF from_genesis_list[OF regtest_genesis_not_null]])

lemma regtest_limit:
  "compacted_limit (be_value (replicate 32 0x0f)) = Ok (Some (compact_floor (be_value (replicate 32 0x0f))))"
proof (rule compacted_limit_eq)
  have "be_value (replicate 32 0x0f) < 2 ^ 256"
    using le_value_bound[of "rev (replicate 32 0x0f)"] by (simp add: be_value_def)
  then show "be_value (replicate 32 0x0f) \<le> u256_max" by (simp add: u256_max_def)
  have "rev (replicate 32 (0x0f :: u8)) = 0x0f # replicate 31 0x0f" using replicate_Suc[of 31] by simp
  then show "0 < be_value (replicate 32 0x0f)" unfolding be_value_def by (simp only: le_value.simps) simp
qed

text \<open>The fields that identify Regtest do not depend on what is configured.\<close>

definition regtest_identity :: "testnet_parameters \<Rightarrow> bool" where
  "regtest_identity q =
     (network_name q = ''Regtest'' \<and> network_magic q = MAGIC_REGTEST \<and>
      genesis_hash q = REGTEST_GENESIS_HASH \<and> slow_start_interval q = 0 \<and> slow_start_shift q = 0 \<and>
      target_difficulty_limit_of q = compact_floor (be_value (replicate 32 0x0f)) \<and>
      disable_pow q \<and> should_allow_unshielded_coinbase_spends q \<and>
      pre_blossom_halving_interval q = 144 \<and> post_blossom_halving_interval q = 288)"

lemma with_activation_heights_keeps:
  "with_activation_heights c b = Ok b' \<Longrightarrow> \<exists>l. b' = b\<lparr>pb_activation_heights := l\<rparr>"
  by (auto simp: with_activation_heights_def Let_def and_then_Ok_iff split: if_splits)

lemma with_funding_streams_keeps:
  "with_funding_streams cs b = Ok b' \<Longrightarrow>
     \<exists>f. b' = b\<lparr>pb_funding_streams := f, pb_should_lock_funding_stream_address_period := True\<rparr>"
  by (auto simp: with_funding_streams_def and_then_Ok_iff)

lemma with_checkpoints_keeps:
  "with_checkpoints F tcl c b = Ok b' \<Longrightarrow> \<exists>cl. b' = b\<lparr>pb_checkpoints := cl\<rparr>"
  by (auto simp: with_checkpoints_def and_then_Ok_iff)

text \<open>The builder that \<open>new_regtest\<close> passes to \<open>with_activation_heights\<close>.\<close>

definition regtest_base :: "checkpoint_list \<Rightarrow> parameters_builder" where
  "regtest_base tcl =
     disable_temporary_orchard_disabling_soft_fork
       (with_slow_start_interval HEIGHT_MIN
         (with_unshielded_coinbase_spends True
           (with_disable_pow True
             ((default_builder tcl)\<lparr>pb_genesis_hash := REGTEST_GENESIS_HASH\<rparr>
               \<lparr>pb_target_difficulty_limit := compact_floor (be_value (replicate 32 0x0f))\<rparr>))))"

lemma regtest_builder_eq:
  "regtest_builder F tcl p =
     and_then (with_activation_heights (for_regtest (rp_activation_heights p)) (regtest_base tcl)) (\<lambda>b5.
     and_then (with_halving_interval PRE_BLOSSOM_REGTEST_HALVING_INTERVAL b5) (\<lambda>b6.
     and_then (with_funding_streams (unwrap_or [] (rp_funding_streams p)) b6) (\<lambda>b7.
     with_checkpoints F tcl (unwrap_or (DefaultCheckpoints False) (rp_checkpoints p))
       (with_lockbox_disbursements (unwrap_or [] (rp_lockbox_disbursements p)) b7))))"
  unfolding regtest_builder_def builder_default_eq and_then.simps with_target_difficulty_limit_def
    regtest_limit ok_or.simps Let_def regtest_base_def by (rule refl)

definition pb_regtest :: "parameters_builder \<Rightarrow> bool" where
  "pb_regtest b =
     (pb_genesis_hash b = REGTEST_GENESIS_HASH \<and> pb_slow_start_interval b = 0 \<and>
      pb_target_difficulty_limit b = compact_floor (be_value (replicate 32 0x0f)) \<and>
      pb_disable_pow b \<and> pb_should_allow_unshielded_coinbase_spends b)"

lemma regtest_base_ok:
  "pb_regtest (regtest_base tcl)" "valid_schedule (pb_activation_heights (regtest_base tcl))"
  "\<not> pb_should_lock_funding_stream_address_period (regtest_base tcl)"
  by (simp_all add: regtest_base_def pb_regtest_def disable_temporary_orchard_disabling_soft_fork_def
      with_slow_start_interval_def with_unshielded_coinbase_spends_def with_disable_pow_def
      HEIGHT_MIN_def default_builder_def testnet_schedule_valid)

lemma regtest_halving:
  "\<not> pb_should_lock_funding_stream_address_period b \<Longrightarrow>
   with_halving_interval PRE_BLOSSOM_REGTEST_HALVING_INTERVAL b =
     Ok (b\<lparr>pb_pre_blossom_halving_interval := 144, pb_post_blossom_halving_interval := 288\<rparr>)"
  using wrap_i64_exact[of 288]
  by (simp add: with_halving_interval_def PRE_BLOSSOM_REGTEST_HALVING_INTERVAL_def
      BLOSSOM_POW_TARGET_SPACING_RATIO_def int_bounds)

text \<open>What the builder has in the end, and the parameters that are finished from such a builder.\<close>

definition built_regtest :: "parameters_builder \<Rightarrow> bool" where
  "built_regtest b =
     (pb_regtest b \<and> pb_pre_blossom_halving_interval b = 144 \<and> pb_post_blossom_halving_interval b = 288 \<and>
      valid_schedule (pb_activation_heights b))"

lemma finish_regtest_identity:
  "built_regtest b \<Longrightarrow> regtest_identity (finish_regtest b) \<and> valid_schedule (activation_heights (finish_regtest b))"
  by (simp add: built_regtest_def finish_regtest_def regtest_identity_def finish_def pb_regtest_def)

lemma regtest_builder_built:
  assumes "regtest_builder F tcl p = Ok b9"
  shows "built_regtest b9"
proof -
  obtain b5 b6 b7 where
    5: "with_activation_heights (for_regtest (rp_activation_heights p)) (regtest_base tcl) = Ok b5"
    and 6: "with_halving_interval PRE_BLOSSOM_REGTEST_HALVING_INTERVAL b5 = Ok b6"
    and 7: "with_funding_streams (unwrap_or [] (rp_funding_streams p)) b6 = Ok b7"
    and 9: "with_checkpoints F tcl (unwrap_or (DefaultCheckpoints False) (rp_checkpoints p))
       (with_lockbox_disbursements (unwrap_or [] (rp_lockbox_disbursements p)) b7) = Ok b9"
    using assms unfolding regtest_builder_eq and_then_Ok_iff by blast
  obtain l where b5: "b5 = (regtest_base tcl)\<lparr>pb_activation_heights := l\<rparr>"
    using with_activation_heights_keeps[OF 5] by blast
  have v: "valid_schedule (pb_activation_heights b5)"
    by (rule with_activation_heights_valid[OF 5 regtest_base_ok(2)])
  have "pb_regtest b5" using regtest_base_ok(1)[of tcl] by (simp add: b5 pb_regtest_def)
  moreover have "\<not> pb_should_lock_funding_stream_address_period b5"
    using regtest_base_ok(3)[of tcl] by (simp add: b5)
  ultimately have b6: "pb_regtest b6" "pb_activation_heights b6 = pb_activation_heights b5"
      "pb_pre_blossom_halving_interval b6 = 144" "pb_post_blossom_halving_interval b6 = 288"
    using 6 regtest_halving[of b5] by (auto simp: pb_regtest_def)
  then have "pb_regtest b9" "pb_activation_heights b9 = pb_activation_heights b5"
      "pb_pre_blossom_halving_interval b9 = 144" "pb_post_blossom_halving_interval b9 = 288"
    using with_funding_streams_keeps[OF 7] with_checkpoints_keeps[OF 9]
    by (auto simp: pb_regtest_def with_lockbox_disbursements_def)
  then show ?thesis using v by (simp add: built_regtest_def)
qed

lemma regtest_default_heights:
  assumes "valid_schedule (pb_activation_heights b)" "\<not> pb_should_lock_funding_stream_address_period b"
  shows "with_activation_heights (for_regtest no_activation_heights) b =
    Ok (b\<lparr>pb_activation_heights := [(0, Genesis), (1, Canopy)]\<rparr>)"
proof -
  have c: "configured_pairs (for_regtest no_activation_heights) =
      [(1, Overwinter), (1, Sapling), (1, Blossom), (1, Heartwood), (1, Canopy)]"
    by (simp add: configured_pairs_def configured_slots_def no_activation_heights_def for_regtest_def
        option_or_def Let_def List.map_filter_def)
  show ?thesis using bt_below_1[OF assms(1)] assms(2)
    by (simp add: with_activation_heights_def c height_try_from_u32_def HEIGHT_MAX_def bt_collect_def
        bt_extend_def upgrades_def Let_def)
qed

text \<open>
  The builder without configured heights, streams and disbursements. The default parameters read no
  file, so they build the same network from every source of files.
\<close>

lemma regtest_builder_checkpoints:
  obtains b where "pb_genesis_hash b = REGTEST_GENESIS_HASH" "pb_funding_streams b = []"
    "\<forall>F c e. regtest_builder F tcl (default_regtest_parameters\<lparr>rp_checkpoints := c,
       rp_extend_funding_stream_addresses_as_required := e\<rparr>) =
     with_checkpoints F tcl (unwrap_or (DefaultCheckpoints False) c) b"
proof -
  let ?b5 = "(regtest_base tcl)\<lparr>pb_activation_heights := [(0, Genesis), (1, Canopy)]\<rparr>"
  have 5: "with_activation_heights (for_regtest no_activation_heights) (regtest_base tcl) = Ok ?b5"
    by (rule regtest_default_heights[OF regtest_base_ok(2,3)])
  have 6: "with_halving_interval PRE_BLOSSOM_REGTEST_HALVING_INTERVAL ?b5 =
      Ok (?b5\<lparr>pb_pre_blossom_halving_interval := 144, pb_post_blossom_halving_interval := 288\<rparr>)"
    by (rule regtest_halving) (simp add: regtest_base_ok(3))
  have g: "pb_genesis_hash (regtest_base tcl) = REGTEST_GENESIS_HASH"
    using regtest_base_ok(1)[of tcl] by (simp add: pb_regtest_def)
  define b7 where "b7 = ?b5\<lparr>pb_pre_blossom_halving_interval := 144,
    pb_post_blossom_halving_interval := 288, pb_funding_streams := [],
    pb_should_lock_funding_stream_address_period := True, pb_lockbox_disbursements := []\<rparr>"
  have "regtest_builder F tcl (default_regtest_parameters\<lparr>rp_checkpoints := c,
       rp_extend_funding_stream_addresses_as_required := e\<rparr>) =
     with_checkpoints F tcl (unwrap_or (DefaultCheckpoints False) c) b7" for F c e
    unfolding regtest_builder_eq default_regtest_parameters_def regtest_parameters.simps 5 and_then.simps 6
    by (simp add: unwrap_or_def with_funding_streams_def with_lockbox_disbursements_def b7_def)
  then show ?thesis using that[of b7] by (simp add: b7_def g)
qed

lemma regtest_builder_default:
  obtains b where "\<forall>F. regtest_builder F tcl default_regtest_parameters = Ok b"
proof -
  obtain b where b: "pb_genesis_hash b = REGTEST_GENESIS_HASH" "pb_funding_streams b = []"
    "\<forall>F c e. regtest_builder F tcl (default_regtest_parameters\<lparr>rp_checkpoints := c,
       rp_extend_funding_stream_addresses_as_required := e\<rparr>) =
     with_checkpoints F tcl (unwrap_or (DefaultCheckpoints False) c) b" by (rule regtest_builder_checkpoints)
  have "regtest_builder F tcl default_regtest_parameters = Ok (b\<lparr>pb_checkpoints := [(0, REGTEST_GENESIS_HASH)]\<rparr>)" for F
    using b(1) b(3)[rule_format, of F None None]
    by (simp add: default_regtest_parameters_def unwrap_or_def with_checkpoints_def
        from_genesis_list[OF regtest_genesis_not_null])
  then show ?thesis using that by blast
qed

lemma is_regtest_eq: "is_regtest tcl q = Ok (regtest_identity q)"
proof -
  obtain b where b: "\<forall>F. regtest_builder F tcl default_regtest_parameters = Ok b"
    by (rule regtest_builder_default)
  then have d: "default_regtest tcl = Ok (finish_regtest b)" by (simp add: default_regtest_def)
  have "built_regtest b" by (rule regtest_builder_built[OF b[rule_format]])
  from finish_regtest_identity[OF this] show ?thesis
    by (auto simp: is_regtest_def d regtest_identity_def)
qed

subsection \<open>The Orchard soft fork\<close>

lemma activation_height_mono:
  assumes "valid_schedule l" "nu \<le> nu'" "upgrade_activation_height l nu' = Some a'"
  shows "\<exists>a. upgrade_activation_height l nu = Some a \<and> a \<le> a'"
proof -
  have s: "activation_schedule l" using assms(1) by (simp add: activation_schedule_def)
  have "nu' \<le> current_of l a'" using assms(3) by (simp add: activation_schedule.activated_iff[OF s])
  with assms(2) have "nu \<le> current_of l a'" by simp
  then show ?thesis by (simp add: activation_schedule.activated_iff[OF s])
qed

text \<open>
  C16. The two Orchard rules never apply at the same height: while the soft fork disables Orchard
  actions the canonical proof size rule is not active yet, on every network with a valid schedule;
  on Mainnet Orchard is disabled exactly from height 3363426 up to the block before NU6.2.
\<close>

theorem orchard_rules_exclusive:
  assumes "valid_schedule (activation_list net)"
  shows "\<not> (is_orchard_temporarily_disabled net h \<and> orchard_canonical_proof_size_rule_active net h) \<and>
    (is_orchard_temporarily_disabled Mainnet h \<longleftrightarrow> 3363426 \<le> h \<and> h < 3364600)"
proof
  show "\<not> (is_orchard_temporarily_disabled net h \<and> orchard_canonical_proof_size_rule_active net h)"
    using activation_height_mono[OF assms, of Nu6_2 Nu6_3]
    by (fastforce simp: is_orchard_temporarily_disabled_def orchard_canonical_proof_size_rule_active_def
        is_some_and_def is_none_or_def upgrade_ord split: option.splits)
  have "activation_height Nu6_2 Mainnet = Some 3364600"
    unfolding activation_list.simps mainnet_collect
    by (subst upgrade_activation_height_first) (simp_all add: MAINNET_ACTIVATION_HEIGHTS_def upgrade_ord)
  then show "is_orchard_temporarily_disabled Mainnet h \<longleftrightarrow> 3363426 \<le> h \<and> h < 3364600"
    by (simp add: is_orchard_temporarily_disabled_def soft_fork_active_def is_some_and_def
        is_none_or_def MAINNET_TEMPORARY_ORCHARD_DISABLING_SOFT_FORK_HEIGHT_def)
qed

theorem orchard_rules_exclusive_witness:
  "\<not> (is_orchard_temporarily_disabled Mainnet 3363500 \<and>
      orchard_canonical_proof_size_rule_active Mainnet 3363500) \<and>
   is_orchard_temporarily_disabled Mainnet 3363500"
proof -
  have v: "valid_schedule (activation_list Mainnet)"
    by (simp add: mainnet_collect mainnet_schedule_valid)
  have "(3363426 :: nat) \<le> 3363500 \<and> (3363500 :: nat) < 3364600" by simp
  then show ?thesis using orchard_rules_exclusive[OF v, of 3363500] by blast
qed

end
