(* ===== verification/Subsidy.thy ===== *)
theory Subsidy
  imports Network_Params Value_Balance
begin

section \<open>Block subsidies and funding streams (zebra-chain/src/parameters/network/subsidy.rs)\<close>

text \<open>
  The block subsidy, its halvings, the founders reward, the funding streams and their addresses,
  for every network. \<open>HeightDiff\<close> is an \<open>i64\<close>: sums and products wrap, as in the release profile, and
  a division by zero or of \<open>i64::MIN\<close> by \<open>-1\<close> panics. The locale \<open>halving_schedule\<close> holds what the
  parameters of a network promise to these calculations; it is interpreted on Mainnet and on the
  default Testnet.
\<close>

datatype subsidy_error =
    NoCoinbase | FundingStreamNotFound | FoundersRewardNotFound | OneTimeLockboxDisbursementNotFound
  | InvalidMinerFees | SubsidyOverflow | SubsidyUnderflow | UnsupportedHeight
  | InvalidAmount amount_error

definition i64_div :: "int \<Rightarrow> int \<Rightarrow> (int, 'e) outcome" where
  "i64_div a b =
     (if b = 0 then Panic
      else expect (checked i64_min i64_max (sgn b * trunc_div a \<bar>b\<bar>)))"

abbreviation non_negative :: range where
  "non_negative \<equiv> valid_range NonNegative"

subsection \<open>Halvings\<close>

definition halving :: "height \<Rightarrow> network \<Rightarrow> (nat, 'e) outcome" where
  "halving h net =
     (let shift = network_slow_start_shift net
      in and_then (expect (activation_height Blossom net)) (\<lambda>blossom.
         and_then
           (if h < shift then Ok 0
            else if h < blossom then
              i64_div (height_sub h shift) (network_pre_blossom_halving_interval net)
            else
              let pre_blossom_height = height_sub blossom shift;
                  scaled_pre_blossom_height =
                    wrap_i64 (pre_blossom_height * int BLOSSOM_POW_TARGET_SPACING_RATIO);
                  post_blossom_height = height_sub h blossom
              in i64_div (wrap_i64 (scaled_pre_blossom_height + post_blossom_height))
                   (network_post_blossom_halving_interval net))
           (\<lambda>halving_index. and_then (expect (checked 0 u32_max halving_index)) (\<lambda>i. Ok (nat i)))))"

definition halving_divisor :: "height \<Rightarrow> network \<Rightarrow> (nat option, 'e) outcome" where
  "halving_divisor h net =
     and_then (halving h net) (\<lambda>i. Ok (if i < 64 then Some (2 ^ i) else None))"

definition height_for_halving :: "nat \<Rightarrow> network \<Rightarrow> height option" where
  "height_for_halving halving_index net =
     (if halving_index = 0 then Some 0
      else
        let shift = int (network_slow_start_shift net)
        in Option.bind (activation_height Blossom net) (\<lambda>b.
           let blossom_height = int b
           in Option.bind (checked i64_min i64_max
                (int halving_index * network_pre_blossom_halving_interval net)) (\<lambda>unscaled_height.
              Option.bind (checked i64_min i64_max (min unscaled_height blossom_height + shift))
                (\<lambda>pre_blossom_height.
              Option.bind (checked i64_min i64_max
                (max 0 (wrap_i64 (unscaled_height - blossom_height)) *
                 int BLOSSOM_POW_TARGET_SPACING_RATIO)) (\<lambda>scaled.
              Option.bind (checked i64_min i64_max (scaled + shift)) (\<lambda>post_blossom_height.
              Option.bind (checked i64_min i64_max (pre_blossom_height + post_blossom_height))
                (\<lambda>height.
              Option.bind (checked 0 u32_max height) (\<lambda>h. height_try_from_u32 (nat h)))))))))"

subsection \<open>Subsidies and rewards\<close>

definition block_subsidy :: "height \<Rightarrow> network \<Rightarrow> (amount, subsidy_error) outcome" where
  "block_subsidy h net =
     and_then (halving_divisor h net) (\<lambda>d. case d of
       None \<Rightarrow> map_err InvalidAmount (amount_zero non_negative)
     | Some halving_div \<Rightarrow>
         let interval = network_slow_start_interval net
         in and_then
              (if h < interval then
                 let slow_start_rate = MAX_BLOCK_SUBSIDY div interval
                 in Ok (if h < network_slow_start_shift net then slow_start_rate * h
                        else slow_start_rate * (h + 1))
               else
                 and_then (current net h) (\<lambda>nu.
                 let base_subsidy = (if nu < Blossom then MAX_BLOCK_SUBSIDY
                                     else MAX_BLOCK_SUBSIDY div BLOSSOM_POW_TARGET_SPACING_RATIO)
                 in Ok (base_subsidy div halving_div)))
              (\<lambda>a. map_err InvalidAmount (try_from_u64 non_negative (int a))))"

definition founders_reward :: "network \<Rightarrow> height \<Rightarrow> (amount, 'e) outcome" where
  "founders_reward net h =
     and_then (halving h net) (\<lambda>i.
     and_then (current net h) (\<lambda>nu.
     if i < 1 \<and> nu < Canopy
     then and_then (expect_ok (block_subsidy h net)) (\<lambda>s. expect_ok (div_exact s 5))
     else expect_ok (amount_zero non_negative)))"

definition funding_stream_values ::
    "height \<Rightarrow> network \<Rightarrow> amount \<Rightarrow> (funding_stream_receiver \<times> amount) list amount_result" where
  "funding_stream_values h net expected_block_subsidy =
     (if is_zero expected_block_subsidy then Ok []
      else and_then (current net h) (\<lambda>nu.
        if nu \<ge> Canopy then
          (case network_funding_streams net h of
             None \<Rightarrow> Ok []
           | Some fs \<Rightarrow>
               try_map (\<lambda>(receiver, r).
                 and_then (amount_mul non_negative expected_block_subsidy (int (numerator r))) (\<lambda>m.
                 and_then (amount_div non_negative m (int FUNDING_STREAM_RECEIVER_DENOMINATOR)) (\<lambda>v.
                 Ok (receiver, v)))) (recipients fs))
        else Ok []))"

definition miner_subsidy :: "height \<Rightarrow> network \<Rightarrow> amount \<Rightarrow> amount amount_result" where
  "miner_subsidy h net expected_block_subsidy =
     and_then (founders_reward net h) (\<lambda>fr.
     and_then (funding_stream_values h net expected_block_subsidy) (\<lambda>fsv.
     and_then (amount_sum non_negative (map snd fsv)) (\<lambda>funding_streams_sum.
     result_sub non_negative (amount_sub non_negative expected_block_subsidy fr)
       funding_streams_sum)))"

subsection \<open>Addresses\<close>

definition height_for_first_halving :: "checkpoint_list \<Rightarrow> network \<Rightarrow> (height, 'e) outcome" where
  "height_for_first_halving tcl net =
     (case net of
        Mainnet \<Rightarrow> expect (activation_height Canopy net)
      | Testnet p \<Rightarrow>
          and_then (is_regtest tcl p) (\<lambda>r.
          if r then Ok REGTEST_FIRST_HALVING
          else and_then (is_default_testnet tcl p) (\<lambda>d.
               if d then Ok TESTNET_FIRST_HALVING else expect (height_for_halving 1 net))))"

definition funding_stream_address_change_interval :: "network \<Rightarrow> (int, 'e) outcome" where
  "funding_stream_address_change_interval net =
     i64_div (network_post_blossom_halving_interval net) 48"

definition funding_stream_address_period ::
    "checkpoint_list \<Rightarrow> height \<Rightarrow> network \<Rightarrow> (nat, 'e) outcome" where
  "funding_stream_address_period tcl h net =
     and_then (height_for_first_halving tcl net) (\<lambda>first.
     let height_after_first_halving = height_sub h first
     in and_then (funding_stream_address_change_interval net) (\<lambda>interval.
        and_then (i64_div (wrap_i64 (height_after_first_halving +
                     network_post_blossom_halving_interval net)) interval) (\<lambda>address_period.
        and_then (expect (checked 0 u32_max address_period)) (\<lambda>p. Ok (nat p)))))"

text \<open>\<open>u32\<close> sums and differences of the address index.\<close>

definition u32_checked :: "int \<Rightarrow> nat option" where
  "u32_checked x = map_option nat (checked 0 u32_max x)"

definition funding_stream_address_index ::
    "checkpoint_list \<Rightarrow> height \<Rightarrow> network \<Rightarrow> funding_stream_receiver \<Rightarrow> (nat option, 'e) outcome" where
  "funding_stream_address_index tcl h net receiver =
     (if receiver = Deferred then Ok None
      else case network_funding_streams net h of
             None \<Rightarrow> Ok None
           | Some fs \<Rightarrow> (case recipient fs receiver of
               None \<Rightarrow> Ok None
             | Some r \<Rightarrow>
                 and_then (funding_stream_address_period tcl h net) (\<lambda>p.
                 case u32_checked (1 + int p) of
                   None \<Rightarrow> Ok None
                 | Some p1 \<Rightarrow>
                     and_then (funding_stream_address_period tcl (fst (height_range fs)) net) (\<lambda>p0.
                     case u32_checked (int p1 - int p0) of
                       None \<Rightarrow> Ok None
                     | Some index \<Rightarrow>
                         if \<not> (index > 0 \<and> index \<le> length (addresses r)) then Panic
                         else Ok (Some (index - 1))))))"

definition funding_stream_address ::
    "checkpoint_list \<Rightarrow> height \<Rightarrow> network \<Rightarrow> funding_stream_receiver \<Rightarrow> (address option, 'e) outcome" where
  "funding_stream_address tcl h net receiver =
     and_then (funding_stream_address_index tcl h net receiver) (\<lambda>i. case i of
       None \<Rightarrow> Ok None
     | Some index \<Rightarrow>
         (case network_funding_streams net h of
            None \<Rightarrow> Ok None
          | Some fs \<Rightarrow> (case recipient fs receiver of
              None \<Rightarrow> Ok None
            | Some r \<Rightarrow> Ok (list_get (addresses r) index))))"

definition num_funding_stream_addresses_required_for_height_range ::
    "checkpoint_list \<Rightarrow> height \<times> height \<Rightarrow> network \<Rightarrow> (nat, 'e) outcome" where
  "num_funding_stream_addresses_required_for_height_range tcl hr net =
     and_then (expect_ok (height_previous (snd hr))) (\<lambda>last_height.
     and_then (funding_stream_address_period tcl last_height net) (\<lambda>p.
     and_then (expect (u32_checked (1 + int p))) (\<lambda>p1.
     and_then (funding_stream_address_period tcl (fst hr) net) (\<lambda>p0.
     expect (u32_checked (int p1 - int p0))))))"

definition check_funding_stream_address_period ::
    "checkpoint_list \<Rightarrow> (address \<Rightarrow> network_kind) \<Rightarrow> funding_streams \<Rightarrow> network \<Rightarrow> (unit, 'e) outcome" where
  "check_funding_stream_address_period tcl address_kind fs net =
     and_then (num_funding_stream_addresses_required_for_height_range tcl (height_range fs) net)
       (\<lambda>expected_min_num_addresses.
         try_for_each (\<lambda>(receiver, r).
           if receiver = Deferred then Ok ()
           else if \<not> length (addresses r) \<ge> expected_min_num_addresses then Panic
           else if \<exists>a\<in>set (addresses r). address_kind a \<noteq> TestnetKind then Panic
           else Ok ()) (recipients fs))"

definition extend_funding_streams ::
    "checkpoint_list \<Rightarrow> parameters_builder \<Rightarrow> (parameters_builder, 'e) outcome" where
  "extend_funding_streams tcl b =
     (let net = to_network_unchecked b
      in and_then
           (try_map (\<lambda>fs.
              and_then (num_funding_stream_addresses_required_for_height_range tcl (height_range fs) net)
                (\<lambda>n. extend_recipient_addresses n fs)) (pb_funding_streams b))
           (\<lambda>fss. Ok (b\<lparr>pb_funding_streams := fss\<rparr>)))"

definition to_network ::
    "checkpoint_list \<Rightarrow> (address \<Rightarrow> network_kind) \<Rightarrow> parameters_builder \<Rightarrow> network builder_result" where
  "to_network tcl address_kind b =
     (let net = to_network_unchecked b
      in and_then (try_for_each (\<lambda>fs. check_funding_stream_address_period tcl address_kind fs net)
                     (pb_funding_streams b)) (\<lambda>_.
         if checkpoint_hash (pb_checkpoints b) 0 \<noteq> Some (network_genesis_hash net)
         then Err CheckpointGenesisMismatch
         else and_then (max_height (pb_checkpoints b)) (\<lambda>m.
              and_then (mandatory_checkpoint_height net) (\<lambda>mandatory.
              if m < mandatory then Err InsufficientCheckpointCoverage else Ok net))))"

text \<open>The parser of addresses is an argument; \<open>div_ceil\<close> of a zero divisor panics.\<close>

definition founders_reward_address ::
    "(address \<Rightarrow> 'a option) \<Rightarrow> network \<Rightarrow> height \<Rightarrow> ('a option, 'e) outcome" where
  "founders_reward_address parse net h =
     (let founders = founder_address_list net;
          shift = network_slow_start_shift net
      in case checked 0 u32_max (network_pre_blossom_halving_interval net) of
           None \<Rightarrow> Ok None
         | Some pre \<Rightarrow>
         (case u32_checked (int shift + pre) of
            None \<Rightarrow> Ok None
          | Some s \<Rightarrow>
              and_then (if founders = [] then Panic
                        else Ok ((s + length founders - 1) div length founders)) (\<lambda>interval.
              and_then (current net h) (\<lambda>nu.
              case (if nu < Blossom then Some h
                    else Option.bind (activation_height Blossom net) (\<lambda>blossom.
                         Option.bind (u32_checked (int h - int blossom)) (\<lambda>d.
                         u32_checked (int blossom + int (d div BLOSSOM_POW_TARGET_SPACING_RATIO))))) of
                None \<Rightarrow> Ok None
              | Some adjusted \<Rightarrow>
                  if interval = 0 then Panic
                  else Ok (Option.bind (list_get founders (adjusted div interval)) parse)))))"

subsection \<open>Halvings follow the specification\<close>

lemma i64_div_pos:
  "0 < b \<Longrightarrow> 0 \<le> a \<Longrightarrow> a \<le> i64_max \<Longrightarrow> i64_div a b = Ok (a div b)"
  using trunc_div_bounds[of b 0 a i64_max]
  by (auto simp: i64_div_def trunc_div_def checked_def int_bounds)

text \<open>\<open>Halving(height)\<close> and \<open>BlockSubsidy(height)\<close> of the protocol specification.\<close>

definition halving_spec :: "nat \<Rightarrow> nat \<Rightarrow> nat \<Rightarrow> height \<Rightarrow> nat" where
  "halving_spec shift blossom interval h =
     (if h < shift then 0
      else if h < blossom then (h - shift) div interval
      else (2 * (blossom - shift) + (h - blossom)) div (2 * interval))"

locale halving_schedule =
  fixes net :: network and blossom shift interval :: nat
  assumes schedule: "valid_schedule (activation_list net)"
    and blossom_at: "activation_height Blossom net = Some blossom"
    and shift_is: "network_slow_start_shift net = shift"
    and pre_interval: "network_pre_blossom_halving_interval net = int interval"
    and post_interval: "network_post_blossom_halving_interval net = 2 * int interval"
    and interval_pos: "2 \<le> interval" "interval \<le> 2 ^ 32"
    and shift_le: "shift \<le> blossom"
    and blossom_u32: "blossom < 2 ^ 32"
begin

lemma halving_spec_small: "h < 2 ^ 32 \<Longrightarrow> int (halving_spec shift blossom interval h) \<le> u32_max"
proof -
  assume h: "h < 2 ^ 32"
  have le: "(h - shift) div interval < 2 ^ 32"
    using h div_le_dividend[of "h - shift" interval] by linarith
  have "(2 * (blossom - shift) + (h - blossom)) div (2 * interval)
      \<le> (2 * (blossom - shift) + (h - blossom)) div 4"
    using interval_pos by (intro div_le_mono2) auto
  also have "\<dots> < 2 ^ 32" using h blossom_u32 by linarith
  finally have "halving_spec shift blossom interval h < 2 ^ 32"
    using h le by (auto simp: halving_spec_def)
  then show ?thesis by (simp add: int_bounds)
qed

lemma halving_eq:
  assumes "h < 2 ^ 32"
  shows "halving h net = Ok (halving_spec shift blossom interval h)"
proof -
  note small = halving_spec_small[OF assms]
  have r: "int BLOSSOM_POW_TARGET_SPACING_RATIO = 2"
    by (simp add: BLOSSOM_POW_TARGET_SPACING_RATIO_def)
  have w: "wrap_i64 ((int blossom - int shift) * 2) = (int blossom - int shift) * 2"
    by (rule wrap_i64_exact) (use blossom_u32 shift_le in \<open>auto simp: int_bounds\<close>)
  consider "h < shift" | "shift \<le> h" "h < blossom" | "blossom \<le> h" by linarith
  then show ?thesis
  proof cases
    case 1
    then show ?thesis
      by (simp add: halving_def Let_def blossom_at shift_is halving_spec_def checked_def int_bounds)
  next
    case 2
    have d: "i64_div (height_sub h shift) (int interval) = Ok (int ((h - shift) div interval))"
      using 2 interval_pos assms
      by (subst i64_div_pos) (auto simp: height_sub_def int_bounds zdiv_int of_nat_diff)
    show ?thesis using 2 small
      by (simp add: halving_def Let_def blossom_at shift_is pre_interval halving_spec_def checked_def d)
  next
    case 3
    define x where "x = 2 * (blossom - shift) + (h - blossom)"
    have spec: "halving_spec shift blossom interval h = x div (2 * interval)"
      using 3 shift_le by (simp add: halving_spec_def x_def)
    have x: "(int blossom - int shift) * 2 + (int h - int blossom) = int x"
      using 3 shift_le by (simp add: x_def of_nat_diff)
    have wx: "wrap_i64 (int x) = int x"
      by (rule wrap_i64_exact) (use assms blossom_u32 in \<open>auto simp: x_def int_bounds\<close>)
    have d: "i64_div (int x) (2 * int interval) = Ok (int (x div (2 * interval)))"
      using interval_pos assms blossom_u32
      by (subst i64_div_pos) (auto simp: int_bounds zdiv_int x_def)
    show ?thesis
      unfolding halving_def Let_def blossom_at shift_is post_interval height_sub_def r expect.simps
        and_then.simps w x wx d
      using 3 small shift_le by (simp add: spec checked_def)
  qed
qed

lemma halving_spec_mono: "h \<le> h' \<Longrightarrow> halving_spec shift blossom interval h \<le> halving_spec shift blossom interval h'"
proof -
  assume le: "h \<le> h'"
  have cross: "(h - shift) div interval \<le> (2 * (blossom - shift) + (h' - blossom)) div (2 * interval)"
    if "h < blossom" "blossom \<le> h'"
  proof -
    have "(h - shift) div interval \<le> (blossom - shift) div interval" using that by (intro div_le_mono) auto
    also have "\<dots> = (2 * (blossom - shift)) div (2 * interval)" by simp
    also have "\<dots> \<le> (2 * (blossom - shift) + (h' - blossom)) div (2 * interval)" by (intro div_le_mono) auto
    finally show ?thesis .
  qed
  show ?thesis using le shift_le cross by (auto simp: halving_spec_def intro!: div_le_mono)
qed

text \<open>Where the halvings fall at or after Blossom, \<open>height_for_halving\<close> returns their first height.\<close>

lemma height_for_halving_eq:
  assumes "0 < k" "blossom \<le> k * interval" "height_for_halving k net = Some h"
  shows "h = blossom + 2 * (k * interval - blossom) + 2 * shift" and "h \<le> HEIGHT_MAX"
proof -
  let ?u = "int k * int interval"
  have u: "int blossom \<le> ?u" using assms(2) by (metis of_nat_le_iff of_nat_mult)
  have "?u \<le> i64_max \<and> height_try_from_u32 (nat (int blossom + int shift +
      (max 0 (wrap_i64 (?u - int blossom)) * 2 + int shift))) = Some h"
    using assms(1,3) u
    by (auto simp: height_for_halving_def blossom_at shift_is pre_interval rust_simps
        BLOSSOM_POW_TARGET_SPACING_RATIO_def min_def bind_eq_Some_conv Let_def split: if_splits)
  moreover have "wrap_i64 (?u - int blossom) = ?u - int blossom" if "?u \<le> i64_max"
    by (rule wrap_i64_exact) (use u that in \<open>auto simp: int_bounds\<close>)
  ultimately have t: "height_try_from_u32 (nat (int blossom + int shift +
      ((?u - int blossom) * 2 + int shift))) = Some h"
    using u by (simp only: max_def) auto
  have "int blossom + int shift + ((?u - int blossom) * 2 + int shift) =
      int (blossom + 2 * (k * interval - blossom) + 2 * shift)"
    using assms(2) by (simp add: of_nat_diff)
  with t show "h = blossom + 2 * (k * interval - blossom) + 2 * shift" "h \<le> HEIGHT_MAX"
    by (auto simp: height_try_from_u32_def simp del: of_nat_add of_nat_mult split: if_splits)
qed

lemma height_for_halving_first:
  assumes "0 < k" "blossom \<le> k * interval" "height_for_halving k net = Some h"
  shows "halving h net = Ok k" and "g < h \<Longrightarrow> halving_spec shift blossom interval g < k"
proof -
  note h = height_for_halving_eq[OF assms]
  have lt: "h < 2 ^ 32" using h(2) by (simp add: HEIGHT_MAX_def)
  have "2 * (blossom - shift) + (h - blossom) = k * (2 * interval)"
    using shift_le assms(2) by (simp add: h(1) mult.left_commute)
  then have "halving_spec shift blossom interval h = k"
    using shift_le interval_pos h(1) by (simp add: halving_spec_def)
  then show "halving h net = Ok k" by (simp add: halving_eq[OF lt])
  show "halving_spec shift blossom interval g < k" if "g < h"
  proof (cases "g < blossom")
    case True
    then have "g - shift < k * interval" using assms(2) by linarith
    then show ?thesis using True assms(1) interval_pos
      by (simp add: halving_spec_def less_mult_imp_div_less)
  next
    case False
    have "2 * (blossom - shift) + (g - blossom) < k * (2 * interval)"
      using that False \<open>2 * (blossom - shift) + (h - blossom) = k * (2 * interval)\<close> by linarith
    then show ?thesis using False shift_le
      by (simp add: halving_spec_def less_mult_imp_div_less)
  qed
qed

end

subsection \<open>Mainnet and the default Testnet\<close>

lemma mainnet_activation:
  "activation_height Blossom Mainnet = Some 653600" "activation_height Canopy Mainnet = Some 1046400"
  unfolding activation_list.simps mainnet_collect
  by (subst upgrade_activation_height_first; simp add: MAINNET_ACTIVATION_HEIGHTS_def upgrade_ord)+

interpretation main: halving_schedule Mainnet 653600 10000 840000
  by unfold_locales
    (use mainnet_schedule_valid mainnet_activation in \<open>simp_all add: mainnet_collect subsidy_constants\<close>)

abbreviation default_testnet :: "checkpoint_list \<Rightarrow> network" where
  "default_testnet tcl \<equiv> Testnet ((finish (default_builder tcl))\<lparr>network_name := ''Testnet''\<rparr>)"

lemma default_testnet_fields:
  "activation_list (default_testnet tcl) = TESTNET_ACTIVATION_HEIGHTS"
  "network_slow_start_shift (default_testnet tcl) = 10000"
  "network_pre_blossom_halving_interval (default_testnet tcl) = 840000"
  "network_post_blossom_halving_interval (default_testnet tcl) = 1680000"
  by (simp_all add: finish_def default_builder_def subsidy_constants)

lemma testnet_activation: "upgrade_activation_height TESTNET_ACTIVATION_HEIGHTS Blossom = Some 584000"
  by (subst upgrade_activation_height_first) (simp_all add: TESTNET_ACTIVATION_HEIGHTS_def upgrade_ord)

interpretation test: halving_schedule "default_testnet tcl" 584000 10000 840000 for tcl
  by unfold_locales
    (simp_all only: default_testnet_fields testnet_activation testnet_schedule_valid, simp_all)

lemma parameters_default_eq: "is_default_testnet tcl p = Ok (Testnet p = default_testnet tcl)"
  by (simp add: is_default_testnet_def parameters_default_def builder_default_eq)

lemma mainnet_current: "current Mainnet h = Ok (current_of MAINNET_ACTIVATION_HEIGHTS h)"
  by (simp add: mainnet_collect mainnet.current_upgrade_eq)

lemma mainnet_upgrade_from:
  "current_of MAINNET_ACTIVATION_HEIGHTS h < Blossom \<longleftrightarrow> h < 653600"
  "current_of MAINNET_ACTIVATION_HEIGHTS h < Canopy \<longleftrightarrow> h < 1046400"
  using mainnet.activated_iff[of Blossom h] mainnet.activated_iff[of Canopy h] mainnet_activation
  by (simp_all add: mainnet_collect not_le[symmetric])

subsection \<open>The Mainnet issuance\<close>

definition mainnet_subsidy :: "height \<Rightarrow> nat" where
  "mainnet_subsidy h =
     (if h < 10000 then 62500 * h
      else if h < 20000 then 62500 * (h + 1)
      else if h < 653600 then 1250000000
      else let k = (1287200 + (h - 653600)) div 1680000
           in if k < 64 then 625000000 div 2 ^ k else 0)"

lemma mainnet_subsidy_le: "mainnet_subsidy h \<le> 1250000000"
proof -
  have "(625000000::nat) div 2 ^ k \<le> 1250000000" for k
    using div_le_dividend[of 625000000 "2 ^ k"] by linarith
  then show ?thesis by (simp add: mainnet_subsidy_def Let_def)
qed

lemma block_subsidy_mainnet:
  assumes "h < 2 ^ 32"
  shows "block_subsidy h Mainnet = Ok (int (mainnet_subsidy h))"
proof -
  let ?k = "halving_spec 10000 653600 840000 h"
  have params: "MAX_BLOCK_SUBSIDY = 1250000000" "BLOSSOM_POW_TARGET_SPACING_RATIO = 2"
      "network_slow_start_interval Mainnet = 20000" "network_slow_start_shift Mainnet = 10000"
    by (simp_all add: subsidy_constants)
  have conv: "try_from_u64 non_negative (int (mainnet_subsidy h)) = Ok (int (mainnet_subsidy h))"
    using mainnet_subsidy_le[of h]
    by (simp add: try_from_u64_def checked_def validate_def contains_def money_defs int_bounds)
  have zero: "amount_zero non_negative = Ok 0"
    by (simp add: amount_zero_def try_from_i32_def validate_def contains_def money_defs)
  have d: "halving_divisor h Mainnet = Ok (if ?k < 64 then Some (2 ^ ?k) else None)"
    by (simp add: halving_divisor_def main.halving_eq[OF assms])
  have code: "block_subsidy h Mainnet = (if ?k < 64 then
      map_err InvalidAmount (try_from_u64 non_negative (int
        (if h < 20000 then (if h < 10000 then 62500 * h else 62500 * (h + 1))
         else (if h < 653600 then 1250000000 else 625000000) div 2 ^ ?k)))
      else Ok 0)"
    unfolding block_subsidy_def d params mainnet_current Let_def and_then.simps zero
    by (simp add: mainnet_upgrade_from)
  show ?thesis
  proof (cases "h < 653600")
    case True
    then have "?k = 0" by (simp add: halving_spec_def)
    then have "block_subsidy h Mainnet = map_err InvalidAmount (try_from_u64 non_negative (int (mainnet_subsidy h)))"
      unfolding code using True by (simp add: mainnet_subsidy_def)
    then show ?thesis using conv by simp
  next
    case False
    then have k: "(1287200 + (h - 653600)) div 1680000 = ?k" by (simp add: halving_spec_def)
    have spec: "mainnet_subsidy h = (if ?k < 64 then 625000000 div 2 ^ ?k else 0)"
      using False unfolding mainnet_subsidy_def k Let_def by simp
    show ?thesis
    proof (cases "?k < 64")
      case True
      then show ?thesis using False conv by (simp add: code spec)
    qed (simp add: code spec)
  qed
qed

lemma sum_split: "(\<Sum>h<a + b. f h) = (\<Sum>h<a. f h) + (\<Sum>j<b. f (a + j))" for f :: "nat \<Rightarrow> nat"
  by (induction b) (simp_all add: add.assoc)

lemma sum_blocks: "(\<Sum>j<m * q. f (j div m)) = m * (\<Sum>i<q. f i)" for f :: "nat \<Rightarrow> nat"
proof (induction q)
  case (Suc q)
  have "(\<Sum>j<m. f ((m * q + j) div m)) = (\<Sum>j<m. f q)" by (rule sum.cong) auto
  then show ?case using Suc sum_split[of "\<lambda>j. f (j div m)" "m * q" m]
    by (simp add: algebra_simps)
qed simp

lemma sum_halves: "(\<Sum>i<q. a div 2 ^ Suc i) + a div 2 ^ q \<le> (a::nat)"
proof (induction q)
  case (Suc q)
  have "a div 2 ^ Suc q = a div 2 ^ q div 2" by (simp add: div_mult2_eq[symmetric] mult.commute)
  then have "a div 2 ^ Suc q + a div 2 ^ Suc q \<le> a div 2 ^ q" by linarith
  with Suc show ?case by simp
qed simp

lemma sum_halving_blocks: "0 < m \<Longrightarrow> (\<Sum>j<n. a div 2 ^ Suc (j div m)) \<le> m * (a::nat)"
proof -
  assume m: "0 < m"
  let ?q = "Suc (n div m)"
  have "n < m * ?q" using m by (simp add: dividend_less_times_div)
  then have "(\<Sum>j<n. a div 2 ^ Suc (j div m)) \<le> (\<Sum>j<m * ?q. a div 2 ^ Suc (j div m))"
    by (intro sum_mono2) auto
  also have "\<dots> = m * (\<Sum>i<?q. a div 2 ^ Suc i)" by (rule sum_blocks)
  also have "\<dots> \<le> m * a" using sum_halves[of a ?q] by (intro mult_left_mono) auto
  finally show ?thesis .
qed

lemma slow_start_sum:
  "n \<le> 20000 \<Longrightarrow> (\<Sum>h<n. mainnet_subsidy h) =
     (if n \<le> 10000 then 31250 * (n * (n - 1)) else 31250 * (n * (n + 1)) - 31250 * 20000)"
proof (induction n)
  case (Suc n)
  let ?F = "\<lambda>n. if n \<le> 10000 then 31250 * (n * (n - 1)) else 31250 * (n * (n + 1)) - 31250 * 20000 :: nat"
  have step: "(\<Sum>h<Suc n. mainnet_subsidy h) = ?F n + mainnet_subsidy n" using Suc by simp
  consider "Suc n \<le> 10000" | "n = 10000" | "10000 < n" by linarith
  then show ?case
  proof cases
    case 1
    then have "?F n + mainnet_subsidy n = 31250 * (n * (n - 1)) + 62500 * n"
      by (simp add: mainnet_subsidy_def)
    also have "\<dots> = 31250 * (Suc n * (Suc n - 1))" by (cases n) simp_all
    finally show ?thesis using 1 step by simp
  next
    case 2
    then have "?F n + mainnet_subsidy n = ?F 10001" by (simp add: mainnet_subsidy_def)
    then show ?thesis using 2 step by simp
  next
    case 3
    have "10001 \<le> n" using 3 by simp
    then have "20000 \<le> n * (n + 1)" using mult_mono[of 10001 n 10001 "n + 1"] by simp
    then have "?F n + mainnet_subsidy n = 31250 * (Suc n * (Suc n + 1)) - 31250 * 20000"
      using 3 Suc(2) by (simp add: mainnet_subsidy_def)
    then show ?thesis using 3 step by simp
  qed
qed simp

lemma mainnet_sum_first_halving: "(\<Sum>h<1046400. mainnet_subsidy h) = 1050000000000000"
proof -
  have 1: "(\<Sum>h<20000. mainnet_subsidy h) = 12500000000000"
    by (subst slow_start_sum) simp_all
  have 2: "(\<Sum>j<633600. mainnet_subsidy (20000 + j)) = 792000000000000"
    by (subst sum.cong[OF refl, of _ _ "\<lambda>_. 1250000000"]) (auto simp: mainnet_subsidy_def)
  have 3: "(\<Sum>j<392800. mainnet_subsidy (653600 + j)) = 245500000000000"
    by (subst sum.cong[OF refl, of _ _ "\<lambda>_. 625000000"]) (auto simp: mainnet_subsidy_def Let_def)
  have "(\<Sum>h<653600. mainnet_subsidy h) = 804500000000000"
    using sum_split[of mainnet_subsidy 20000 633600] 1 2 by simp
  then show ?thesis using sum_split[of mainnet_subsidy 653600 392800] 3 by simp
qed

lemma mainnet_supply: "(\<Sum>h<n. mainnet_subsidy h) \<le> 2100000000000000"
proof -
  have "mainnet_subsidy (1046400 + j) \<le> 625000000 div 2 ^ Suc (j div 1680000)" for j
  proof -
    have "(1287200 + (1046400 + j - 653600)) div 1680000 = Suc (j div 1680000)" by simp
    then show ?thesis by (simp add: mainnet_subsidy_def Let_def)
  qed
  then have "(\<Sum>j<n. mainnet_subsidy (1046400 + j)) \<le> (\<Sum>j<n. 625000000 div 2 ^ Suc (j div 1680000))"
    by (intro sum_mono) auto
  also have "\<dots> \<le> 1680000 * 625000000" by (rule sum_halving_blocks) simp
  finally have tail: "(\<Sum>j<n. mainnet_subsidy (1046400 + j)) \<le> 1050000000000000" by simp
  have "(\<Sum>h<n. mainnet_subsidy h) \<le> (\<Sum>h<1046400 + n. mainnet_subsidy h)"
    by (intro sum_mono2) auto
  also have "\<dots> \<le> 2100000000000000"
    using tail mainnet_sum_first_halving sum_split[of mainnet_subsidy 1046400 n] by simp
  finally show ?thesis .
qed

subsection \<open>Founders reward and funding streams\<close>

lemma amount_sub_Ok: "amount_sub r a b = Ok c \<Longrightarrow> c = a - b \<and> contains r c"
  by (auto simp: amount_sub_def rust_simps try_from_i64_def validate_def split: if_splits)

lemma miner_subsidy_conserves:
  assumes "miner_subsidy h net s = Ok m"
  shows "\<exists>fr fsv. (founders_reward net h :: amount amount_result) = Ok fr \<and>
    funding_stream_values h net s = Ok fsv \<and>
    amount_sum non_negative (map snd fsv) = Ok (s - fr - m) \<and> 0 \<le> m"
proof -
  obtain fr fsv fs a where "(founders_reward net h :: amount amount_result) = Ok fr"
      "funding_stream_values h net s = Ok fsv" "amount_sum non_negative (map snd fsv) = Ok fs"
      "amount_sub non_negative s fr = Ok a" "amount_sub non_negative a fs = Ok m"
    using assms unfolding miner_subsidy_def result_sub_def and_then_Ok_iff by blast
  moreover from this have "m = s - fr - fs" "0 \<le> m"
    using amount_sub_Ok by (fastforce simp: contains_def)+
  ultimately show ?thesis by (intro exI[of _ fr] exI[of _ fsv]) simp
qed

lemma sum_fold_nonneg:
  "\<forall>x\<in>set xs. 0 \<le> x \<Longrightarrow> 0 \<le> acc \<Longrightarrow> acc + sum_list xs \<le> MAX_MONEY \<Longrightarrow>
     sum_fold non_negative acc xs = Ok (acc + sum_list xs)"
proof (induction xs arbitrary: acc)
  case (Cons x xs)
  have "0 \<le> sum_list xs" using Cons(2) by (simp add: sum_list_nonneg)
  then have r: "contains non_negative acc" "contains non_negative x" "contains non_negative (acc + x)"
    using Cons(2-4) by (auto simp: contains_def)
  show ?case using Cons(1)[of "acc + x"] Cons(2-4) amt.add_exact[OF r(1,2)] r(3)
    by (simp add: algebra_simps)
qed simp

lemma zero_amount: "amount_zero non_negative = Ok 0"
  by (simp add: amount_zero_def try_from_i32_def validate_def contains_def money_defs)

lemma amount_sum_nonneg:
  "\<forall>x\<in>set xs. 0 \<le> x \<Longrightarrow> sum_list xs \<le> MAX_MONEY \<Longrightarrow> amount_sum non_negative xs = Ok (sum_list xs)"
  using sum_fold_nonneg[of xs 0] by (simp add: amount_sum_def zero_amount del: valid_range.simps)

lemma stream_value:
  assumes "0 \<le> s" "s * int n \<le> MAX_MONEY"
  shows "and_then (amount_mul non_negative s (int n)) (\<lambda>m.
      and_then (amount_div non_negative m (int FUNDING_STREAM_RECEIVER_DENOMINATOR)) (\<lambda>v. Ok (r, v))) =
    Ok (r, s * int n div 100)"
proof -
  have nn: "0 \<le> s * int n" using assms by simp
  have "s * int n div 100 \<le> s * int n" using nn zdiv_mono2[of "s * int n" 1 100] by simp
  then show ?thesis using assms nn
    by (simp add: amount_mul_def amount_div_def try_from_i128_def validate_def contains_def checked_def
        FUNDING_STREAM_RECEIVER_DENOMINATOR_def trunc_div_def money_defs int_bounds
        pos_imp_zdiv_nonneg_iff)
qed

lemma mainnet_streams:
  "network_funding_streams Mainnet h =
     (if 1046400 \<le> h \<and> h < 2726400 then Some (MAINNET_FUNDING_STREAMS ! 0)
      else if 2726400 \<le> h \<and> h < 3146400 then Some (MAINNET_FUNDING_STREAMS ! 1)
      else if 3146400 \<le> h \<and> h < 4406400 then Some (MAINNET_FUNDING_STREAMS ! 2)
      else None)"
  by (simp add: network_funding_streams_def MAINNET_FUNDING_STREAMS_def new_funding_streams_def
      in_range_def MAINNET_POST_NU6_FUNDING_STREAM_START_RANGE_def
      MAINNET_POST_NU6_FUNDING_STREAM_START_HEIGHT_def POST_NU6_FUNDING_STREAM_NUM_BLOCKS_def)

text \<open>The shares of the block subsidy, in percent.\<close>

definition mainnet_shares :: "height \<Rightarrow> (funding_stream_receiver \<times> nat) list" where
  "mainnet_shares h =
     (if 1046400 \<le> h \<and> h < 2726400 then [(Ecc, 7), (ZcashFoundation, 5), (MajorGrants, 8)]
      else if 2726400 \<le> h \<and> h < 4406400 then [(Deferred, 12), (MajorGrants, 8)]
      else [])"

lemma funding_stream_values_mainnet:
  assumes "0 < s" "s \<le> 1250000000"
  shows "funding_stream_values h Mainnet s = Ok (map (\<lambda>(r, n). (r, s * int n div 100)) (mainnet_shares h))"
proof -
  have v: "s * int n \<le> MAX_MONEY" if "n \<le> 12" for n
    using mult_mono[of s 1250000000 "int n" 12] assms that by (simp add: money_defs)
  have sv: "and_then (amount_mul non_negative s (int n)) (\<lambda>m.
      and_then (amount_div non_negative m (int FUNDING_STREAM_RECEIVER_DENOMINATOR)) (\<lambda>v. Ok (r, v))) =
    Ok (r, s * int n div 100)" if "n \<le> 12" for r n
    using assms that by (intro stream_value v) auto
  have canopy: "Canopy \<le> current_of MAINNET_ACTIVATION_HEIGHTS h \<longleftrightarrow> 1046400 \<le> h"
    using mainnet_upgrade_from(2)[of h] by (simp add: not_less[symmetric])
  have recips: "map (\<lambda>(r, x). (r, numerator x)) (recipients (MAINNET_FUNDING_STREAMS ! 0)) =
        [(Ecc, 7), (ZcashFoundation, 5), (MajorGrants, 8)]"
      "map (\<lambda>(r, x). (r, numerator x)) (recipients (MAINNET_FUNDING_STREAMS ! 1)) = [(Deferred, 12), (MajorGrants, 8)]"
      "map (\<lambda>(r, x). (r, numerator x)) (recipients (MAINNET_FUNDING_STREAMS ! 2)) = [(Deferred, 12), (MajorGrants, 8)]"
    by (simp_all add: MAINNET_FUNDING_STREAMS_def new_funding_streams_def new_recipient_def)
  have tm: "try_map (\<lambda>(receiver, r). and_then (amount_mul non_negative s (int (numerator r))) (\<lambda>m.
       and_then (amount_div non_negative m (int FUNDING_STREAM_RECEIVER_DENOMINATOR)) (\<lambda>v. Ok (receiver, v)))) rs
      = Ok (map (\<lambda>(r, n). (r, s * int n div 100)) (map (\<lambda>(r, x). (r, numerator x)) rs))"
    if "\<forall>e\<in>set rs. numerator (snd e) \<le> 12" for rs
    using that by (induction rs) (auto simp: sv simp del: valid_range.simps)
  have small: "\<forall>e\<in>set (recipients (MAINNET_FUNDING_STREAMS ! i)). numerator (snd e) \<le> 12" if "i < 3" for i
    using that unfolding MAINNET_FUNDING_STREAMS_def new_funding_streams_def new_recipient_def
    by (auto simp: less_Suc_eq numeral_3_eq_3)
  have nz: "\<not> is_zero s" using assms by (simp add: is_zero_def)
  show ?thesis
    unfolding funding_stream_values_def mainnet_current and_then.simps canopy mainnet_streams
    using nz
    by (simp add: mainnet_shares_def recips tm[OF small] del: valid_range.simps map_map One_nat_def)
qed

lemma mainnet_first_halving:
  "halving_spec 10000 653600 840000 h < 1 \<longleftrightarrow> h < 1046400"
  by (auto simp: halving_spec_def div_eq_0_iff)

lemma founders_reward_mainnet:
  assumes "h < 2 ^ 32"
  shows "founders_reward Mainnet h = Ok (if h < 1046400 then int (mainnet_subsidy h) div 5 else 0)"
proof -
  have five: "int (mainnet_subsidy h) = 5 * (int (mainnet_subsidy h) div 5)" if "h < 1046400"
  proof -
    have "(1287200 + (h - 653600)) div 1680000 = 0" if "653600 \<le> h"
      using that \<open>h < 1046400\<close> by (simp add: div_eq_0_iff)
    then have "5 dvd mainnet_subsidy h"
      by (auto simp: mainnet_subsidy_def Let_def intro: dvd_mult2)
    then show ?thesis by (metis dvd_mult_div_cancel of_nat_dvd_iff of_nat_numeral)
  qed
  have b: "int (mainnet_subsidy h) \<le> 1250000000" using mainnet_subsidy_le[of h] by linarith
  then have q: "int (mainnet_subsidy h) div 5 \<le> 1250000000" by linarith
  have d: "div_exact (int (mainnet_subsidy h)) 5 = Ok (int (mainnet_subsidy h) div 5)" if "h < 1046400"
    using five[OF that] q
    by (simp add: div_exact_def trunc_div_def checked_def int_bounds)
  show ?thesis
    unfolding founders_reward_def main.halving_eq[OF assms] mainnet_current and_then.simps
      mainnet_first_halving mainnet_upgrade_from block_subsidy_mainnet[OF assms] zero_amount
    by (simp add: d)
qed

lemma miner_subsidy_mainnet:
  assumes "h < 2 ^ 32"
  shows "\<exists>m. miner_subsidy h Mainnet (int (mainnet_subsidy h)) = Ok m \<and> 80 * int (mainnet_subsidy h) \<le> 100 * m"
proof -
  define s where "s = int (mainnet_subsidy h)"
  have s: "0 \<le> s" "s \<le> 1250000000" using mainnet_subsidy_le[of h] by (auto simp: s_def)
  define fsv where "fsv = (if s = 0 then [] else map (\<lambda>(r, n). (r, s * int n div 100)) (mainnet_shares h))"
  have v: "funding_stream_values h Mainnet s = Ok fsv"
    using funding_stream_values_mainnet[of s h] s
    by (cases "s = 0") (auto simp: fsv_def funding_stream_values_def is_zero_def)
  define t where "t = sum_list (map snd fsv)"
  have shares: "100 * t \<le> (if 1046400 \<le> h then 20 else 0) * s"
    using s by (auto simp: t_def fsv_def mainnet_shares_def)
  have nn: "\<forall>x\<in>set (map snd fsv). 0 \<le> x"
    using s by (auto simp: fsv_def mainnet_shares_def)
  then have t0: "0 \<le> t" by (auto simp: t_def intro!: sum_list_nonneg)
  have sum: "amount_sum non_negative (map snd fsv) = Ok t"
    unfolding t_def by (rule amount_sum_nonneg[OF nn])
      (use shares s in \<open>auto simp: t_def[symmetric] money_defs split: if_splits\<close>)
  define fr where "fr = (if h < 1046400 then s div 5 else 0)"
  have fr: "founders_reward Mainnet h = Ok fr"
    by (simp only: founders_reward_mainnet[OF assms] fr_def s_def)
  have "0 \<le> fr" "5 * fr \<le> s" using s by (auto simp: fr_def)
  have bound: "100 * (fr + t) \<le> 20 * s" using shares s by (auto simp: fr_def split: if_splits)
  have 1: "amount_sub non_negative s fr = Ok (s - fr)"
    using s \<open>0 \<le> fr\<close> \<open>5 * fr \<le> s\<close>
    by (simp add: amount_sub_def checked_def try_from_i64_def validate_def contains_def money_defs int_bounds)
  have 2: "amount_sub non_negative (s - fr) t = Ok (s - fr - t)"
    using s bound t0 \<open>0 \<le> fr\<close>
    by (simp add: amount_sub_def checked_def try_from_i64_def validate_def contains_def money_defs int_bounds)
  have "miner_subsidy h Mainnet s = Ok (s - fr - t)"
    by (simp add: miner_subsidy_def fr v sum result_sub_def 1 2 del: valid_range.simps)
  then show ?thesis unfolding s_def[symmetric] using bound by (intro exI[of _ "s - fr - t"]) auto
qed

subsection \<open>Funding stream addresses\<close>

lemma address_period:
  assumes "(height_for_first_halving tcl net :: (height, 'e) outcome) = Ok first"
    and "network_post_blossom_halving_interval net = 1680000"
    and "h < 2 ^ 32" "first \<le> 1680000"
  shows "(funding_stream_address_period tcl h net :: (nat, 'e) outcome) =
    Ok ((h + (1680000 - first)) div 35000)"
proof -
  have w: "wrap_i64 (height_sub h first + 1680000) = int (h + (1680000 - first))"
    using assms(3,4) by (subst wrap_i64_exact) (auto simp: height_sub_def int_bounds of_nat_diff)
  have c: "i64_div 1680000 48 = Ok 35000" by (subst i64_div_pos) (simp_all add: int_bounds)
  have d: "i64_div (int (h + (1680000 - first))) 35000 = Ok (int ((h + (1680000 - first)) div 35000))"
    using assms(3) by (subst i64_div_pos) (auto simp: int_bounds zdiv_int)
  have b: "(h + (1680000 - first)) div 35000 < 2 ^ 32" using assms(3) by (simp; linarith)
  show ?thesis
    unfolding funding_stream_address_period_def funding_stream_address_change_interval_def assms(1,2)
      Let_def and_then.simps c w d
    using b by (simp add: checked_def int_bounds)
qed

text \<open>
  A stream whose recipients have enough addresses for its range has an address at every height of
  the range.
\<close>

lemma funding_address_defined:
  assumes first: "(height_for_first_halving tcl net :: (height, 'e) outcome) = Ok first" "first \<le> 1680000"
    and post: "network_post_blossom_halving_interval net = 1680000"
    and fs: "network_funding_streams net h = Some fs" "height_range fs = (a, b)" "b < 2 ^ 32"
    and r: "receiver \<noteq> Deferred" "recipient fs receiver = Some x"
    and enough: "Suc ((b - 1 + (1680000 - first)) div 35000) \<le>
       (a + (1680000 - first)) div 35000 + length (addresses x)"
  shows "\<exists>addr\<in>set (addresses x).
    (funding_stream_address tcl h net receiver :: (address option, 'e) outcome) = Ok (Some addr)"
proof -
  have h: "a \<le> h" "h < b" using fs(1,2)
    by (auto simp: network_funding_streams_def in_range_def find_Some_iff)
  define P where "P k = (k + (1680000 - first)) div 35000" for k :: nat
  have per: "(funding_stream_address_period tcl k net :: (nat, 'e) outcome) = Ok (P k)" if "k < 2 ^ 32" for k
    unfolding P_def by (rule address_period[OF first(1) post that first(2)])
  have mono: "P a \<le> P h" "P h \<le> P (b - 1)" unfolding P_def using h by (auto intro!: div_le_mono)
  have small: "P h < 2 ^ 31" using h fs(3) unfolding P_def by (simp; linarith)
  let ?i = "P h - P a"
  have i: "?i < length (addresses x)" using mono enough unfolding P_def by linarith
  have "u32_checked (1 + int (P h)) = Some (Suc (P h))" "u32_checked (int (Suc (P h)) - int (P a)) = Some (Suc ?i)"
    using small mono by (auto simp: u32_checked_def checked_def int_bounds)
  then have idx: "(funding_stream_address_index tcl h net receiver :: (nat option, 'e) outcome) = Ok (Some ?i)"
    using r fs(1,2) i h fs(3) per[of h] per[of a]
    by (simp add: funding_stream_address_index_def)
  have "(funding_stream_address tcl h net receiver :: (address option, 'e) outcome) = Ok (Some (addresses x ! ?i))"
    using idx fs(1) r(2) i by (simp add: funding_stream_address_def list_get_def)
  then show ?thesis using i by (intro bexI[of _ "addresses x ! ?i"]) auto
qed

lemma mainnet_first: "height_for_first_halving tcl Mainnet = Ok 1046400"
  using mainnet_activation(2) by (simp add: height_for_first_halving_def)

lemma testnet_first: "height_for_first_halving tcl (default_testnet tcl) = Ok 1116000"
proof -
  have "\<not> regtest_identity (the_params)" if "network_name the_params = ''Testnet''" for the_params
    using that by (simp add: regtest_identity_def)
  then show ?thesis
    by (simp add: height_for_first_halving_def is_regtest_eq parameters_default_eq TESTNET_FIRST_HALVING_def)
qed

definition enough_addresses :: "height \<Rightarrow> funding_streams \<Rightarrow> bool" where
  "enough_addresses first fs =
     (\<forall>(r, x)\<in>set (recipients fs). r \<noteq> Deferred \<longrightarrow>
        Suc ((snd (height_range fs) - 1 + (1680000 - first)) div 35000) \<le>
          (fst (height_range fs) + (1680000 - first)) div 35000 + length (addresses x))"

lemma mainnet_enough: "\<forall>fs\<in>set MAINNET_FUNDING_STREAMS. enough_addresses 1046400 fs \<and> snd (height_range fs) < 2 ^ 32"
  by (simp add: MAINNET_FUNDING_STREAMS_def enough_addresses_def new_funding_streams_def new_recipient_def
      MAINNET_POST_NU6_FUNDING_STREAM_START_RANGE_def MAINNET_POST_NU6_FUNDING_STREAM_START_HEIGHT_def
      POST_NU6_FUNDING_STREAM_NUM_BLOCKS_def MAINNET_FUNDING_STREAM_ECC_ADDRESSES_def
      MAINNET_FUNDING_STREAM_ZF_ADDRESSES_def MAINNET_FUNDING_STREAM_MG_ADDRESSES_def
      MAINNET_POST_NU6_FUNDING_STREAM_FPF_ADDRESSES_def MAINNET_POST_NU6_1_FUNDING_STREAM_FPF_ADDRESSES_def)

lemma testnet_enough: "\<forall>fs\<in>set TESTNET_FUNDING_STREAMS. enough_addresses 1116000 fs \<and> snd (height_range fs) < 2 ^ 32"
  by (simp add: TESTNET_FUNDING_STREAMS_def enough_addresses_def new_funding_streams_def new_recipient_def
      TESTNET_POST_NU6_FUNDING_STREAM_START_RANGE_def TESTNET_POST_NU6_FUNDING_STREAM_START_HEIGHT_def
      POST_NU6_FUNDING_STREAM_NUM_BLOCKS_def TESTNET_FUNDING_STREAM_ECC_ADDRESSES_def
      TESTNET_FUNDING_STREAM_ZF_ADDRESSES_def TESTNET_FUNDING_STREAM_MG_ADDRESSES_def
      TESTNET_POST_NU6_FUNDING_STREAM_FPF_ADDRESSES_def TESTNET_POST_NU6_1_FUNDING_STREAM_FPF_ADDRESSES_def)

lemma stream_address:
  assumes "(height_for_first_halving tcl net :: (height, 'e) outcome) = Ok first" "first \<le> 1680000"
    and "network_post_blossom_halving_interval net = 1680000"
    and "\<forall>fs\<in>set (all_funding_streams net). enough_addresses first fs \<and> snd (height_range fs) < 2 ^ 32"
    and "network_funding_streams net h = Some fs" "receiver \<noteq> Deferred" "recipient fs receiver = Some x"
  shows "\<exists>addr\<in>set (addresses x).
    (funding_stream_address tcl h net receiver :: (address option, 'e) outcome) = Ok (Some addr)"
proof -
  have "fs \<in> set (all_funding_streams net)"
    using assms(5) by (auto simp: network_funding_streams_def find_Some_iff)
  moreover have "(receiver, x) \<in> set (recipients fs)"
    using assms(7) by (simp add: recipient_def map_of_SomeD)
  ultimately show ?thesis
    using assms(4,6) surjective_pairing[of "height_range fs"]
    by (intro funding_address_defined[OF assms(1-3,5) _ _ assms(6,7), of "fst (height_range fs)" "snd (height_range fs)"])
      (auto simp: enough_addresses_def)
qed

subsection \<open>Properties\<close>

text \<open>
  C1. The Mainnet issuance never exceeds the money supply: at every height the block subsidy is
  the one of the specification, and the subsidies of any number of blocks from genesis on add up to
  at most \<open>MAX_MONEY\<close>.
\<close>

theorem mainnet_issuance_capped:
  assumes "n \<le> 2 ^ 32"
  shows "(\<forall>h<n. block_subsidy h Mainnet = Ok (int (mainnet_subsidy h))) \<and>
    (\<Sum>h<n. int (mainnet_subsidy h)) \<le> MAX_MONEY"
proof
  show "\<forall>h<n. block_subsidy h Mainnet = Ok (int (mainnet_subsidy h))"
    using assms by (auto intro: block_subsidy_mainnet)
  have "(\<Sum>h<n. int (mainnet_subsidy h)) = int (\<Sum>h<n. mainnet_subsidy h)" by simp
  then show "(\<Sum>h<n. int (mainnet_subsidy h)) \<le> MAX_MONEY"
    using mainnet_supply[of n] by (simp add: money_defs del: of_nat_sum)
qed

theorem mainnet_issuance_capped_witness:
  "block_subsidy 1046400 Mainnet = Ok 312500000 \<and>
   (\<Sum>h<1046401. int (mainnet_subsidy h)) \<le> MAX_MONEY"
proof -
  have c: "(\<forall>h<1046401. block_subsidy h Mainnet = Ok (int (mainnet_subsidy h))) \<and>
      (\<Sum>h<1046401. int (mainnet_subsidy h)) \<le> MAX_MONEY"
    by (rule mainnet_issuance_capped) simp
  then have "block_subsidy 1046400 Mainnet = Ok (int (mainnet_subsidy 1046400))" by simp
  then show ?thesis using c by (simp add: mainnet_subsidy_def del: of_nat_sum sum.lessThan_Suc)
qed

text \<open>
  C2. The Mainnet subsidy is divided without loss: at every height the miner subsidy, the founders
  reward and the funding streams are all computed without error or panic, none is negative, they
  add up to the block subsidy, and the miner keeps at least 80 percent of it.
\<close>

theorem mainnet_subsidy_divided:
  assumes "h < 2 ^ 32"
  shows "\<exists>s m fr fsv fs. block_subsidy h Mainnet = Ok s \<and> miner_subsidy h Mainnet s = Ok m \<and>
    (founders_reward Mainnet h :: amount amount_result) = Ok fr \<and>
    funding_stream_values h Mainnet s = Ok fsv \<and> amount_sum non_negative (map snd fsv) = Ok fs \<and>
    m + fr + fs = s \<and> 0 \<le> fr \<and> 80 * s \<le> 100 * m"
proof -
  obtain m where m: "miner_subsidy h Mainnet (int (mainnet_subsidy h)) = Ok m"
      "80 * int (mainnet_subsidy h) \<le> 100 * m"
    using miner_subsidy_mainnet[OF assms] by blast
  obtain fr fsv where "(founders_reward Mainnet h :: amount amount_result) = Ok fr"
      "funding_stream_values h Mainnet (int (mainnet_subsidy h)) = Ok fsv"
      "amount_sum non_negative (map snd fsv) = Ok (int (mainnet_subsidy h) - fr - m)"
    using miner_subsidy_conserves[OF m(1)] by blast
  moreover from this have "0 \<le> fr" by (auto simp: founders_reward_mainnet[OF assms] split: if_splits)
  ultimately show ?thesis
    using m block_subsidy_mainnet[OF assms]
    by (intro exI[of _ "int (mainnet_subsidy h)"] exI[of _ m] exI[of _ fr] exI[of _ fsv]
        exI[of _ "int (mainnet_subsidy h) - fr - m"]) simp
qed

theorem mainnet_subsidy_divided_witness:
  "\<exists>s m fr fsv fs. block_subsidy 3000000 Mainnet = Ok s \<and> miner_subsidy 3000000 Mainnet s = Ok m \<and>
    (founders_reward Mainnet 3000000 :: amount amount_result) = Ok fr \<and>
    funding_stream_values 3000000 Mainnet s = Ok fsv \<and> amount_sum non_negative (map snd fsv) = Ok fs \<and>
    m + fr + fs = s \<and> 0 \<le> fr \<and> 80 * s \<le> 100 * m"
  by (rule mainnet_subsidy_divided) simp

text \<open>
  C11. On Mainnet and on the default Testnet the height computed for a halving is the first one of
  that halving: its halving index is the given one, and every lower height has a smaller index.
\<close>

theorem height_for_halving_is_first:
  assumes "net \<in> {Mainnet, default_testnet tcl}" "0 < k" "height_for_halving k net = Some h"
  shows "halving h net = Ok k \<and> (\<forall>g<h. \<exists>i<k. halving g net = Ok i)"
proof (intro conjI allI impI)
  have B: "653600 \<le> k * 840000" "584000 \<le> k * 840000" using assms(2) by auto
  show "halving h net = Ok k"
    using assms main.height_for_halving_first(1)[OF assms(2) B(1)]
      test.height_for_halving_first(1)[OF assms(2) B(2), of tcl] by auto
  show "\<exists>i<k. halving g net = Ok i" if "g < h" for g
  proof (cases "net = Mainnet")
    case True
    have "g < 2 ^ 32"
      using main.height_for_halving_eq(2)[OF assms(2) B(1)] assms(3) True that by (simp add: HEIGHT_MAX_def)
    then show ?thesis
      using main.height_for_halving_first(2)[OF assms(2) B(1) _ that] assms(3) True
      by (auto simp: main.halving_eq)
  next
    case False
    then have t: "net = default_testnet tcl" using assms(1) by simp
    have "g < 2 ^ 32"
      using test.height_for_halving_eq(2)[OF assms(2) B(2), of tcl h] assms(3) t that
      by (simp add: HEIGHT_MAX_def)
    then show ?thesis
      using test.height_for_halving_first(2)[OF assms(2) B(2) _ that, of tcl] assms(3) t
      by (auto simp: test.halving_eq)
  qed
qed

theorem height_for_halving_is_first_witness:
  "height_for_halving 1 Mainnet = Some 1046400 \<and> halving 1046400 Mainnet = Ok 1 \<and>
   (\<exists>i<1. halving 1046399 Mainnet = Ok i)"
proof -
  have h: "height_for_halving 1 Mainnet = Some 1046400"
    using mainnet_activation(1) wrap_i64_exact[of 186400]
    by (simp add: height_for_halving_def subsidy_constants checked_def int_bounds
        height_try_from_u32_def HEIGHT_MAX_def)
  show ?thesis
    using h height_for_halving_is_first[of Mainnet "[]" 1 1046400]
    by (auto elim!: allE[of _ 1046399])
qed

definition late_blossom_network :: network where
  "late_blossom_network =
     to_network_unchecked ((default_builder [])\<lparr>pb_activation_heights := [(0, Genesis), (2000000, Blossom)]\<rparr>)"

text \<open>
  C17. On a configured network whose first halving is before Blossom the computed height is too
  late by the slow start shift, because the code adds the shift to both parts of the sum: with
  Blossom at height 2000000, which the builder accepts, block 850000 already has halving index 1,
  but the height computed for halving 1 is 860000.
\<close>

theorem height_for_halving_late_before_blossom:
  "with_activation_heights (no_activation_heights\<lparr>c_blossom := Some 2000000\<rparr>) (default_builder []) =
     Ok ((default_builder [])\<lparr>pb_activation_heights := [(0, Genesis), (2000000, Blossom)]\<rparr>) \<and>
   height_for_halving 1 late_blossom_network = Some 860000 \<and>
   halving 850000 late_blossom_network = Ok 1"
proof (intro conjI)
  show "with_activation_heights (no_activation_heights\<lparr>c_blossom := Some 2000000\<rparr>) (default_builder []) =
     Ok ((default_builder [])\<lparr>pb_activation_heights := [(0, Genesis), (2000000, Blossom)]\<rparr>)"
    using bt_below_1[OF testnet_schedule_valid]
    by (simp add: with_activation_heights_def default_builder_def configured_pairs_def
        configured_slots_def no_activation_heights_def List.map_filter_def HEIGHT_MAX_def
        height_try_from_u32_def Let_def bt_extend_def bt_collect_def upgrades_def)
  have l: "activation_list late_blossom_network = [(0, Genesis), (2000000, Blossom)]"
      "network_slow_start_shift late_blossom_network = 10000"
      "network_pre_blossom_halving_interval late_blossom_network = 840000"
      "network_post_blossom_halving_interval late_blossom_network = 1680000"
    by (simp_all add: late_blossom_network_def to_network_unchecked_def finish_def default_builder_def
        subsidy_constants)
  have b: "activation_height Blossom late_blossom_network = Some 2000000"
    unfolding l by (subst upgrade_activation_height_first) (simp_all add: upgrade_ord)
  show "height_for_halving 1 late_blossom_network = Some 860000"
    using wrap_i64_exact[of "- 1160000"]
    by (simp add: height_for_halving_def b l(2,3) subsidy_constants checked_def int_bounds
        height_try_from_u32_def HEIGHT_MAX_def)
  show "halving 850000 late_blossom_network = Ok 1"
    by (simp add: halving_def b l(2,3) Let_def i64_div_pos height_sub_def checked_def int_bounds)
qed

text \<open>
  C12. Every funding stream of Mainnet and of the default Testnet pays a listed address: whenever a
  stream with a recipient other than the deferred pool is active at a height, the address lookup
  returns one of that recipient's addresses and its index assertion holds.
\<close>

theorem funding_stream_addresses_suffice:
  assumes "net \<in> {Mainnet, default_testnet tcl}" "network_funding_streams net h = Some fs"
    and "receiver \<noteq> Deferred" "recipient fs receiver = Some x"
  shows "\<exists>addr\<in>set (addresses x). funding_stream_address tcl h net receiver = Ok (Some addr)"
proof (cases "net = Mainnet")
  case True
  then show ?thesis
    using assms mainnet_enough mainnet_first
    by (intro stream_address[of tcl net 1046400]) (auto simp: subsidy_constants)
next
  case False
  then have t: "net = default_testnet tcl" using assms(1) by simp
  have "all_funding_streams net = TESTNET_FUNDING_STREAMS"
    by (simp add: t finish_def default_builder_def)
  then show ?thesis
    using assms testnet_enough testnet_first default_testnet_fields(4)
    by (intro stream_address[of tcl net 1116000]) (simp_all add: t)
qed

theorem funding_stream_addresses_suffice_witness:
  "\<exists>addr\<in>set (replicate 36 ''t3cFfPt1Bcvgez9ZbMBFWeZsskxTkPzGCow'').
     funding_stream_address [] 3200000 Mainnet MajorGrants = Ok (Some addr)"
proof -
  have fs: "network_funding_streams Mainnet 3200000 = Some (MAINNET_FUNDING_STREAMS ! 2)"
    by (simp add: mainnet_streams)
  have r: "recipient (MAINNET_FUNDING_STREAMS ! 2) MajorGrants =
      Some (new_recipient 8 (replicate 36 ''t3cFfPt1Bcvgez9ZbMBFWeZsskxTkPzGCow''))"
    by (simp add: MAINNET_FUNDING_STREAMS_def recipient_def new_funding_streams_def
        MAINNET_POST_NU6_1_FUNDING_STREAM_FPF_ADDRESSES_def)
  show ?thesis
    using funding_stream_addresses_suffice[OF _ fs _ r, of "[]"] by (simp add: new_recipient_def)
qed

end
