(* ===== verification/Regtest_Network.thy ===== *)
theory Regtest_Network
  imports Subsidy
begin

section \<open>Regtest (zebra-chain/src/parameters/network/testnet.rs)\<close>

text \<open>
  \<open>Parameters::new_regtest\<close> with the optional extension of the funding stream addresses, which the
  subsidy component defines. The extension asks whether the network is Regtest, and that question
  compares with the Regtest of the default parameters, which extends nothing: the definition \<open>default_regtest\<close>
  of \<open>Network_Params\<close>.
\<close>

definition new_regtest ::
    "checkpoint_source \<Rightarrow> checkpoint_list \<Rightarrow> regtest_parameters \<Rightarrow> testnet_parameters builder_result" where
  "new_regtest F tcl p =
     and_then (regtest_builder F tcl p) (\<lambda>parameters.
     and_then (if rp_extend_funding_stream_addresses_as_required p = Some True
               then extend_funding_streams tcl parameters else Ok parameters) (\<lambda>parameters.
       Ok (finish_regtest parameters)))"

lemma new_regtest_default: "new_regtest F tcl default_regtest_parameters = default_regtest tcl"
proof -
  obtain b where "\<forall>F. regtest_builder F tcl default_regtest_parameters = Ok b"
    by (rule regtest_builder_default)
  then show ?thesis by (simp add: new_regtest_def default_regtest_def default_regtest_parameters_def)
qed

lemma extend_keeps:
  "(extend_funding_streams tcl b :: (parameters_builder, 'e) outcome) = Ok b' \<Longrightarrow> \<exists>f. b' = b\<lparr>pb_funding_streams := f\<rparr>"
  by (auto simp: extend_funding_streams_def Let_def and_then_Ok_iff)

lemma built_regtest_streams: "built_regtest (b\<lparr>pb_funding_streams := f\<rparr>) = built_regtest b"
  by (simp add: built_regtest_def pb_regtest_def)

lemma new_regtest_identity:
  assumes "new_regtest F tcl p = Ok q"
  shows "regtest_identity q \<and> valid_schedule (activation_heights q)"
proof -
  obtain b b' where b: "regtest_builder F tcl p = Ok b" and q: "q = finish_regtest b'"
    and e: "(if rp_extend_funding_stream_addresses_as_required p = Some True
      then extend_funding_streams tcl b else Ok b) = (Ok b' :: parameters_builder builder_result)"
    using assms unfolding new_regtest_def and_then_Ok_iff outcome.inject by blast
  have "built_regtest b'"
    using regtest_builder_built[OF b] e by (auto simp: built_regtest_streams split: if_splits dest!: extend_keeps)
  then show ?thesis unfolding q by (rule finish_regtest_identity)
qed

text \<open>
  C15. A network built with any Regtest configuration is recognised as Regtest, whatever activation
  heights, funding streams, disbursements and checkpoints (also from a file) were configured, and
  whether or not the funding stream addresses were extended; recognising never panics, and the built
  network has a valid activation schedule.
\<close>

theorem regtest_recognised:
  assumes "new_regtest F tcl p = Ok q"
  shows "is_regtest tcl' q = Ok True \<and> kind tcl' (Testnet q) = Ok RegtestKind \<and>
    valid_schedule (activation_list (Testnet q))"
  using new_regtest_identity[OF assms] by (simp_all add: is_regtest_eq kind_def)

text \<open>A configuration that reads its checkpoints from a file and extends the funding streams.\<close>

definition sample_files :: checkpoint_source where
  "sample_files = \<lparr>read_to_string = \<lambda>path. if path = ''checkpoints'' then Some ''0 genesis'' else None,
     from_hex = \<lambda>digits. if digits = ''genesis'' then Some (rev REGTEST_GENESIS_HASH) else None\<rparr>"

definition sample_regtest :: regtest_parameters where
  "sample_regtest = default_regtest_parameters\<lparr>rp_checkpoints := Some (CheckpointsPath ''checkpoints''),
     rp_extend_funding_stream_addresses_as_required := Some True\<rparr>"

lemma sample_files_parse:
  "checkpoints_from_str (from_hex sample_files) ''0 genesis'' = Ok [(0, REGTEST_GENESIS_HASH)]"
  using from_genesis_list[OF regtest_genesis_not_null]
  by (simp add: checkpoints_from_str_def checkpoint_height_and_hash_def height_from_str_def parse_u32_def
      digit_value_def u32_max_def hash_from_str_def sample_files_def)

theorem regtest_recognised_witness:
  "\<exists>q. new_regtest sample_files [] sample_regtest = Ok q \<and> is_regtest [] q = Ok True \<and>
     kind [] (Testnet q) = Ok RegtestKind \<and> valid_schedule (activation_list (Testnet q))"
proof -
  obtain b where b: "pb_genesis_hash b = REGTEST_GENESIS_HASH" "pb_funding_streams b = []"
    "\<forall>F c e. regtest_builder F [] (default_regtest_parameters\<lparr>rp_checkpoints := c,
       rp_extend_funding_stream_addresses_as_required := e\<rparr>) =
     with_checkpoints F [] (unwrap_or (DefaultCheckpoints False) c) b" by (rule regtest_builder_checkpoints)
  let ?b = "b\<lparr>pb_checkpoints := [(0, REGTEST_GENESIS_HASH)]\<rparr>"
  have "read_to_string sample_files ''checkpoints'' = Some ''0 genesis''" by (simp add: sample_files_def)
  then have "regtest_builder sample_files [] sample_regtest = Ok ?b"
    unfolding sample_regtest_def b(3)[rule_format] by (simp add: unwrap_or_def with_checkpoints_def sample_files_parse)
  moreover have "extend_funding_streams [] ?b = (Ok ?b :: parameters_builder builder_result)"
    using b(2) by (simp add: extend_funding_streams_def Let_def)
  ultimately have q: "new_regtest sample_files [] sample_regtest = Ok (finish_regtest ?b)"
    by (simp add: new_regtest_def sample_regtest_def)
  show ?thesis using q regtest_recognised[OF q, of "[]"] by blast
qed

end
