(* ===== verification/Transparent.thy ===== *)
theory Transparent
  imports Value_Balance Block_Height
begin

section \<open>Transparent inputs and outputs (zebra-chain/src/transparent.rs and its modules)\<close>

text \<open>
  Outpoints, inputs, outputs and unspent outputs, the coinbase script with its block height, and the
  consensus encoding of all of them. The script library the code calls is outside the repository:
  what the code uses of it is the record \<open>script_lib\<close>, and the locale \<open>coinbase_scripts\<close> states the
  documented encoding of numbers that the round trip of coinbase inputs relies on.
\<close>

type_synonym tx_hash = bytes
type_synonym script = bytes

record outpoint =
  op_hash :: tx_hash
  op_index :: nat

datatype input =
    PrevOut (pv_outpoint: outpoint) (unlock_script: script) (pv_sequence: nat)
  | Coinbase (cb_height: height) (cb_data: bytes) (cb_sequence: nat)

record tx_output =
  out_value :: amount
  lock_script :: script

record utxo =
  ut_output :: tx_output
  ut_height :: height
  ut_from_coinbase :: bool

record ordered_utxo =
  ou_utxo :: utxo
  ou_tx_index_in_block :: nat

datatype coinbase_spend_restriction =
    DisallowCoinbaseSpend
  | CheckCoinbaseMaturity (spend_height: height)

type_synonym 'v outpoint_map = "outpoint \<Rightarrow> 'v option"

definition MIN_TRANSPARENT_COINBASE_MATURITY :: nat where
  "MIN_TRANSPARENT_COINBASE_MATURITY = 100"

definition ONE_THIRD_DUST_THRESHOLD_RATE :: nat where
  "ONE_THIRD_DUST_THRESHOLD_RATE = 100"

text \<open>The parts of the script and transparent crates the code calls.\<close>

record script_lib =
  push_num :: "nat \<Rightarrow> bytes"
  MIN_COINBASE_SCRIPT_LEN :: nat
  MAX_COINBASE_SCRIPT_LEN :: nat

subsection \<open>Operations\<close>

definition outpoint_from_usize :: "tx_hash \<Rightarrow> nat \<Rightarrow> (outpoint, 'e) outcome" where
  "outpoint_from_usize h i = (if i < 2 ^ 32 then Ok \<lparr>op_hash = h, op_index = i\<rparr> else Panic)"

fun miner_data :: "input \<Rightarrow> bytes option" where
  "miner_data (Coinbase h d s) = Some d"
| "miner_data (PrevOut p u s) = None"

definition GENESIS_COINBASE_SCRIPT_SIG :: bytes where
  "GENESIS_COINBASE_SCRIPT_SIG = [
     4, 255, 255, 7, 31, 1, 4, 69, 90, 99, 97, 115, 104, 48, 98, 57, 99, 52, 101, 101, 102, 56, 98,
     55, 99, 99, 52, 49, 55, 101, 101, 53, 48, 48, 49, 101, 51, 53, 48, 48, 57, 56, 52, 98, 54, 102,
     101, 97, 51, 53, 54, 56, 51, 97, 55, 99, 97, 99, 49, 52, 49, 97, 48, 52, 51, 99, 52, 50, 48,
     54, 52, 56, 51, 53, 100, 51, 52]"

fun coinbase_script :: "script_lib \<Rightarrow> input \<Rightarrow> bytes option" where
  "coinbase_script L (PrevOut p u s) = None"
| "coinbase_script L (Coinbase h d s) =
     (if is_min h then
        (if d = GENESIS_COINBASE_SCRIPT_SIG then Some GENESIS_COINBASE_SCRIPT_SIG else None)
      else Some (push_num L h @ d))"

fun input_sequence :: "input \<Rightarrow> nat" where
  "input_sequence (PrevOut p u s) = s"
| "input_sequence (Coinbase h d s) = s"

fun input_outpoint :: "input \<Rightarrow> outpoint option" where
  "input_outpoint (PrevOut p u s) = Some p"
| "input_outpoint (Coinbase h d s) = None"

fun value_from_outputs :: "input \<Rightarrow> tx_output outpoint_map \<Rightarrow> (amount, 'e) outcome" where
  "value_from_outputs (PrevOut p u s) outputs = and_then (expect (outputs p)) (\<lambda>out. Ok (out_value out))"
| "value_from_outputs (Coinbase h d s) outputs = expect_ok (amount_zero (valid_range NonNegative))"

definition input_value :: "input \<Rightarrow> utxo outpoint_map \<Rightarrow> (amount, 'e) outcome" where
  "input_value i utxos =
     (case input_outpoint i of
        Some p \<Rightarrow> and_then (expect (utxos p)) (\<lambda>u. value_from_outputs i [p \<mapsto> ut_output u])
      | None \<Rightarrow> value_from_outputs i Map.empty)"

definition value_from_ordered_utxos :: "input \<Rightarrow> ordered_utxo outpoint_map \<Rightarrow> (amount, 'e) outcome" where
  "value_from_ordered_utxos i utxos =
     (case input_outpoint i of
        Some p \<Rightarrow> and_then (expect (utxos p)) (\<lambda>u. value_from_outputs i [p \<mapsto> ut_output (ou_utxo u)])
      | None \<Rightarrow> value_from_outputs i Map.empty)"

definition utxo_from_location :: "tx_output \<Rightarrow> height \<Rightarrow> nat \<Rightarrow> utxo" where
  "utxo_from_location out h tx_index =
     \<lparr>ut_output = out, ut_height = h, ut_from_coinbase = (tx_index = 0)\<rparr>"

definition ordered_utxo_new :: "tx_output \<Rightarrow> height \<Rightarrow> nat \<Rightarrow> ordered_utxo" where
  "ordered_utxo_new out h tx_index =
     \<lparr>ou_utxo = \<lparr>ut_output = out, ut_height = h, ut_from_coinbase = (tx_index = 0)\<rparr>,
      ou_tx_index_in_block = tx_index\<rparr>"

definition utxos_from_ordered_utxos :: "ordered_utxo outpoint_map \<Rightarrow> utxo outpoint_map" where
  "utxos_from_ordered_utxos m = (\<lambda>p. map_option ou_utxo (m p))"

definition outputs_from_utxos :: "utxo outpoint_map \<Rightarrow> tx_output outpoint_map" where
  "outputs_from_utxos m = (\<lambda>p. map_option ut_output (m p))"

subsection \<open>Encoding (serialize.rs, script.rs)\<close>

definition script_serialize :: "script writer" where
  "script_serialize s = zcash_serialize_bytes s"

definition script_deserialize :: "script reader" where
  "script_deserialize bs = bytes_deserialize bs"

definition write_u32 :: "nat writer" where
  "write_u32 n = Ok (le_bytes 4 n)"

definition read_u32 :: "nat reader" where
  "read_u32 = read_le 4"

definition outpoint_serialize :: "outpoint writer" where
  "outpoint_serialize p =
     and_then (write_u32 (op_index p)) (\<lambda>i. Ok (op_hash p @ i))"

definition outpoint_deserialize :: "outpoint reader" where
  "outpoint_deserialize bs =
     and_then (read_exact 32 bs) (\<lambda>(h, bs).
     and_then (read_u32 bs) (\<lambda>(i, bs). Ok (\<lparr>op_hash = h, op_index = i\<rparr>, bs)))"

text \<open>
  The candidate height is the zero-extended little-endian value of at most five bytes, so the
  conversion to a signed 64-bit integer keeps it.
\<close>

definition coinbase_height_candidate :: "bytes \<Rightarrow> (nat \<times> nat, serialization_error) outcome" where
  "coinbase_height_candidate script_sig =
     (case script_sig of
        [] \<Rightarrow> Err (Parse ''Empty coinbase script'')
      | b # rest \<Rightarrow>
          if 0x51 \<le> unat b \<and> unat b \<le> 0x60 then Ok (unat b - 0x50, 1)
          else if 1 \<le> unat b \<and> unat b \<le> 5 then
            (if length rest < unat b then Err (Parse ''Coinbase height push truncated'')
             else Ok (le_value (take (unat b) rest), 1 + unat b))
          else Err (Parse ''Invalid coinbase script prefix''))"

definition parse_coinbase_height :: "script_lib \<Rightarrow> bytes \<Rightarrow> (height \<times> bytes, serialization_error) outcome" where
  "parse_coinbase_height L script_sig =
     and_then (coinbase_height_candidate script_sig) (\<lambda>(h, len).
       if length script_sig < len then Err (Parse ''Coinbase script too short'')
       else if take len script_sig \<noteq> push_num L h
         then Err (Parse ''Non-canonical coinbase height encoding'')
       else if \<not> h < 2 ^ 32 then Err (Parse ''Negative coinbase height'')
       else and_then (ok_or (Parse ''Coinbase height exceeds Height::MAX'') (height_try_from_u32 h))
         (\<lambda>height. Ok (height, drop len script_sig)))"

fun input_serialize :: "script_lib \<Rightarrow> input writer" where
  "input_serialize L (PrevOut p u s) =
     and_then (outpoint_serialize p) (\<lambda>a.
     and_then (script_serialize u) (\<lambda>b.
     and_then (write_u32 s) (\<lambda>c. Ok (a @ b @ c))))"
| "input_serialize L (Coinbase h d s) =
     and_then (write_u32 0xffffffff) (\<lambda>a.
     and_then (ok_or Io (coinbase_script L (Coinbase h d s))) (\<lambda>sig.
     and_then (zcash_serialize_bytes sig) (\<lambda>b.
     and_then (write_u32 s) (\<lambda>c. Ok (replicate 32 0 @ a @ b @ c)))))"

definition coinbase_input_deserialize :: "script_lib \<Rightarrow> input reader" where
  "coinbase_input_deserialize L bs =
     and_then (read_u32 bs) (\<lambda>(index, bs).
       if index \<noteq> 0xffffffff then Err (Parse ''Wrong index in coinbase'')
       else and_then (compact_size_message_deserialize bs) (\<lambda>(len, bs).
         if len < MIN_COINBASE_SCRIPT_LEN L then Err (Parse ''Coinbase script is too short'')
         else if MAX_COINBASE_SCRIPT_LEN L < len then Err (Parse ''Coinbase script is too long'')
         else and_then (zcash_deserialize_bytes_external_count len bs) (\<lambda>(script_sig, bs).
           and_then (if script_sig = GENESIS_COINBASE_SCRIPT_SIG
                     then Ok (HEIGHT_MIN, GENESIS_COINBASE_SCRIPT_SIG)
                     else parse_coinbase_height L script_sig) (\<lambda>(height, data).
           and_then (read_u32 bs) (\<lambda>(sequence, bs). Ok (Coinbase height data sequence, bs))))))"

definition prevout_deserialize :: "tx_hash \<Rightarrow> input reader" where
  "prevout_deserialize hash bs =
     and_then (read_u32 bs) (\<lambda>(index, bs).
     and_then (script_deserialize bs) (\<lambda>(script, bs).
     and_then (read_u32 bs) (\<lambda>(sequence, bs).
       Ok (PrevOut \<lparr>op_hash = hash, op_index = index\<rparr> script sequence, bs))))"

definition input_deserialize :: "script_lib \<Rightarrow> input reader" where
  "input_deserialize L bs =
     and_then (read_exact 32 bs) (\<lambda>(hash, bs).
       if hash = replicate 32 0 then coinbase_input_deserialize L bs
       else prevout_deserialize hash bs)"

definition output_serialize :: "tx_output writer" where
  "output_serialize out =
     and_then (non_negative_serialize (out_value out)) (\<lambda>a.
     and_then (script_serialize (lock_script out)) (\<lambda>b. Ok (a @ b)))"

definition output_deserialize :: "tx_output reader" where
  "output_deserialize bs =
     and_then (non_negative_deserialize bs) (\<lambda>(v, bs).
     and_then (script_deserialize bs) (\<lambda>(s, bs). Ok (\<lparr>out_value = v, lock_script = s\<rparr>, bs)))"

text \<open>
  An output is dust when it is worth less than three times the fee rate of spending it. The sizes
  and the products are \<open>u32\<close>, checked for overflow.
\<close>

definition is_dust :: "tx_output \<Rightarrow> (bool, serialization_error) outcome" where
  "is_dust out =
     and_then (expect_ok (output_serialize out)) (\<lambda>b.
     and_then (expect (checked 0 u32_max (int (length b)))) (\<lambda>output_size.
     and_then (expect (checked 0 u32_max (output_size + 148))) (\<lambda>n.
     and_then (expect (checked 0 u32_max (int ONE_THIRD_DUST_THRESHOLD_RATE * n))) (\<lambda>n.
     and_then (expect (checked 0 u32_max (3 * (n div 1000)))) (\<lambda>threshold.
     Ok (out_value out < threshold))))))"

subsection \<open>Codecs\<close>

interpretation u32c: zcash_codec write_u32 read_u32 "\<lambda>n. n < 2 ^ 32"
  by unfold_locales (auto simp: write_u32_def read_u32_def rust_simps)

interpretation hash32: zcash_codec Ok "read_exact 32" "\<lambda>h. length h = 32"
  by unfold_locales (auto simp: rust_simps)

interpretation scriptc: zcash_codec script_serialize script_deserialize
  "\<lambda>s. length s \<le> MAX_U8_ALLOCATION"
  unfolding script_serialize_def script_deserialize_def by (rule bytevec.zcash_codec_axioms)

definition valid_output :: "tx_output \<Rightarrow> bool" where
  "valid_output out \<longleftrightarrow>
     contains (valid_range NonNegative) (out_value out) \<and> length (lock_script out) \<le> MAX_U8_ALLOCATION"

definition valid_outpoint :: "outpoint \<Rightarrow> bool" where
  "valid_outpoint p \<longleftrightarrow> length (op_hash p) = 32 \<and> op_index p < 2 ^ 32"

interpretation out_fields: codec_pair non_negative_serialize non_negative_deserialize
  "contains (valid_range NonNegative)" script_serialize script_deserialize
  "\<lambda>s. length s \<le> MAX_U8_ALLOCATION" ..

interpretation outputc: zcash_codec output_serialize output_deserialize valid_output
  by (rule codec_record[OF out_fields.both.zcash_codec_axioms,
        where f = "\<lambda>out. (out_value out, lock_script out)"
          and g = "\<lambda>y. \<lparr>out_value = fst y, lock_script = snd y\<rparr>"])
    (simp_all add: output_serialize_def pair_serialize_def output_deserialize_def
      pair_deserialize_def and_then_assoc split_def valid_output_def)

interpretation outpoint_fields: codec_pair Ok "read_exact 32" "\<lambda>h. length h = 32"
  write_u32 read_u32 "\<lambda>n. n < 2 ^ 32" ..

interpretation outpointc: zcash_codec outpoint_serialize outpoint_deserialize valid_outpoint
  by (rule codec_record[OF outpoint_fields.both.zcash_codec_axioms,
        where f = "\<lambda>p. (op_hash p, op_index p)"
          and g = "\<lambda>y. \<lparr>op_hash = fst y, op_index = snd y\<rparr>"])
    (simp_all add: outpoint_serialize_def pair_serialize_def outpoint_deserialize_def
      pair_deserialize_def and_then_assoc split_def valid_outpoint_def)

text \<open>Vectors of outputs are limited by the number of outputs that fit in a block.\<close>

definition MAX_BLOCK_BYTES :: nat where
  "MAX_BLOCK_BYTES = 2000000"

definition MIN_TRANSPARENT_INPUT_SIZE :: nat where
  "MIN_TRANSPARENT_INPUT_SIZE = 32 + 4 + 4 + 1"

definition MIN_TRANSPARENT_OUTPUT_SIZE :: nat where
  "MIN_TRANSPARENT_OUTPUT_SIZE = 8 + 1"

definition input_max_allocation :: nat where
  "input_max_allocation = MAX_BLOCK_BYTES div MIN_TRANSPARENT_INPUT_SIZE"

definition output_max_allocation :: nat where
  "output_max_allocation = MAX_BLOCK_BYTES div MIN_TRANSPARENT_OUTPUT_SIZE"

interpretation outputs: vec_codec output_serialize output_deserialize valid_output
  output_max_allocation ..

subsection \<open>Coinbase scripts\<close>

lemma le_bytes_4:
  "le_bytes 4 v = [of_nat v, of_nat (v div 256), of_nat (v div 65536), of_nat (v div 16777216)]"
proof -
  have "le_bytes (Suc (Suc (Suc (Suc 0)))) v =
      [of_nat v, of_nat (v div 256), of_nat (v div 65536), of_nat (v div 16777216)]"
    by (simp add: div_mult2_eq[symmetric])
  moreover have "Suc (Suc (Suc (Suc 0))) = (4 :: nat)" by simp
  ultimately show ?thesis by metis
qed

text \<open>
  The documented encoding of the block height (BIP 34): one byte for the heights up to 16, otherwise
  the least number of bytes that keeps the sign bit clear, after their count.
\<close>

fun script_num_len :: "nat \<Rightarrow> nat" where
  "script_num_len n = (if n < 128 then 1 else Suc (script_num_len (n div 256)))"

definition bip34_height :: "nat \<Rightarrow> bytes" where
  "bip34_height h =
     (if h = 0 then [0]
      else if h \<le> 16 then [of_nat (0x50 + h)]
      else of_nat (script_num_len h) # le_bytes (script_num_len h) h)"

declare script_num_len.simps [simp del]

lemma script_num_len_pos: "0 < script_num_len n"
  by (subst script_num_len.simps) simp

lemma script_num_len_bound: "n < 256 ^ script_num_len n"
proof (induction n rule: script_num_len.induct)
  case (1 n)
  show ?case
  proof (cases "n < 128")
    case False
    have "n div 256 < 256 ^ script_num_len (n div 256)" using 1 False by simp
    then have "n < 256 * 256 ^ script_num_len (n div 256)" by (simp add: div_less_iff_less_mult mult.commute)
    with False show ?thesis by (subst script_num_len.simps) simp
  qed (simp add: script_num_len.simps)
qed

lemma script_num_len_le: "n < 128 * 256 ^ k \<Longrightarrow> script_num_len n \<le> Suc k"
proof (induction k arbitrary: n)
  case 0
  then show ?case by (simp add: script_num_len.simps)
next
  case (Suc k)
  have "n div 256 < 128 * 256 ^ k" using Suc.prems by (simp add: div_less_iff_less_mult mult_ac)
  with Suc.IH[of "n div 256"] show ?case by (subst script_num_len.simps) simp
qed

lemma script_num_len_height: "h \<le> HEIGHT_MAX \<Longrightarrow> script_num_len h \<le> 5"
  using script_num_len_le[of h 4] by (simp add: HEIGHT_MAX_def)

definition valid_coinbase :: "height \<Rightarrow> bytes \<Rightarrow> bool" where
  "valid_coinbase h d \<longleftrightarrow>
     (if h = 0 then d = GENESIS_COINBASE_SCRIPT_SIG
      else h \<le> HEIGHT_MAX \<and> 2 \<le> length (bip34_height h @ d) \<and> length (bip34_height h @ d) \<le> 100 \<and>
           bip34_height h @ d \<noteq> GENESIS_COINBASE_SCRIPT_SIG)"

fun valid_input :: "input \<Rightarrow> bool" where
  "valid_input (PrevOut p u s) \<longleftrightarrow>
     valid_outpoint p \<and> op_hash p \<noteq> replicate 32 0 \<and> length u \<le> MAX_U8_ALLOCATION \<and> s < 2 ^ 32"
| "valid_input (Coinbase h d s) \<longleftrightarrow> valid_coinbase h d \<and> s < 2 ^ 32"

lemma bip34_candidate:
  assumes "0 < h" "h \<le> HEIGHT_MAX"
  shows "coinbase_height_candidate (bip34_height h @ d) = Ok (h, length (bip34_height h))"
proof (cases "h \<le> 16")
  case True
  then have "unat (of_nat (0x50 + h) :: u8) = 0x50 + h" by (simp only: unat_u8_of_nat) simp
  then show ?thesis using True assms
    by (simp add: bip34_height_def coinbase_height_candidate_def del: of_nat_add)
next
  case False
  let ?n = "script_num_len h"
  have n: "1 \<le> ?n" "?n \<le> 5" using script_num_len_pos[of h] script_num_len_height[OF assms(2)] by simp_all
  then have u: "unat (of_nat ?n :: u8) = ?n" by (simp add: unat_u8_of_nat)
  show ?thesis
    using False assms n script_num_len_bound[of h]
    by (simp add: bip34_height_def coinbase_height_candidate_def u le_value_le_bytes)
qed

lemma candidate_bound:
  "coinbase_height_candidate s = Ok (h, len) \<Longrightarrow> h < 2 ^ 40 \<and> 1 \<le> len \<and> len \<le> length s"
proof -
  assume c: "coinbase_height_candidate s = Ok (h, len)"
  then obtain b rest where s: "s = b # rest"
    by (cases s) (simp_all add: coinbase_height_candidate_def)
  show ?thesis
  proof (cases "0x51 \<le> unat b \<and> unat b \<le> 0x60")
    case True
    then show ?thesis using c s by (auto simp: coinbase_height_candidate_def)
  next
    case False
    with c s have b: "1 \<le> unat b" "unat b \<le> 5" "unat b \<le> length rest"
        "h = le_value (take (unat b) rest)" "len = 1 + unat b"
      by (auto simp: coinbase_height_candidate_def split: if_splits)
    have "h < 256 ^ unat b" using b le_value_bound[of "take (unat b) rest"] by (simp add: min_absorb2)
    also have "\<dots> \<le> 256 ^ 5" using b(2) by (intro power_increasing) simp_all
    finally show ?thesis using b s by simp
  qed
qed

locale coinbase_scripts =
  fixes L :: script_lib
  assumes push_num_bip34: "h < 2 ^ 40 \<Longrightarrow> push_num L h = bip34_height h"
    and script_len: "MIN_COINBASE_SCRIPT_LEN L = 2" "MAX_COINBASE_SCRIPT_LEN L = 100"
begin

lemma parse_coinbase_height_bip34:
  assumes "0 < h" "h \<le> HEIGHT_MAX"
  shows "parse_coinbase_height L (bip34_height h @ d) = Ok (h, d)"
  using assms push_num_bip34[of h]
  by (simp add: parse_coinbase_height_def bip34_candidate height_try_from_u32_def HEIGHT_MAX_def)

lemma parse_coinbase_height_canonical:
  assumes "parse_coinbase_height L s = Ok (h, d)"
  shows "0 < h \<and> h \<le> HEIGHT_MAX \<and> s = bip34_height h @ d"
proof -
  from assms obtain len where c: "coinbase_height_candidate s = Ok (h, len)"
    and t: "take len s = push_num L h" "h \<le> HEIGHT_MAX" "d = drop len s"
    by (auto simp: parse_coinbase_height_def rust_simps height_try_from_u32_def split: if_splits)
  from candidate_bound[OF c] push_num_bip34[of h] t have s: "s = bip34_height h @ d"
    by (metis append_take_drop_id)
  have "h \<noteq> 0"
  proof
    assume "h = 0"
    with s have "s = 0 # d" by (simp add: bip34_height_def)
    with c show False by (simp add: coinbase_height_candidate_def)
  qed
  with s t show ?thesis by simp
qed
lemma coinbase_script_valid:
  assumes "valid_coinbase h d"
  shows "\<exists>sig. coinbase_script L (Coinbase h d s) = Some sig \<and> 2 \<le> length sig \<and> length sig \<le> 100 \<and>
     (if sig = GENESIS_COINBASE_SCRIPT_SIG then Ok (HEIGHT_MIN, GENESIS_COINBASE_SCRIPT_SIG)
      else parse_coinbase_height L sig) = Ok (h, d)"
proof (cases "h = 0")
  case True
  have "length GENESIS_COINBASE_SCRIPT_SIG = 77" by (simp add: GENESIS_COINBASE_SCRIPT_SIG_def)
  with True assms show ?thesis by (simp add: valid_coinbase_def is_min_def HEIGHT_MIN_def)
next
  case False
  then have h: "0 < h" "h \<le> HEIGHT_MAX" using assms by (simp_all add: valid_coinbase_def)
  then have "push_num L h = bip34_height h" by (intro push_num_bip34) (simp add: HEIGHT_MAX_def)
  with False h assms show ?thesis
    by (simp add: valid_coinbase_def is_min_def HEIGHT_MIN_def parse_coinbase_height_bip34)
qed

lemma coinbase_script_canonical:
  assumes "(if sig = GENESIS_COINBASE_SCRIPT_SIG then Ok (HEIGHT_MIN, GENESIS_COINBASE_SCRIPT_SIG)
      else parse_coinbase_height L sig) = Ok (h, d)" "2 \<le> length sig" "length sig \<le> 100"
  shows "valid_coinbase h d \<and> coinbase_script L (Coinbase h d s) = Some sig"
proof (cases "sig = GENESIS_COINBASE_SCRIPT_SIG")
  case True
  with assms(1) show ?thesis by (simp add: valid_coinbase_def is_min_def HEIGHT_MIN_def)
next
  case False
  with assms parse_coinbase_height_canonical[of sig h d]
  have c: "0 < h" "h \<le> HEIGHT_MAX" "sig = bip34_height h @ d" by simp_all
  moreover have "push_num L h = bip34_height h" using c by (intro push_num_bip34) (simp add: HEIGHT_MAX_def)
  ultimately show ?thesis using assms(2,3) False
    by (simp add: valid_coinbase_def is_min_def HEIGHT_MIN_def)
qed

lemma coinbase_roundtrip:
  assumes v: "valid_coinbase h d" "s < 2 ^ 32"
  shows "\<exists>b. input_serialize L (Coinbase h d s) = Ok b \<and>
    input_deserialize L (b @ rest) = Ok (Coinbase h d s, rest)"
proof -
  obtain sig where sig: "coinbase_script L (Coinbase h d s) = Some sig" "2 \<le> length sig"
      "length sig \<le> 100"
      "(if sig = GENESIS_COINBASE_SCRIPT_SIG then Ok (HEIGHT_MIN, GENESIS_COINBASE_SCRIPT_SIG)
        else parse_coinbase_height L sig) = Ok (h, d)"
    using coinbase_script_valid[OF v(1)] by blast
  have len: "length sig \<le> MAX_PROTOCOL_MESSAGE_LEN" "length sig \<le> MAX_U8_ALLOCATION"
    using sig(3) by (simp_all add: alloc_defs)
  then obtain p where p: "compact_size_message_serialize (length sig) = Ok p" using csm.ser_Ok by blast
  have "zcash_serialize_bytes sig = Ok (p @ sig)"
    using len p by (simp add: zcash_serialize_bytes_def zcash_serialize_bytes_external_count_def rust_simps)
  then have "input_serialize L (Coinbase h d s) =
      Ok (replicate 32 0 @ le_bytes 4 0xffffffff @ (p @ sig) @ le_bytes 4 s)"
    using sig(1) by (simp add: write_u32_def del: coinbase_script.simps le_bytes.simps)
  moreover have "coinbase_input_deserialize L (le_bytes 4 0xffffffff @ (p @ sig) @ le_bytes 4 s @ rest) =
      Ok (Coinbase h d s, rest)"
    using sig(2,3,4) len v(2) csm.de_ser[OF len(1) p, of "sig @ le_bytes 4 s @ rest"]
    by (simp add: coinbase_input_deserialize_def read_u32_def script_len
        zcash_deserialize_bytes_external_count_def del: le_bytes.simps)
  ultimately show ?thesis
    by (simp add: input_deserialize_def del: le_bytes.simps)
qed

lemma prevout_roundtrip:
  assumes v: "valid_input (PrevOut p u s)"
  shows "\<exists>b. input_serialize L (PrevOut p u s) = Ok b \<and>
    input_deserialize L (b @ rest) = Ok (PrevOut p u s, rest)"
proof -
  obtain c where c: "script_serialize u = Ok c" using v scriptc.ser_Ok[of u] by auto
  have "script_deserialize (c @ le_bytes 4 s @ rest) = Ok (u, le_bytes 4 s @ rest)"
    using v by (intro scriptc.de_ser[OF _ c]) simp
  then show ?thesis using v c
    by (simp add: input_deserialize_def prevout_deserialize_def outpoint_serialize_def write_u32_def read_u32_def
        valid_outpoint_def del: le_bytes.simps)
qed

lemma input_roundtrip:
  "valid_input i \<Longrightarrow> \<exists>b. input_serialize L i = Ok b \<and> input_deserialize L (b @ rest) = Ok (i, rest)"
  by (cases i) (use coinbase_roundtrip prevout_roundtrip in auto)

lemma coinbase_canonical:
  assumes "coinbase_input_deserialize L bs = Ok (i, rest)"
  shows "valid_input i \<and> (\<exists>b. input_serialize L i = Ok (replicate 32 0 @ b) \<and> bs = b @ rest)"
proof -
  from assms obtain len bs' sig h d s where
    len: "compact_size_message_deserialize bs' = Ok (len, sig @ le_bytes 4 s @ rest)"
    and bs: "bs = le_bytes 4 0xffffffff @ bs'" and sl: "length sig = len" "2 \<le> len" "len \<le> 100"
    and p: "(if sig = GENESIS_COINBASE_SCRIPT_SIG then Ok (HEIGHT_MIN, GENESIS_COINBASE_SCRIPT_SIG)
             else parse_coinbase_height L sig) = Ok (h, d)"
    and s: "s < 2 ^ 32" and i: "i = Coinbase h d s"
    by (auto simp: coinbase_input_deserialize_def read_u32_def script_len
        zcash_deserialize_bytes_external_count_def rust_simps simp del: le_bytes.simps
        split: if_splits)
  note c = coinbase_script_canonical[OF p, of s]
  from csm.de_canonical[OF len] obtain q where
    q: "compact_size_message_serialize len = Ok q" "bs' = q @ sig @ le_bytes 4 s @ rest" by blast
  have "zcash_serialize_bytes sig = Ok (q @ sig)"
    using q sl by (simp add: zcash_serialize_bytes_def zcash_serialize_bytes_external_count_def
        rust_simps alloc_defs)
  then show ?thesis using c sl s i bs q
    by (simp add: write_u32_def del: coinbase_script.simps le_bytes.simps)
qed

lemma input_canonical:
  assumes "input_deserialize L bs = Ok (i, rest)"
  shows "valid_input i \<and> (\<exists>b. input_serialize L i = Ok b \<and> bs = b @ rest)"
proof -
  from assms obtain h bs' where h: "length h = 32" "bs = h @ bs'"
    and r: "(if h = replicate 32 0 then coinbase_input_deserialize L bs'
       else prevout_deserialize h bs') = Ok (i, rest)"
    unfolding input_deserialize_def by (auto simp: rust_simps)
  show ?thesis
  proof (cases "h = replicate 32 0")
    case True
    then show ?thesis using coinbase_canonical[of bs' i rest] r h by force
  next
    case False
    from r False obtain ix u s bs2 where
      u: "script_deserialize bs2 = Ok (u, le_bytes 4 s @ rest)" "bs' = le_bytes 4 ix @ bs2"
        "ix < 2 ^ 32" "s < 2 ^ 32" "i = PrevOut \<lparr>op_hash = h, op_index = ix\<rparr> u s"
      by (auto simp: prevout_deserialize_def read_u32_def rust_simps simp del: le_bytes.simps)
    from scriptc.de_canonical[OF u(1)] u h False show ?thesis
      by (auto simp: outpoint_serialize_def write_u32_def valid_outpoint_def simp del: le_bytes.simps)
  qed
qed

lemma input_no_panic: "input_deserialize L bs \<noteq> Panic"
  using csm.de_no_panic scriptc.de_no_panic
  by (auto simp: input_deserialize_def prevout_deserialize_def coinbase_input_deserialize_def parse_coinbase_height_def
      coinbase_height_candidate_def zcash_deserialize_bytes_external_count_def read_u32_def rust_simps
      split: if_splits list.splits)

sublocale inputc: zcash_codec "input_serialize L" "input_deserialize L" valid_input
proof
  fix i b rest assume i: "valid_input i"
  then show "\<exists>b. input_serialize L i = Ok b" using input_roundtrip by blast
  show "input_serialize L i = Ok b \<Longrightarrow> input_deserialize L (b @ rest) = Ok (i, rest)"
    using input_roundtrip[OF i, of rest] by auto
qed (fact input_canonical input_no_panic)+

sublocale inputs: vec_codec "input_serialize L" "input_deserialize L" valid_input input_max_allocation ..

end

text \<open>The documented library: it satisfies the contract, so the contract can be met.\<close>

definition documented_scripts :: script_lib where
  "documented_scripts =
     \<lparr>push_num = bip34_height, MIN_COINBASE_SCRIPT_LEN = 2, MAX_COINBASE_SCRIPT_LEN = 100\<rparr>"

interpretation documented: coinbase_scripts documented_scripts
  by unfold_locales (simp_all add: documented_scripts_def)

subsection \<open>Properties\<close>

text \<open>
  C20. Transparent inputs have exactly one accepted encoding, given a script library that encodes
  heights as documented: every valid input is written and read back unchanged, and whatever the
  reader accepts is a valid input followed by the rest of the stream, re-encoded to the same bytes.
  A coinbase input is valid when its height is 1 to \<open>Height::MAX\<close> and its script has 2 to 100
  bytes, or when it is the genesis one; the script that pushes height 520617983 followed by the rest
  of the genesis script is the one encoding that is read back as the genesis input instead.
\<close>

theorem input_encoding_canonical:
  assumes "coinbase_scripts L"
  shows "(\<forall>i rest. valid_input i \<longrightarrow>
       (\<exists>b. input_serialize L i = Ok b \<and> input_deserialize L (b @ rest) = Ok (i, rest))) \<and>
    (\<forall>bs i rest. input_deserialize L bs = Ok (i, rest) \<longrightarrow>
       valid_input i \<and> (\<exists>b. input_serialize L i = Ok b \<and> bs = b @ rest)) \<and>
    (\<forall>bs. input_deserialize L bs \<noteq> Panic) \<and>
    input_deserialize L (replicate 32 0 @ le_bytes 4 0xffffffff @
      (77 # bip34_height 520617983 @ drop 5 GENESIS_COINBASE_SCRIPT_SIG) @ le_bytes 4 0) =
      Ok (Coinbase 0 GENESIS_COINBASE_SCRIPT_SIG 0, [])"
proof (intro conjI allI impI)
  fix bs i rest
  show "valid_input i \<Longrightarrow> \<exists>b. input_serialize L i = Ok b \<and> input_deserialize L (b @ rest) = Ok (i, rest)"
    by (rule coinbase_scripts.input_roundtrip[OF assms])
  show "input_deserialize L bs = Ok (i, rest) \<Longrightarrow> valid_input i"
    and "input_deserialize L bs = Ok (i, rest) \<Longrightarrow> \<exists>b. input_serialize L i = Ok b \<and> bs = b @ rest"
    using coinbase_scripts.input_canonical[OF assms] by blast+
  show "input_deserialize L bs \<noteq> Panic" by (rule coinbase_scripts.input_no_panic[OF assms])
  have g: "bip34_height 520617983 @ drop 5 GENESIS_COINBASE_SCRIPT_SIG = GENESIS_COINBASE_SCRIPT_SIG"
    by (simp add: bip34_height_def GENESIS_COINBASE_SCRIPT_SIG_def script_num_len.simps le_bytes_4)
  have l: "length GENESIS_COINBASE_SCRIPT_SIG = 77" by (simp add: GENESIS_COINBASE_SCRIPT_SIG_def)
  have z: "compact_size_message_deserialize (77 # rest) = Ok (77, rest)" for rest
    by (simp add: compact_size_message_deserialize_def compact_size64_deserialize_def read_flag
        compact_size_message_try_from_def alloc_defs)
  show "input_deserialize L (replicate 32 0 @ le_bytes 4 0xffffffff @
      (77 # bip34_height 520617983 @ drop 5 GENESIS_COINBASE_SCRIPT_SIG) @ le_bytes 4 0) =
      Ok (Coinbase 0 GENESIS_COINBASE_SCRIPT_SIG 0, [])"
    unfolding g
    by (simp add: input_deserialize_def coinbase_input_deserialize_def read_u32_def z l
        coinbase_scripts.script_len[OF assms] zcash_deserialize_bytes_external_count_def alloc_defs
        HEIGHT_MIN_def read_le_le_bytes[of 0 4 "[]", simplified])
qed

theorem input_encoding_canonical_witness:
  "coinbase_scripts documented_scripts \<and>
   (\<exists>b. input_serialize documented_scripts (Coinbase 17 [1, 2, 3] 5) = Ok b \<and>
      input_deserialize documented_scripts (b @ [9]) = Ok (Coinbase 17 [1, 2, 3] 5, [9]))"
proof
  show c: "coinbase_scripts documented_scripts" by (rule documented.coinbase_scripts_axioms)
  have "valid_input (Coinbase 17 [1, 2, 3] 5)"
    by (simp add: valid_coinbase_def bip34_height_def HEIGHT_MAX_def script_num_len.simps
        GENESIS_COINBASE_SCRIPT_SIG_def)
  then show "\<exists>b. input_serialize documented_scripts (Coinbase 17 [1, 2, 3] 5) = Ok b \<and>
      input_deserialize documented_scripts (b @ [9]) = Ok (Coinbase 17 [1, 2, 3] 5, [9])"
    using input_encoding_canonical[OF c] by blast
qed

end
