(* ===== verification/Transaction.thy ===== *)
theory Transaction
  imports Transparent Network_Params
begin

section \<open>Transactions (zebra-chain/src/transaction.rs)\<close>

text \<open>
  The six transaction versions with their shielded parts, the accessors that hide the version, and
  the value balance. Keys, proofs, signatures, commitments and ciphertexts are byte strings: none of
  the modelled functions looks into them.
\<close>

unbundle bit_operations_syntax

subsection \<open>Data\<close>

datatype lock_time = LockHeight height | LockTimestamp int

definition MIN_TIMESTAMP :: int where
  "MIN_TIMESTAMP = 500000000"

definition unlocked :: lock_time where
  "unlocked = LockHeight 0"

fun is_time :: "lock_time \<Rightarrow> bool" where
  "is_time (LockTimestamp t) = True"
| "is_time (LockHeight h) = False"

record joinsplit =
  vpub_old :: amount
  vpub_new :: amount
  js_anchor :: bytes
  js_nullifiers :: "bytes \<times> bytes"
  js_commitments :: "bytes \<times> bytes"
  js_ephemeral_key :: bytes
  js_random_seed :: bytes
  js_vmacs :: "bytes \<times> bytes"
  js_zkproof :: bytes
  js_enc_ciphertexts :: "bytes \<times> bytes"

record joinsplit_bundle =
  jsd_first :: joinsplit
  jsd_rest :: "joinsplit list"
  jsd_pub_key :: bytes
  jsd_sig :: bytes

text \<open>
  A spend carries its own anchor in version 4 transactions and none from version 5 on, where the
  bundle carries one for all: the type parameters are the shared and the per-spend anchor.
\<close>

type_synonym tree_root = bytes

record 'p spend =
  sp_cv :: bytes
  sp_anchor :: 'p
  sp_nullifier :: bytes
  sp_rk :: bytes
  sp_zkproof :: bytes
  sp_spend_auth_sig :: bytes

record sapling_output =
  so_cv :: bytes
  so_cm_u :: bytes
  so_ephemeral_key :: bytes
  so_enc_ciphertext :: bytes
  so_out_ciphertext :: bytes
  so_zkproof :: bytes

datatype ('s, 'p) transfer_data =
    SpendsAndMaybeOutputs 's "'p spend list" "sapling_output list"
  | JustOutputs "sapling_output list"

record ('s, 'p) sapling_data =
  sd_value_balance :: amount
  sd_transfers :: "('s, 'p) transfer_data"
  sd_binding_sig :: bytes

type_synonym sapling_v4 = "(unit, tree_root) sapling_data"
type_synonym sapling_v5 = "(tree_root, unit) sapling_data"

record action =
  ac_cv :: bytes
  ac_nullifier :: bytes
  ac_rk :: bytes
  ac_cm_x :: bytes
  ac_ephemeral_key :: bytes
  ac_enc_ciphertext :: bytes
  ac_out_ciphertext :: bytes

record authorized_action =
  aa_action :: action
  aa_spend_auth_sig :: bytes

type_synonym flags = u8

definition ENABLE_SPENDS :: flags where "ENABLE_SPENDS = 1"
definition ENABLE_OUTPUTS :: flags where "ENABLE_OUTPUTS = 2"
definition ENABLE_CROSS_ADDRESS :: flags where "ENABLE_CROSS_ADDRESS = 4"

definition flags_contain :: "flags \<Rightarrow> flags \<Rightarrow> bool" where
  "flags_contain f g = (f AND g = g)"

definition flags_intersect :: "flags \<Rightarrow> flags \<Rightarrow> bool" where
  "flags_intersect f g = (f AND g \<noteq> 0)"

definition flags_serialize :: "flags writer" where
  "flags_serialize f = Ok [f]"

definition flags_deserialize :: "flags reader" where
  "flags_deserialize bs =
     and_then (read_exact 1 bs) (\<lambda>(b, bs).
       if hd b AND (ENABLE_SPENDS OR ENABLE_OUTPUTS OR ENABLE_CROSS_ADDRESS) = hd b then Ok (hd b, bs)
       else Err (Parse ''invalid reserved orchard flags''))"

record orchard_data =
  od_flags :: flags
  od_value_balance :: amount
  od_shared_anchor :: tree_root
  od_proof :: bytes
  od_actions :: "authorized_action list"
  od_binding_sig :: bytes

datatype transaction =
    V1 "input list" "tx_output list" lock_time
  | V2 "input list" "tx_output list" lock_time "joinsplit_bundle option"
  | V3 "input list" "tx_output list" lock_time height "joinsplit_bundle option"
  | V4 "input list" "tx_output list" lock_time height "joinsplit_bundle option" "sapling_v4 option"
  | V5 network_upgrade lock_time height "input list" "tx_output list" "sapling_v5 option"
       "orchard_data option"
  | V6 network_upgrade lock_time height "input list" "tx_output list" "sapling_v5 option"
       "orchard_data option" "orchard_data option"

subsection \<open>Lock times (lock_time.rs)\<close>

definition lock_time_serialize :: "lock_time writer" where
  "lock_time_serialize l =
     (case l of
        LockHeight n \<Rightarrow> Ok (le_bytes 4 n)
      | LockTimestamp t \<Rightarrow> and_then (expect (checked 0 u32_max t)) (\<lambda>n. Ok (le_bytes 4 (nat n))))"

definition lock_time_deserialize :: "lock_time reader" where
  "lock_time_deserialize bs =
     and_then (read_le 4 bs) (\<lambda>(n, bs).
       Ok (if int n < MIN_TIMESTAMP then LockHeight n else LockTimestamp (int n), bs))"

subsection \<open>JoinSplits (joinsplit.rs)\<close>

definition joinsplits :: "joinsplit_bundle \<Rightarrow> joinsplit list" where
  "joinsplits d = jsd_first d # jsd_rest d"

definition jsd_nullifiers :: "joinsplit_bundle \<Rightarrow> bytes list" where
  "jsd_nullifiers d = concat (map (\<lambda>js. [fst (js_nullifiers js), snd (js_nullifiers js)]) (joinsplits d))"

definition jsd_note_commitments :: "joinsplit_bundle \<Rightarrow> bytes list" where
  "jsd_note_commitments d = concat (map (\<lambda>js. [fst (js_commitments js), snd (js_commitments js)]) (joinsplits d))"

definition joinsplit_value_balance :: "joinsplit \<Rightarrow> (amount, 'e) outcome" where
  "joinsplit_value_balance js =
     (let r = valid_range NegativeAllowed in
      and_then (expect_ok (constrain r (vpub_new js))) (\<lambda>vpub_new.
      and_then (expect_ok (constrain r (vpub_old js))) (\<lambda>vpub_old.
      expect_ok (amount_sub r vpub_new vpub_old))))"

definition joinsplit_value_balances :: "joinsplit_bundle \<Rightarrow> (amount list, 'e) outcome" where
  "joinsplit_value_balances d = try_map joinsplit_value_balance (joinsplits d)"

subsection \<open>Sapling bundles (sapling/shielded\_data.rs, sapling/spend.rs)\<close>

fun td_spends :: "('s, 'p) transfer_data \<Rightarrow> 'p spend list" where
  "td_spends (SpendsAndMaybeOutputs a spends outs) = spends"
| "td_spends (JustOutputs outs) = []"

fun td_outputs :: "('s, 'p) transfer_data \<Rightarrow> sapling_output list" where
  "td_outputs (SpendsAndMaybeOutputs a spends outs) = outs"
| "td_outputs (JustOutputs outs) = outs"

fun td_shared_anchor :: "('s, 'p) transfer_data \<Rightarrow> 's option" where
  "td_shared_anchor (SpendsAndMaybeOutputs a spends outs) = Some a"
| "td_shared_anchor (JustOutputs outs) = None"

definition spend_from_shared :: "unit spend \<Rightarrow> tree_root \<Rightarrow> tree_root spend" where
  "spend_from_shared sp root =
     \<lparr>sp_cv = sp_cv sp, sp_anchor = root, sp_nullifier = sp_nullifier sp, sp_rk = sp_rk sp,
      sp_zkproof = sp_zkproof sp, sp_spend_auth_sig = sp_spend_auth_sig sp\<rparr>"

definition spend_from_per_spend :: "tree_root spend \<Rightarrow> unit \<Rightarrow> tree_root spend" where
  "spend_from_per_spend sp x = sp"

text \<open>
  The code expects the shared anchor to be present while it converts a spend; spends and shared
  anchor come from the same variant, so the expectation is met whenever there is a spend.
\<close>

definition spends_per_anchor ::
    "('p spend \<Rightarrow> 's \<Rightarrow> tree_root spend) \<Rightarrow> ('s, 'p) sapling_data \<Rightarrow> tree_root spend list" where
  "spends_per_anchor conv d =
     (case td_shared_anchor (sd_transfers d) of
        Some a \<Rightarrow> map (\<lambda>sp. conv sp a) (td_spends (sd_transfers d))
      | None \<Rightarrow> [])"

definition sd_nullifiers :: "('s, 'p) sapling_data \<Rightarrow> bytes list" where
  "sd_nullifiers d = map sp_nullifier (td_spends (sd_transfers d))"

definition sd_note_commitments :: "('s, 'p) sapling_data \<Rightarrow> bytes list" where
  "sd_note_commitments d = map so_cm_u (td_outputs (sd_transfers d))"

subsection \<open>Orchard bundles (orchard/shielded\_data.rs)\<close>

definition od_plain_actions :: "orchard_data \<Rightarrow> action list" where
  "od_plain_actions d = map aa_action (od_actions d)"

definition od_nullifiers :: "orchard_data \<Rightarrow> bytes list" where
  "od_nullifiers d = map ac_nullifier (od_plain_actions d)"

definition od_note_commitments :: "orchard_data \<Rightarrow> bytes list" where
  "od_note_commitments d = map ac_cm_x (od_plain_actions d)"

text \<open>The size of a proof is a function of the number of actions in the orchard crate.\<close>

definition proof_size_is_canonical :: "(nat \<Rightarrow> nat) \<Rightarrow> orchard_data \<Rightarrow> bool" where
  "proof_size_is_canonical expected_proof_size d =
     (length (od_proof d) = expected_proof_size (length (od_actions d)))"

subsection \<open>Accessors\<close>

fun inputs :: "transaction \<Rightarrow> input list" where
  "inputs (V1 i _ _) = i"
| "inputs (V2 i _ _ _) = i"
| "inputs (V3 i _ _ _ _) = i"
| "inputs (V4 i _ _ _ _ _) = i"
| "inputs (V5 _ _ _ i _ _ _) = i"
| "inputs (V6 _ _ _ i _ _ _ _) = i"

fun outputs :: "transaction \<Rightarrow> tx_output list" where
  "outputs (V1 _ out _) = out"
| "outputs (V2 _ out _ _) = out"
| "outputs (V3 _ out _ _ _) = out"
| "outputs (V4 _ out _ _ _ _) = out"
| "outputs (V5 _ _ _ _ out _ _) = out"
| "outputs (V6 _ _ _ _ out _ _ _) = out"

fun tx_lock_time :: "transaction \<Rightarrow> lock_time" where
  "tx_lock_time (V1 _ _ l) = l"
| "tx_lock_time (V2 _ _ l _) = l"
| "tx_lock_time (V3 _ _ l _ _) = l"
| "tx_lock_time (V4 _ _ l _ _ _) = l"
| "tx_lock_time (V5 _ l _ _ _ _ _) = l"
| "tx_lock_time (V6 _ l _ _ _ _ _ _) = l"

fun version :: "transaction \<Rightarrow> nat" where
  "version (V1 _ _ _) = 1"
| "version (V2 _ _ _ _) = 2"
| "version (V3 _ _ _ _ _) = 3"
| "version (V4 _ _ _ _ _ _) = 4"
| "version (V5 _ _ _ _ _ _ _) = 5"
| "version (V6 _ _ _ _ _ _ _ _) = 6"

fun is_overwintered :: "transaction \<Rightarrow> bool" where
  "is_overwintered (V1 _ _ _) = False"
| "is_overwintered (V2 _ _ _ _) = False"
| "is_overwintered (V3 _ _ _ _ _) = True"
| "is_overwintered (V4 _ _ _ _ _ _) = True"
| "is_overwintered (V5 _ _ _ _ _ _ _) = True"
| "is_overwintered (V6 _ _ _ _ _ _ _ _) = True"

definition lock_time_of :: "transaction \<Rightarrow> lock_time option" where
  "lock_time_of tx =
     (if tx_lock_time tx = unlocked then None
      else if \<exists>i\<in>set (inputs tx). input_sequence i \<noteq> 0xffffffff then Some (tx_lock_time tx)
      else None)"

definition raw_lock_time :: "transaction \<Rightarrow> (nat, 'e) outcome" where
  "raw_lock_time tx =
     and_then (expect_ok (lock_time_serialize (tx_lock_time tx))) (\<lambda>b. Ok (le_value b))"

definition lock_time_is_time :: "transaction \<Rightarrow> bool" where
  "lock_time_is_time tx = (case lock_time_of tx of Some l \<Rightarrow> is_time l | None \<Rightarrow> False)"

definition no_limit :: "height \<Rightarrow> height option" where
  "no_limit h = (if h = 0 then None else Some h)"

fun expiry_height :: "transaction \<Rightarrow> height option" where
  "expiry_height (V1 _ _ _) = None"
| "expiry_height (V2 _ _ _ _) = None"
| "expiry_height (V3 _ _ _ e _) = no_limit e"
| "expiry_height (V4 _ _ _ e _ _) = no_limit e"
| "expiry_height (V5 _ _ e _ _ _ _) = no_limit e"
| "expiry_height (V6 _ _ e _ _ _ _ _) = no_limit e"

fun tx_network_upgrade :: "transaction \<Rightarrow> network_upgrade option" where
  "tx_network_upgrade (V5 nu _ _ _ _ _ _) = Some nu"
| "tx_network_upgrade (V6 nu _ _ _ _ _ _ _) = Some nu"
| "tx_network_upgrade _ = None"

definition spent_outpoints :: "transaction \<Rightarrow> outpoint list" where
  "spent_outpoints tx = List.map_filter input_outpoint (inputs tx)"

definition is_coinbase :: "transaction \<Rightarrow> bool" where
  "is_coinbase tx = (case inputs tx of [Coinbase _ _ _] \<Rightarrow> True | _ \<Rightarrow> False)"

definition is_valid_non_coinbase :: "transaction \<Rightarrow> bool" where
  "is_valid_non_coinbase tx =
     list_all (\<lambda>i. case i of PrevOut _ _ _ \<Rightarrow> True | Coinbase _ _ _ \<Rightarrow> False) (inputs tx)"

text \<open>The JoinSplit data of the versions that have it, and of version 4 only.\<close>

fun joinsplit_data :: "transaction \<Rightarrow> joinsplit_bundle option" where
  "joinsplit_data (V2 _ _ _ d) = d"
| "joinsplit_data (V3 _ _ _ _ d) = d"
| "joinsplit_data (V4 _ _ _ _ d _) = d"
| "joinsplit_data _ = None"

fun sprout_groth16_joinsplits :: "transaction \<Rightarrow> joinsplit list" where
  "sprout_groth16_joinsplits (V4 _ _ _ _ (Some d) _) = joinsplits d"
| "sprout_groth16_joinsplits _ = []"

definition joinsplit_count :: "transaction \<Rightarrow> nat" where
  "joinsplit_count tx = (case joinsplit_data tx of Some d \<Rightarrow> length (joinsplits d) | None \<Rightarrow> 0)"

definition sprout_nullifiers :: "transaction \<Rightarrow> bytes list" where
  "sprout_nullifiers tx = (case joinsplit_data tx of Some d \<Rightarrow> jsd_nullifiers d | None \<Rightarrow> [])"

definition sprout_joinsplit_pub_key :: "transaction \<Rightarrow> bytes option" where
  "sprout_joinsplit_pub_key tx = map_option jsd_pub_key (joinsplit_data tx)"

definition has_sprout_joinsplit_data :: "transaction \<Rightarrow> bool" where
  "has_sprout_joinsplit_data tx = (joinsplit_data tx \<noteq> None)"

definition sprout_note_commitments :: "transaction \<Rightarrow> bytes list" where
  "sprout_note_commitments tx = (case joinsplit_data tx of Some d \<Rightarrow> jsd_note_commitments d | None \<Rightarrow> [])"

text \<open>Sapling data of both anchor variants.\<close>

fun sapling_spends_per_anchor :: "transaction \<Rightarrow> tree_root spend list" where
  "sapling_spends_per_anchor (V4 _ _ _ _ _ (Some d)) = spends_per_anchor spend_from_per_spend d"
| "sapling_spends_per_anchor (V5 _ _ _ _ _ (Some d) _) = spends_per_anchor spend_from_shared d"
| "sapling_spends_per_anchor (V6 _ _ _ _ _ (Some d) _ _) = spends_per_anchor spend_from_shared d"
| "sapling_spends_per_anchor _ = []"

definition sapling_anchors :: "transaction \<Rightarrow> tree_root list" where
  "sapling_anchors tx = rev (remdups (rev (map sp_anchor (sapling_spends_per_anchor tx))))"

fun sapling_outputs :: "transaction \<Rightarrow> sapling_output list" where
  "sapling_outputs (V4 _ _ _ _ _ (Some d)) = td_outputs (sd_transfers d)"
| "sapling_outputs (V5 _ _ _ _ _ (Some d) _) = td_outputs (sd_transfers d)"
| "sapling_outputs (V6 _ _ _ _ _ (Some d) _ _) = td_outputs (sd_transfers d)"
| "sapling_outputs _ = []"

fun sapling_nullifiers :: "transaction \<Rightarrow> bytes list" where
  "sapling_nullifiers (V4 _ _ _ _ _ (Some d)) = sd_nullifiers d"
| "sapling_nullifiers (V5 _ _ _ _ _ (Some d) _) = sd_nullifiers d"
| "sapling_nullifiers (V6 _ _ _ _ _ (Some d) _ _) = sd_nullifiers d"
| "sapling_nullifiers _ = []"

fun sapling_note_commitments :: "transaction \<Rightarrow> bytes list" where
  "sapling_note_commitments (V4 _ _ _ _ _ (Some d)) = sd_note_commitments d"
| "sapling_note_commitments (V5 _ _ _ _ _ (Some d) _) = sd_note_commitments d"
| "sapling_note_commitments (V6 _ _ _ _ _ (Some d) _ _) = sd_note_commitments d"
| "sapling_note_commitments _ = []"

fun has_sapling_shielded_data :: "transaction \<Rightarrow> bool" where
  "has_sapling_shielded_data (V4 _ _ _ _ _ d) = (d \<noteq> None)"
| "has_sapling_shielded_data (V5 _ _ _ _ _ d _) = (d \<noteq> None)"
| "has_sapling_shielded_data (V6 _ _ _ _ _ d _ _) = (d \<noteq> None)"
| "has_sapling_shielded_data _ = False"

fun orchard_shielded_data :: "transaction \<Rightarrow> orchard_data option" where
  "orchard_shielded_data (V5 _ _ _ _ _ _ d) = d"
| "orchard_shielded_data (V6 _ _ _ _ _ _ d _) = d"
| "orchard_shielded_data _ = None"

fun ironwood_shielded_data :: "transaction \<Rightarrow> orchard_data option" where
  "ironwood_shielded_data (V6 _ _ _ _ _ _ _ d) = d"
| "ironwood_shielded_data _ = None"

definition of_bundle :: "(orchard_data \<Rightarrow> 'a list) \<Rightarrow> orchard_data option \<Rightarrow> 'a list" where
  "of_bundle f d = (case d of Some b \<Rightarrow> f b | None \<Rightarrow> [])"

definition orchard_actions :: "transaction \<Rightarrow> action list" where
  "orchard_actions tx = of_bundle od_plain_actions (orchard_shielded_data tx)"

definition orchard_nullifiers :: "transaction \<Rightarrow> bytes list" where
  "orchard_nullifiers tx = of_bundle od_nullifiers (orchard_shielded_data tx)"

definition orchard_note_commitments :: "transaction \<Rightarrow> bytes list" where
  "orchard_note_commitments tx = of_bundle od_note_commitments (orchard_shielded_data tx)"

definition orchard_flags :: "transaction \<Rightarrow> flags option" where
  "orchard_flags tx = map_option od_flags (orchard_shielded_data tx)"

definition has_orchard_shielded_data :: "transaction \<Rightarrow> bool" where
  "has_orchard_shielded_data tx = (orchard_shielded_data tx \<noteq> None)"

definition ironwood_actions :: "transaction \<Rightarrow> action list" where
  "ironwood_actions tx = of_bundle od_plain_actions (ironwood_shielded_data tx)"

definition ironwood_nullifiers :: "transaction \<Rightarrow> bytes list" where
  "ironwood_nullifiers tx = of_bundle od_nullifiers (ironwood_shielded_data tx)"

definition ironwood_note_commitments :: "transaction \<Rightarrow> bytes list" where
  "ironwood_note_commitments tx = of_bundle od_note_commitments (ironwood_shielded_data tx)"

definition ironwood_flags :: "transaction \<Rightarrow> flags option" where
  "ironwood_flags tx = map_option od_flags (ironwood_shielded_data tx)"

definition has_ironwood_shielded_data :: "transaction \<Rightarrow> bool" where
  "has_ironwood_shielded_data tx = (ironwood_shielded_data tx \<noteq> None)"

text \<open>What a transaction has, over all of its pools.\<close>

definition has_transparent_inputs :: "transaction \<Rightarrow> bool" where
  "has_transparent_inputs tx = (inputs tx \<noteq> [])"

definition has_transparent_outputs :: "transaction \<Rightarrow> bool" where
  "has_transparent_outputs tx = (outputs tx \<noteq> [])"

definition has_transparent_inputs_or_outputs :: "transaction \<Rightarrow> bool" where
  "has_transparent_inputs_or_outputs tx = (has_transparent_inputs tx \<or> has_transparent_outputs tx)"

definition flags_or_empty :: "flags option \<Rightarrow> flags" where
  "flags_or_empty f = (case f of Some f \<Rightarrow> f | None \<Rightarrow> 0)"

definition has_shielded_inputs :: "transaction \<Rightarrow> bool" where
  "has_shielded_inputs tx \<longleftrightarrow>
     joinsplit_count tx > 0 \<or> length (sapling_spends_per_anchor tx) > 0 \<or>
     (length (orchard_actions tx) > 0 \<and>
       flags_contain (flags_or_empty (orchard_flags tx)) ENABLE_SPENDS) \<or>
     (length (ironwood_actions tx) > 0 \<and>
       flags_contain (flags_or_empty (ironwood_flags tx)) ENABLE_SPENDS)"

definition has_shielded_outputs :: "transaction \<Rightarrow> bool" where
  "has_shielded_outputs tx \<longleftrightarrow>
     joinsplit_count tx > 0 \<or> length (sapling_outputs tx) > 0 \<or>
     (length (orchard_actions tx) > 0 \<and>
       flags_contain (flags_or_empty (orchard_flags tx)) ENABLE_OUTPUTS) \<or>
     (length (ironwood_actions tx) > 0 \<and>
       flags_contain (flags_or_empty (ironwood_flags tx)) ENABLE_OUTPUTS)"

definition has_transparent_or_shielded_inputs :: "transaction \<Rightarrow> bool" where
  "has_transparent_or_shielded_inputs tx = (has_transparent_inputs tx \<or> has_shielded_inputs tx)"

definition has_transparent_or_shielded_outputs :: "transaction \<Rightarrow> bool" where
  "has_transparent_or_shielded_outputs tx = (has_transparent_outputs tx \<or> has_shielded_outputs tx)"

definition has_shielded_data :: "transaction \<Rightarrow> bool" where
  "has_shielded_data tx = (has_shielded_inputs tx \<or> has_shielded_outputs tx)"

definition has_enough_orchard_flags :: "transaction \<Rightarrow> bool" where
  "has_enough_orchard_flags tx \<longleftrightarrow>
     version tx < 5 \<or> length (orchard_actions tx) = 0 \<or>
     flags_intersect (flags_or_empty (orchard_flags tx)) (ENABLE_SPENDS OR ENABLE_OUTPUTS)"

definition has_enough_ironwood_flags :: "transaction \<Rightarrow> bool" where
  "has_enough_ironwood_flags tx \<longleftrightarrow>
     version tx < 6 \<or> length (ironwood_actions tx) = 0 \<or>
     flags_intersect (flags_or_empty (ironwood_flags tx)) (ENABLE_SPENDS OR ENABLE_OUTPUTS)"

definition coinbase_spend_restriction :: "transaction \<Rightarrow> network \<Rightarrow> height \<Rightarrow> coinbase_spend_restriction" where
  "coinbase_spend_restriction tx net h =
     (if outputs tx = [] \<or> network_allows_unshielded_coinbase_spends net
      then CheckCoinbaseMaturity h else DisallowCoinbaseSpend)"

definition OVERWINTER_VERSION_GROUP_ID :: nat where "OVERWINTER_VERSION_GROUP_ID = 0x03C48270"
definition SAPLING_VERSION_GROUP_ID :: nat where "SAPLING_VERSION_GROUP_ID = 0x892F2085"
definition TX_V5_VERSION_GROUP_ID :: nat where "TX_V5_VERSION_GROUP_ID = 0x26A7270A"
definition TX_V6_VERSION_GROUP_ID :: nat where "TX_V6_VERSION_GROUP_ID = 0xD884B698"

fun version_group_id :: "transaction \<Rightarrow> nat option" where
  "version_group_id (V3 _ _ _ _ _) = Some OVERWINTER_VERSION_GROUP_ID"
| "version_group_id (V4 _ _ _ _ _ _) = Some SAPLING_VERSION_GROUP_ID"
| "version_group_id (V5 _ _ _ _ _ _ _) = Some TX_V5_VERSION_GROUP_ID"
| "version_group_id (V6 _ _ _ _ _ _ _ _) = Some TX_V6_VERSION_GROUP_ID"
| "version_group_id _ = None"

subsection \<open>Value balances\<close>

definition transparent_value_balance_from_outputs ::
    "transaction \<Rightarrow> tx_output outpoint_map \<Rightarrow> value_balance vb_result" where
  "transparent_value_balance_from_outputs tx spent =
     (let sum_nn = (\<lambda>xs. map_err TransparentError (amount_sum (valid_range NonNegative) xs));
          widen = (\<lambda>a. expect_ok (constrain (valid_range NegativeAllowed) a)) in
      and_then (try_map (\<lambda>i. value_from_outputs i spent) (inputs tx)) (\<lambda>vs.
      and_then (sum_nn vs) (\<lambda>a. and_then (widen a) (\<lambda>input_value.
      and_then (sum_nn (map out_value (outputs tx))) (\<lambda>b. and_then (widen b) (\<lambda>output_value.
      and_then (map_err TransparentError
          (amount_sub (valid_range NegativeAllowed) input_value output_value)) (\<lambda>d.
        Ok (from_transparent_amount d))))))))"

definition output_values_to_sprout :: "transaction \<Rightarrow> amount list" where
  "output_values_to_sprout tx =
     (case joinsplit_data tx of Some d \<Rightarrow> map vpub_old (joinsplits d) | None \<Rightarrow> [])"

definition input_values_from_sprout :: "transaction \<Rightarrow> amount list" where
  "input_values_from_sprout tx =
     (case joinsplit_data tx of Some d \<Rightarrow> map vpub_new (joinsplits d) | None \<Rightarrow> [])"

definition sprout_joinsplit_value_balances :: "transaction \<Rightarrow> (value_balance list, 'e) outcome" where
  "sprout_joinsplit_value_balances tx =
     (case joinsplit_data tx of
        Some d \<Rightarrow> and_then (joinsplit_value_balances d) (\<lambda>vs. Ok (map from_sprout_amount vs))
      | None \<Rightarrow> Ok [])"

definition sprout_value_balance :: "transaction \<Rightarrow> value_balance vb_result" where
  "sprout_value_balance tx =
     and_then (sprout_joinsplit_value_balances tx) (\<lambda>vs. vb_sum (valid_range NegativeAllowed) vs)"

fun sapling_amount :: "transaction \<Rightarrow> amount" where
  "sapling_amount (V4 _ _ _ _ _ (Some d)) = sd_value_balance d"
| "sapling_amount (V5 _ _ _ _ _ (Some d) _) = sd_value_balance d"
| "sapling_amount (V6 _ _ _ _ _ (Some d) _ _) = sd_value_balance d"
| "sapling_amount _ = 0"

definition sapling_value_balance :: "transaction \<Rightarrow> value_balance" where
  "sapling_value_balance tx = from_sapling_amount (sapling_amount tx)"

definition orchard_amount :: "orchard_data option \<Rightarrow> amount" where
  "orchard_amount d = (case d of Some b \<Rightarrow> od_value_balance b | None \<Rightarrow> 0)"

definition orchard_value_balance :: "transaction \<Rightarrow> value_balance" where
  "orchard_value_balance tx = from_orchard_amount (orchard_amount (orchard_shielded_data tx))"

definition ironwood_value_balance :: "transaction \<Rightarrow> value_balance" where
  "ironwood_value_balance tx = from_ironwood_amount (orchard_amount (ironwood_shielded_data tx))"

definition value_balance_from_outputs ::
    "transaction \<Rightarrow> tx_output outpoint_map \<Rightarrow> value_balance vb_result" where
  "value_balance_from_outputs tx spent =
     (let add = (\<lambda>r v. and_then r (\<lambda>u. vb_add (valid_range NegativeAllowed) u v)) in
      and_then (transparent_value_balance_from_outputs tx spent) (\<lambda>t.
      and_then (sprout_value_balance tx) (\<lambda>s.
        add (add (add (vb_add (valid_range NegativeAllowed) t s)
          (sapling_value_balance tx)) (orchard_value_balance tx)) (ironwood_value_balance tx))))"

definition tx_value_balance :: "transaction \<Rightarrow> utxo outpoint_map \<Rightarrow> value_balance vb_result" where
  "tx_value_balance tx utxos = value_balance_from_outputs tx (outputs_from_utxos utxos)"

subsection \<open>Sums of amounts\<close>

context constraint
begin

lemma sum_fold_Ok:
  "contains r acc \<Longrightarrow> \<forall>x\<in>set xs. contains r x \<Longrightarrow>
   sum_fold r acc xs = Ok y \<longleftrightarrow>
     y = acc + sum_list xs \<and> (\<forall>k\<le>length xs. contains r (acc + sum_list (take k xs)))"
proof (induction xs arbitrary: acc)
  case (Cons x xs)
  have all: "(\<forall>k\<le>Suc n. P k) \<longleftrightarrow> P 0 \<and> (\<forall>k\<le>n. P (Suc k))" for P :: "nat \<Rightarrow> bool" and n
    by (metis Suc_le_mono le0 not0_implies_Suc)
  show ?case
  proof (cases "contains r (acc + x)")
    case True
    with Cons show ?thesis by (simp add: add_exact all add.assoc)
  next
    case False
    with Cons.prems show ?thesis by (auto simp: add_exact all)
  qed
qed auto

lemma sum_fold_no_panic:
  "contains r acc \<Longrightarrow> \<forall>x\<in>set xs. contains r x \<Longrightarrow> sum_fold r acc xs \<noteq> Panic"
  by (induction xs arbitrary: acc) (auto simp: add_exact)

lemma sum_Ok:
  "\<forall>x\<in>set xs. contains r x \<Longrightarrow>
   amount_sum r xs = Ok y \<longleftrightarrow>
     y = sum_list xs \<and> (\<forall>k\<le>length xs. contains r (sum_list (take k xs)))"
  using sum_fold_Ok[of 0 xs y] zero_in by (simp add: amount_sum_def zero_ok contains_def)

lemma sum_no_panic: "\<forall>x\<in>set xs. contains r x \<Longrightarrow> amount_sum r xs \<noteq> Panic"
  using sum_fold_no_panic[of 0 xs] zero_in by (simp add: amount_sum_def zero_ok contains_def)

end

text \<open>With non-negative items only the total matters.\<close>

lemma sum_prefix_le:
  "\<forall>x\<in>set xs. (0 :: int) \<le> x \<Longrightarrow> 0 \<le> sum_list (take k xs) \<and> sum_list (take k xs) \<le> sum_list xs"
proof -
  assume nn: "\<forall>x\<in>set xs. (0 :: int) \<le> x"
  have "sum_list xs = sum_list (take k xs) + sum_list (drop k xs)"
    by (metis append_take_drop_id sum_list_append)
  moreover have "0 \<le> sum_list (take k xs)" "0 \<le> sum_list (drop k xs)"
    using nn by (auto intro!: sum_list_nonneg dest: in_set_takeD in_set_dropD)
  ultimately show ?thesis by simp
qed

lemma amount_sum_non_negative:
  assumes "\<forall>x\<in>set xs. contains (valid_range NonNegative) x"
  shows "amount_sum (valid_range NonNegative) xs = Ok y \<longleftrightarrow>
    y = sum_list xs \<and> contains (valid_range NonNegative) (sum_list xs)"
proof -
  have "\<forall>x\<in>set xs. 0 \<le> x" using assms by (simp add: contains_def)
  note le = sum_prefix_le[OF this]
  have "(\<forall>k\<le>length xs. contains (valid_range NonNegative) (sum_list (take k xs))) \<longleftrightarrow>
      contains (valid_range NonNegative) (sum_list xs)" (is "?l = ?r")
  proof
    show "?l \<Longrightarrow> ?r" by (drule spec[of _ "length xs"]) simp
    show "?r \<Longrightarrow> ?l" using le by (simp add: contains_def) (meson order_trans)
  qed
  then show ?thesis using amt.sum_Ok[OF assms] by simp
qed

abbreviation na :: "amount \<Rightarrow> bool" where
  "na \<equiv> contains (valid_range NegativeAllowed)"

abbreviation nn :: "amount \<Rightarrow> bool" where
  "nn \<equiv> contains (valid_range NonNegative)"

lemma na_zero: "na 0"
  by (simp add: contains_def money_defs)

lemma sprout_try_fold_Ok:
  "na a \<Longrightarrow> \<forall>x\<in>set xs. na x \<Longrightarrow>
   vb_try_fold (valid_range NegativeAllowed) (from_sprout_amount a) (map from_sprout_amount xs) = Ok v \<longleftrightarrow>
     v = from_sprout_amount (a + sum_list xs) \<and> (\<forall>k\<le>length xs. na (a + sum_list (take k xs)))"
proof (induction xs arbitrary: a)
  case (Cons x xs)
  have all: "(\<forall>k\<le>Suc n. P k) \<longleftrightarrow> P 0 \<and> (\<forall>k\<le>n. P (Suc k))" for P :: "nat \<Rightarrow> bool" and n
    by (metis Suc_le_mono le0 not0_implies_Suc)
  have ok: "vb_ok (valid_range NegativeAllowed) (from_sprout_amount c)" if "na c" for c
    using that na_zero by (simp add: from_sprout_amount_def vb_zero_def del: valid_range.simps)
  have add: "vb_add (valid_range NegativeAllowed) (from_sprout_amount a) (from_sprout_amount x) = Ok u \<longleftrightarrow>
      u = from_sprout_amount (a + x) \<and> na (a + x)" for u
    using Cons.prems na_zero
    by (subst na_ops(1)) (auto simp: ok vb_map2_def from_sprout_amount_def vb_zero_def simp del: valid_range.simps)
  have z: "na (a + x)" if "\<forall>k\<le>length xs. na (a + (x + sum_list (take k xs)))"
    using spec[OF that, of 0] by simp
  show ?case
    using Cons.IH[of "a + x"] Cons.prems z
    by (auto simp: and_then_Ok_iff add all add.assoc simp del: valid_range.simps)
qed auto

context constraint
begin

lemma vb_try_fold_no_panic:
  "vb_ok r acc \<Longrightarrow> \<forall>v\<in>set vs. vb_ok r v \<Longrightarrow> vb_try_fold r acc vs \<noteq> Panic"
  by (induction vs arbitrary: acc)
    (auto simp: and_then_Panic_iff vb_add_not_Panic vb_add_Ok simp del: vb_ok_simps)

end

subsection \<open>The value balance of a transaction\<close>

text \<open>What the types of the fields guarantee, and that every spent output is known.\<close>

definition valid_amounts :: "transaction \<Rightarrow> bool" where
  "valid_amounts tx \<longleftrightarrow>
     (\<forall>out\<in>set (outputs tx). nn (out_value out)) \<and>
     (\<forall>v\<in>set (output_values_to_sprout tx) \<union> set (input_values_from_sprout tx). nn v) \<and>
     na (sapling_amount tx) \<and> na (orchard_amount (orchard_shielded_data tx)) \<and>
     na (orchard_amount (ironwood_shielded_data tx))"

definition spends_known :: "transaction \<Rightarrow> tx_output outpoint_map \<Rightarrow> bool" where
  "spends_known tx spent \<longleftrightarrow>
     (\<forall>p\<in>set (spent_outpoints tx). \<exists>out. spent p = Some out \<and> nn (out_value out))"

definition spent_value :: "tx_output outpoint_map \<Rightarrow> input \<Rightarrow> amount" where
  "spent_value spent i =
     (case input_outpoint i of
        Some p \<Rightarrow> (case spent p of Some out \<Rightarrow> out_value out | None \<Rightarrow> 0)
      | None \<Rightarrow> 0)"

definition total_in :: "transaction \<Rightarrow> tx_output outpoint_map \<Rightarrow> amount" where
  "total_in tx spent = sum_list (map (spent_value spent) (inputs tx))"

definition total_out :: "transaction \<Rightarrow> amount" where
  "total_out tx = sum_list (map out_value (outputs tx))"

definition sprout_changes :: "transaction \<Rightarrow> amount list" where
  "sprout_changes tx =
     (case joinsplit_data tx of
        Some d \<Rightarrow> map (\<lambda>js. vpub_new js - vpub_old js) (joinsplits d) | None \<Rightarrow> [])"

definition pool_balances :: "transaction \<Rightarrow> tx_output outpoint_map \<Rightarrow> value_balance" where
  "pool_balances tx spent =
     \<lparr>vb_transparent = total_in tx spent - total_out tx, vb_sprout = sum_list (sprout_changes tx),
      vb_sapling = sapling_amount tx, vb_orchard = orchard_amount (orchard_shielded_data tx),
      vb_deferred = 0, vb_ironwood = orchard_amount (ironwood_shielded_data tx)\<rparr>"

definition totals_in_range :: "transaction \<Rightarrow> tx_output outpoint_map \<Rightarrow> bool" where
  "totals_in_range tx spent \<longleftrightarrow>
     nn (total_in tx spent) \<and> nn (total_out tx) \<and>
     (\<forall>k\<le>length (sprout_changes tx). na (sum_list (take k (sprout_changes tx))))"

lemma nn_zero: "nn 0"
  by (simp add: contains_def money_defs)

lemma outpoint_spent:
  "i \<in> set (inputs tx) \<Longrightarrow> input_outpoint i = Some p \<Longrightarrow> p \<in> set (spent_outpoints tx)"
  by (force simp: spent_outpoints_def map_filter_def)

lemma spent_value_known:
  assumes "spends_known tx spent" "i \<in> set (inputs tx)"
  shows "value_from_outputs i spent = Ok (spent_value spent i) \<and> nn (spent_value spent i)"
proof (cases i)
  case (PrevOut p u s)
  then obtain out where "spent p = Some out" "nn (out_value out)"
    using assms outpoint_spent[OF assms(2), of p] by (auto simp: spends_known_def)
  with PrevOut show ?thesis by (simp add: spent_value_def)
next
  case (Coinbase h d s)
  then show ?thesis
    using nn_zero amt.zero_ok[of NonNegative] by (simp add: spent_value_def)
qed

lemma try_map_Ok: "\<forall>x\<in>set xs. f x = Ok (g x) \<Longrightarrow> try_map f xs = Ok (map g xs)"
  by (induction xs) auto

lemma transparent_value_balance:
  assumes "spends_known tx spent" "valid_amounts tx"
  shows "transparent_value_balance_from_outputs tx spent = Ok v \<longleftrightarrow>
      v = from_transparent_amount (total_in tx spent - total_out tx) \<and>
      nn (total_in tx spent) \<and> nn (total_out tx)"
    and "transparent_value_balance_from_outputs tx spent \<noteq> Panic"
proof -
  let ?ins = "map (spent_value spent) (inputs tx)" and ?outs = "map out_value (outputs tx)"
  have m: "try_map (\<lambda>i. value_from_outputs i spent) (inputs tx) = (Ok ?ins :: (amount list, value_balance_error) outcome)"
    using spent_value_known[OF assms(1)] by (intro try_map_Ok) auto
  have ins: "\<forall>x\<in>set ?ins. nn x" using spent_value_known[OF assms(1)] by auto
  have outs: "\<forall>x\<in>set ?outs. nn x" using assms(2) by (auto simp: valid_amounts_def)
  have sub: "amount_sub (valid_range NegativeAllowed) a b = Ok (a - b)" if "nn a" "nn b" for a b
    using that non_negative_allowed[OF that(1)] non_negative_allowed[OF that(2)]
    by (subst amt.sub_exact) (auto simp: contains_def money_defs)
  note defs = transparent_value_balance_from_outputs_def Let_def m total_in_def total_out_def
  show "transparent_value_balance_from_outputs tx spent = Ok v \<longleftrightarrow>
      v = from_transparent_amount (total_in tx spent - total_out tx) \<and>
      nn (total_in tx spent) \<and> nn (total_out tx)"
    using sub non_negative_allowed
    by (auto simp: defs rust_simps amount_sum_non_negative[OF ins] amount_sum_non_negative[OF outs]
        simp del: valid_range.simps)
  show "transparent_value_balance_from_outputs tx spent \<noteq> Panic"
    using sub non_negative_allowed amt.sum_no_panic[OF ins] amt.sum_no_panic[OF outs]
    by (auto simp: defs rust_simps amount_sum_non_negative[OF ins] amount_sum_non_negative[OF outs]
        simp del: valid_range.simps)
qed

lemma joinsplit_value_balance_eq:
  assumes "nn (vpub_new js)" "nn (vpub_old js)"
  shows "joinsplit_value_balance js = Ok (vpub_new js - vpub_old js)" "na (vpub_new js - vpub_old js)"
proof -
  show d: "na (vpub_new js - vpub_old js)" using assms by (auto simp: contains_def money_defs)
  have c: "constrain (valid_range NegativeAllowed) a = Ok a" if "nn a" for a
    using non_negative_allowed[OF that] by (auto simp: rust_simps)
  show "joinsplit_value_balance js = Ok (vpub_new js - vpub_old js)"
    using d non_negative_allowed[OF assms(1)] non_negative_allowed[OF assms(2)]
    by (simp add: joinsplit_value_balance_def Let_def c assms amt.sub_exact del: valid_range.simps)
qed

lemma sprout_value_balance_eq:
  assumes "valid_amounts tx"
  shows "sprout_value_balance tx = Ok v \<longleftrightarrow>
      v = from_sprout_amount (sum_list (sprout_changes tx)) \<and>
      (\<forall>k\<le>length (sprout_changes tx). na (sum_list (take k (sprout_changes tx))))"
    and "sprout_value_balance tx \<noteq> Panic"
proof -
  have js: "joinsplit_value_balance js = (Ok (vpub_new js - vpub_old js) :: (amount, value_balance_error) outcome)"
    "na (vpub_new js - vpub_old js)" if "joinsplit_data tx = Some d" "js \<in> set (joinsplits d)" for d js
    using that assms by (auto intro!: joinsplit_value_balance_eq
        simp: valid_amounts_def output_values_to_sprout_def input_values_from_sprout_def
        simp del: valid_range.simps)
  have na: "\<forall>x\<in>set (sprout_changes tx). na x"
    using js(2) by (cases "joinsplit_data tx") (auto simp: sprout_changes_def simp del: valid_range.simps)
  have vs: "sprout_joinsplit_value_balances tx =
      (Ok (map from_sprout_amount (sprout_changes tx)) :: (value_balance list, value_balance_error) outcome)"
  proof (cases "joinsplit_data tx")
    case (Some d)
    have "try_map joinsplit_value_balance (joinsplits d) =
        (Ok (map (\<lambda>js. vpub_new js - vpub_old js) (joinsplits d)) :: (amount list, value_balance_error) outcome)"
      using js(1)[OF Some] by (intro try_map_Ok) auto
    with Some show ?thesis
      by (simp add: sprout_joinsplit_value_balances_def joinsplit_value_balances_def sprout_changes_def)
  qed (simp add: sprout_joinsplit_value_balances_def sprout_changes_def)
  have z: "vb_zero = from_sprout_amount 0" by (simp add: from_sprout_amount_def vb_zero_def)
  show "sprout_value_balance tx = Ok v \<longleftrightarrow>
      v = from_sprout_amount (sum_list (sprout_changes tx)) \<and>
      (\<forall>k\<le>length (sprout_changes tx). na (sum_list (take k (sprout_changes tx))))"
    using sprout_try_fold_Ok[OF na_zero na] by (simp add: sprout_value_balance_def vs vb_sum_def z)
  have ok: "vb_ok (valid_range NegativeAllowed) (from_sprout_amount c)" if "na c" for c
    using that na_zero by (simp add: from_sprout_amount_def vb_zero_def del: valid_range.simps)
  show "sprout_value_balance tx \<noteq> Panic"
    unfolding sprout_value_balance_def vs vb_sum_def z
    using amt.vb_try_fold_no_panic[OF ok[OF na_zero], of "map from_sprout_amount (sprout_changes tx)"] na ok
    by auto
qed

text \<open>The five pools are disjoint, so adding their balances up cannot leave the range.\<close>

lemma pool_add:
  assumes "na (vb_transparent u + vb_transparent w)" "na (vb_sprout u + vb_sprout w)"
    "na (vb_sapling u + vb_sapling w)" "na (vb_orchard u + vb_orchard w)"
    "na (vb_deferred u + vb_deferred w)" "na (vb_ironwood u + vb_ironwood w)"
    "vb_ok (valid_range NegativeAllowed) u" "vb_ok (valid_range NegativeAllowed) w"
  shows "vb_add (valid_range NegativeAllowed) u w = Ok (vb_map2 (+) u w)"
  using assms(1-6) by (subst na_ops(1)[OF assms(7,8)]) (simp add: vb_map2_def del: valid_range.simps)

lemmas from_amount_defs = from_transparent_amount_def from_sprout_amount_def from_sapling_amount_def
  from_orchard_amount_def from_ironwood_amount_def vb_zero_def

lemma combined_value_balance:
  assumes "na t" "na s" "na a" "na orch" "na i"
  shows "(let add = (\<lambda>r v. and_then r (\<lambda>u. vb_add (valid_range NegativeAllowed) u v)) in
      add (add (add (vb_add (valid_range NegativeAllowed) (from_transparent_amount t) (from_sprout_amount s))
        (from_sapling_amount a)) (from_orchard_amount orch)) (from_ironwood_amount i)) =
    Ok \<lparr>vb_transparent = t, vb_sprout = s, vb_sapling = a, vb_orchard = orch, vb_deferred = 0,
        vb_ironwood = i\<rparr>"
  using assms na_zero
  by (simp add: pool_add from_amount_defs vb_map2_def del: valid_range.simps)

lemma value_balance_from_outputs_eq:
  assumes "spends_known tx spent" "valid_amounts tx"
  shows "value_balance_from_outputs tx spent = Ok v \<longleftrightarrow>
      v = pool_balances tx spent \<and> totals_in_range tx spent"
    and "value_balance_from_outputs tx spent \<noteq> Panic"
proof -
  note t = transparent_value_balance[OF assms] and s = sprout_value_balance_eq[OF assms(2)]
  have "na (total_in tx spent - total_out tx)" if "totals_in_range tx spent"
    using that by (auto simp: totals_in_range_def contains_def money_defs)
  moreover have "na (sum_list (sprout_changes tx))" if "totals_in_range tx spent"
    using that unfolding totals_in_range_def by (metis order_refl take_all_iff)
  ultimately have c: "(let add = (\<lambda>r v. and_then r (\<lambda>u. vb_add (valid_range NegativeAllowed) u v)) in
      add (add (add (vb_add (valid_range NegativeAllowed)
          (from_transparent_amount (total_in tx spent - total_out tx))
          (from_sprout_amount (sum_list (sprout_changes tx))))
        (sapling_value_balance tx)) (orchard_value_balance tx)) (ironwood_value_balance tx)) =
      Ok (pool_balances tx spent)" if "totals_in_range tx spent"
    using that assms(2)
    unfolding sapling_value_balance_def orchard_value_balance_def ironwood_value_balance_def
      pool_balances_def
    by (intro combined_value_balance) (auto simp: valid_amounts_def simp del: valid_range.simps)
  show "value_balance_from_outputs tx spent = Ok v \<longleftrightarrow>
      v = pool_balances tx spent \<and> totals_in_range tx spent"
    unfolding value_balance_from_outputs_def and_then_Ok_iff[where r = "transparent_value_balance_from_outputs tx spent"]
      and_then_Ok_iff[where r = "sprout_value_balance tx"] Let_def
    using c[unfolded Let_def] t(1) s(1) by (auto simp: totals_in_range_def)
  show "value_balance_from_outputs tx spent \<noteq> Panic"
    unfolding value_balance_from_outputs_def Let_def
      and_then_Panic_iff[where r = "transparent_value_balance_from_outputs tx spent"]
      and_then_Panic_iff[where r = "sprout_value_balance tx"]
    using c[unfolded Let_def] t s by (auto simp: totals_in_range_def)
qed

subsection \<open>Properties\<close>

text \<open>
  C19. The value balance of a transaction is exact: when the fields hold valid amounts and every
  spent output is known, it never panics; it succeeds exactly when the transparent input and output
  totals and every running total of the JoinSplit changes are valid amounts; then each pool has
  inputs minus outputs, and the fee computed from it is what the transaction takes from the five
  pools.
\<close>

theorem transaction_value_balance_exact:
  assumes "spends_known tx (outputs_from_utxos utxos)" "valid_amounts tx"
  shows "tx_value_balance tx utxos \<noteq> Panic \<and>
    (\<forall>v. tx_value_balance tx utxos = Ok v \<longleftrightarrow>
      v = pool_balances tx (outputs_from_utxos utxos) \<and> totals_in_range tx (outputs_from_utxos utxos)) \<and>
    (\<forall>v fee. tx_value_balance tx utxos = Ok v \<and> remaining_transaction_value v = Ok fee \<longrightarrow>
      total_in tx (outputs_from_utxos utxos) + sum_list (sprout_changes tx) + sapling_amount tx +
      orchard_amount (orchard_shielded_data tx) + orchard_amount (ironwood_shielded_data tx) =
      total_out tx + fee \<and> 0 \<le> fee)"
proof -
  note b = value_balance_from_outputs_eq[OF assms]
  have "0 \<le> fee" if "remaining_transaction_value v = Ok fee" for v fee
    using remaining_transaction_value_Ok(2)[OF that] by (simp add: contains_def)
  moreover have "total_in tx (outputs_from_utxos utxos) + sum_list (sprout_changes tx) + sapling_amount tx +
      orchard_amount (orchard_shielded_data tx) + orchard_amount (ironwood_shielded_data tx) =
      total_out tx + fee"
    if "remaining_transaction_value (pool_balances tx (outputs_from_utxos utxos)) = Ok fee" for fee
    using remaining_transaction_value_Ok(1)[OF that] by (simp add: pool_balances_def)
  ultimately show ?thesis unfolding tx_value_balance_def b(1) using b(2) by blast
qed

theorem transaction_value_balance_exact_witness:
  "let p = \<lparr>op_hash = [7], op_index = 0\<rparr>;
       tx = V4 [PrevOut p [] 0] [\<lparr>out_value = 30, lock_script = []\<rparr>] unlocked 0 None None;
       utxos = [p \<mapsto> \<lparr>ut_output = \<lparr>out_value = 100, lock_script = []\<rparr>, ut_height = 1, ut_from_coinbase = False\<rparr>]
   in tx_value_balance tx utxos = Ok (vb_zero\<lparr>vb_transparent := 70\<rparr>)"
proof -
  let ?p = "\<lparr>op_hash = [7], op_index = 0\<rparr>"
  let ?tx = "V4 [PrevOut ?p [] 0] [\<lparr>out_value = 30, lock_script = []\<rparr>] unlocked 0 None None"
  let ?utxos = "[?p \<mapsto> \<lparr>ut_output = \<lparr>out_value = 100, lock_script = []\<rparr>, ut_height = 1, ut_from_coinbase = False\<rparr>]"
  have 1: "spends_known ?tx (outputs_from_utxos ?utxos)" "valid_amounts ?tx"
    by (simp_all add: spends_known_def spent_outpoints_def map_filter_def outputs_from_utxos_def
        valid_amounts_def output_values_to_sprout_def input_values_from_sprout_def orchard_amount_def
        contains_def money_defs)
  have t: "total_in ?tx (outputs_from_utxos ?utxos) = 100" "total_out ?tx = 30" "sprout_changes ?tx = []"
    by (simp_all add: total_in_def total_out_def spent_value_def outputs_from_utxos_def sprout_changes_def)
  have "totals_in_range ?tx (outputs_from_utxos ?utxos)"
    unfolding totals_in_range_def t by (simp add: contains_def money_defs)
  moreover have "pool_balances ?tx (outputs_from_utxos ?utxos) = vb_zero\<lparr>vb_transparent := 70\<rparr>"
    unfolding pool_balances_def t by (simp add: orchard_amount_def vb_zero_def)
  ultimately show ?thesis unfolding Let_def using transaction_value_balance_exact[OF 1] by metis
qed

end
