(* ===== verification/Merkle.thy ===== *)
theory Merkle
  imports Transaction
begin

section \<open>Merkle roots of transactions (zebra-chain/src/block/merkle.rs)\<close>

text \<open>
  The two Merkle trees of a block: transaction ids with the last node of an odd level paired with
  itself, and authorizing data digests padded with null leaves to a full tree. The node hashes
  (double SHA-256 and personalised BLAKE2b) are third-party functions and arguments here.
\<close>

type_synonym node_hash = "bytes \<Rightarrow> bytes \<Rightarrow> bytes"

text \<open>One round of \<open>hashes.chunks(2).map(..)\<close>, and the loop until one node is left.\<close>

fun merkle_level :: "node_hash \<Rightarrow> bytes list \<Rightarrow> bytes list" where
  "merkle_level H (h1 # h2 # hs) = H h1 h2 # merkle_level H hs"
| "merkle_level H [h1] = [H h1 h1]"
| "merkle_level H [] = []"

lemma length_merkle_level [simp]: "length (merkle_level H hs) = (length hs + 1) div 2"
  by (induction H hs rule: merkle_level.induct) auto

lemma merkle_level_Nil [simp]: "merkle_level H hs = [] \<longleftrightarrow> hs = []"
  by (cases "(H, hs)" rule: merkle_level.cases) auto

function merkle_loop :: "node_hash \<Rightarrow> bytes list \<Rightarrow> bytes list" where
  "merkle_loop H hs = (if length hs > 1 then merkle_loop H (merkle_level H hs) else hs)"
  by pat_completeness auto
termination by (relation "measure (\<lambda>(H, hs). length hs)") auto

declare merkle_loop.simps [simp del]

text \<open>Indexing the first node of an empty list panics.\<close>

definition merkle_root :: "node_hash \<Rightarrow> tx_hash list \<Rightarrow> (bytes, 'e) outcome" where
  "merkle_root sha256d hashes = expect (list_get (merkle_loop sha256d hashes) 0)"

fun auth_level :: "node_hash \<Rightarrow> bytes list \<Rightarrow> (bytes list, 'e) outcome" where
  "auth_level H (h1 # h2 # hs) = and_then (auth_level H hs) (\<lambda>rest. Ok (H h1 h2 # rest))"
| "auth_level H [h1] = Panic"
| "auth_level H [] = Ok []"

lemma auth_level_even:
  "even (length hs) \<Longrightarrow> auth_level H hs = Ok (merkle_level H hs)"
  by (induction H hs rule: merkle_level.induct) auto

lemma auth_level_Ok: "auth_level H hs = Ok hs' \<Longrightarrow> hs' = merkle_level H hs \<and> even (length hs)"
  by (induction H hs arbitrary: hs' rule: merkle_level.induct) (auto simp: rust_simps)

function auth_loop :: "node_hash \<Rightarrow> bytes list \<Rightarrow> (bytes list, 'e) outcome" where
  "auth_loop H hs =
     (if length hs > 1 then
        (case auth_level H hs of
           Ok hs' \<Rightarrow> auth_loop H hs' | Err e \<Rightarrow> Err e | Panic \<Rightarrow> Panic)
      else Ok hs)"
  by pat_completeness auto
termination by (relation "measure (\<lambda>(H, hs). length hs)") (auto dest!: auth_level_Ok)

declare auth_loop.simps [simp del]

text \<open>\<open>usize::next_power_of_two\<close>: the least power of two that is not less.\<close>

fun next_power_of_two :: "nat \<Rightarrow> nat" where
  "next_power_of_two n = (if n \<le> 1 then 1 else 2 * next_power_of_two ((n + 1) div 2))"

declare next_power_of_two.simps [simp del]

definition null_leaf :: bytes where
  "null_leaf = replicate 32 0"

definition auth_data_root :: "node_hash \<Rightarrow> bytes list \<Rightarrow> (bytes, 'e) outcome" where
  "auth_data_root blake2b hashes =
     (let pad_count = next_power_of_two (length hashes) - length hashes;
          padded = hashes @ replicate pad_count null_leaf
      in and_then (auth_loop blake2b padded) (\<lambda>hs. expect (list_get hs 0)))"

definition AUTH_DIGEST_PLACEHOLDER :: bytes where
  "AUTH_DIGEST_PLACEHOLDER = replicate 32 0xff"

text \<open>The digest is computed by a third-party library for version 5 and later.\<close>

definition auth_digest_or_placeholder :: "(transaction \<Rightarrow> bytes) \<Rightarrow> transaction \<Rightarrow> bytes" where
  "auth_digest_or_placeholder auth_digest tx =
     (if version tx < 5 then AUTH_DIGEST_PLACEHOLDER else auth_digest tx)"

subsection \<open>The loops\<close>

lemma merkle_loop_small [simp]: "length hs \<le> 1 \<Longrightarrow> merkle_loop H hs = hs"
  by (simp add: merkle_loop.simps)

lemma merkle_loop_step: "1 < length hs \<Longrightarrow> merkle_loop H hs = merkle_loop H (merkle_level H hs)"
  by (subst merkle_loop.simps) simp

lemma length_merkle_loop: "hs \<noteq> [] \<Longrightarrow> length (merkle_loop H hs) = 1"
proof (induction H hs rule: merkle_loop.induct)
  case (1 H hs)
  show ?case
  proof (cases "1 < length hs")
    case True
    then have "length (merkle_loop H (merkle_level H hs)) = 1" using 1 by simp
    then show ?thesis by (simp only: merkle_loop_step[OF True])
  qed (use 1 in \<open>cases hs; auto\<close>)
qed

lemma merkle_root_Ok: "hs \<noteq> [] \<Longrightarrow> merkle_root H hs = Ok (hd (merkle_loop H hs))"
  using length_merkle_loop[of hs H] by (cases "merkle_loop H hs") (auto simp: merkle_root_def list_get_def)

subsection \<open>Collision or equality\<close>

definition collision :: "node_hash \<Rightarrow> bool" where
  "collision H \<longleftrightarrow> (\<exists>a b c d. (a, b) \<noteq> (c, d) \<and> H a b = H c d)"

fun merkle_depth :: "nat \<Rightarrow> nat" where
  "merkle_depth n = (if n \<le> 1 then 0 else Suc (merkle_depth ((n + 1) div 2)))"

declare merkle_depth.simps [simp del]

lemma merkle_level_elems: "set (merkle_level H hs) \<subseteq> {H a b | a b. a \<in> set hs}"
  by (induction H hs rule: merkle_level.induct) (simp_all, blast+)

lemma collision_inj:
  assumes nc: "\<not> collision H"
  shows "H a b = H c d \<longleftrightarrow> a = c \<and> b = d"
proof -
  have "collision H" if "H a b = H c d" "(a, b) \<noteq> (c, d)"
    unfolding collision_def using that by (intro exI[of _ a] exI[of _ b] exI[of _ c] exI[of _ d] conjI)
  with nc show ?thesis by auto
qed

lemma merkle_level_distinct:
  assumes nc: "\<not> collision H"
  shows "distinct hs \<Longrightarrow> distinct (merkle_level H hs)"
proof (induction hs rule: induct_list012)
  case (3 h1 h2 hs)
  have "H h1 h2 \<noteq> H a b" if "a \<in> set hs" for a b
    unfolding collision_inj[OF nc] using that "3.prems" by auto
  then have "H h1 h2 \<notin> set (merkle_level H hs)" using merkle_level_elems[of H hs] by blast
  moreover have "distinct (merkle_level H hs)" using 3 by simp
  ultimately show ?case by simp
qed simp_all

lemma merkle_level_Cons2:
  "merkle_level H (h1 # h2 # hs) = merkle_level H hs' \<Longrightarrow> \<not> collision H \<Longrightarrow> distinct hs' \<Longrightarrow> h1 \<noteq> h2 \<Longrightarrow>
   \<exists>t. hs' = h1 # h2 # t \<and> merkle_level H hs = merkle_level H t"
  by (cases "(H, hs')" rule: merkle_level.cases) (auto simp: collision_inj)

lemma merkle_level_inj:
  assumes nc: "\<not> collision H"
  shows "distinct hs \<Longrightarrow> distinct hs' \<Longrightarrow> merkle_level H hs = merkle_level H hs' \<Longrightarrow> hs = hs'"
proof (induction hs arbitrary: hs' rule: induct_list012)
  case 1
  then show ?case by (cases "(H, hs')" rule: merkle_level.cases) simp_all
next
  case (2 h)
  then show ?case
    by (cases "(H, hs')" rule: merkle_level.cases) (auto simp: collision_inj[OF nc])
next
  case (3 h1 h2 hs)
  from "3.prems" have "h1 \<noteq> h2" by simp
  from merkle_level_Cons2[OF "3.prems"(3) nc "3.prems"(2) this]
  obtain t where t: "hs' = h1 # h2 # t" "merkle_level H hs = merkle_level H t" by blast
  from "3.prems" t have "distinct hs" "distinct t" by simp_all
  from "3.IH"(1)[OF this t(2)] show ?case using t(1) by simp
qed

lemma merkle_loop_inj:
  "\<not> collision H \<Longrightarrow> distinct hs \<Longrightarrow> distinct hs' \<Longrightarrow> hs \<noteq> [] \<Longrightarrow> hs' \<noteq> [] \<Longrightarrow>
   merkle_depth (length hs) = merkle_depth (length hs') \<Longrightarrow>
   merkle_loop H hs = merkle_loop H hs' \<Longrightarrow> hs = hs'"
proof (induction H hs arbitrary: hs' rule: merkle_loop.induct)
  case (1 H hs)
  have depth0: "merkle_depth n = 0 \<longleftrightarrow> n \<le> 1" for n by (subst merkle_depth.simps) simp
  have depthS: "1 < n \<Longrightarrow> merkle_depth n = Suc (merkle_depth ((n + 1) div 2))" for n
    by (subst merkle_depth.simps) simp
  show ?case
  proof (cases "1 < length hs")
    case True
    then have l': "1 < length hs'" using "1.prems"(6) depth0 by (metis not_le)
    have "merkle_level H hs = merkle_level H hs'"
    proof (rule "1.IH"[OF True])
      show "merkle_depth (length (merkle_level H hs)) = merkle_depth (length (merkle_level H hs'))"
        using "1.prems"(6) depthS[OF True] depthS[OF l'] by simp
      show "merkle_loop H (merkle_level H hs) = merkle_loop H (merkle_level H hs')"
        using "1.prems"(7) merkle_loop_step[OF True] merkle_loop_step[OF l'] by simp
      show "\<not> collision H" by (rule "1.prems"(1))
      show "distinct (merkle_level H hs)" "distinct (merkle_level H hs')"
        using merkle_level_distinct[OF "1.prems"(1)] "1.prems"(2,3) by blast+
    qed (simp_all add: "1.prems"(4,5))
    then show ?thesis by (rule merkle_level_inj[OF "1.prems"(1-3)])
  next
    case False
    then have "length hs' \<le> 1" using "1.prems"(6) depth0 by (metis not_le)
    then show ?thesis using False "1.prems"(7) by (simp add: merkle_loop.simps)
  qed
qed

text \<open>The malleability the duplicate check is for: repeating the last of an odd number of leaves.\<close>

lemma merkle_level_repeat_last: "odd (length (hs @ [h])) \<Longrightarrow> merkle_level H (hs @ [h, h]) = merkle_level H (hs @ [h])"
  by (induction H hs rule: merkle_level.induct) auto

lemma merkle_root_repeat_last:
  assumes "odd (length (hs @ [h]))" "hs \<noteq> []"
  shows "merkle_root H (hs @ [h, h]) = merkle_root H (hs @ [h])"
proof -
  have "1 < length (hs @ [h])" "1 < length (hs @ [h, h])" using assms(2) by auto
  then show ?thesis using merkle_level_repeat_last[OF assms(1)] by (simp add: merkle_root_def merkle_loop_step)
qed

subsection \<open>The authorizing data root\<close>

lemma power_of_two_next: "\<exists>k. next_power_of_two n = 2 ^ k"
proof (induction n rule: next_power_of_two.induct)
  case (1 n)
  show ?case
  proof (cases "n \<le> 1")
    case False
    then obtain k where "next_power_of_two ((n + 1) div 2) = 2 ^ k" using 1 by blast
    then show ?thesis using False by (subst next_power_of_two.simps) (auto intro!: exI[of _ "Suc k"])
  qed (auto simp: next_power_of_two.simps intro: exI[of _ 0])
qed

lemma next_power_of_two_ge: "n \<le> next_power_of_two n"
proof (induction n rule: next_power_of_two.induct)
  case (1 n)
  then show ?case by (subst next_power_of_two.simps) (auto; linarith)
qed

lemma auth_loop_full: "length hs = 2 ^ k \<Longrightarrow> auth_loop H hs = Ok (merkle_loop H hs)"
proof (induction k arbitrary: hs)
  case 0
  then show ?case by (subst auth_loop.simps) simp
next
  case (Suc k)
  have "(1 :: nat) < 2 ^ Suc k" by (rule one_less_power) simp_all
  then have l: "1 < length hs" "even (length hs)" using Suc.prems by simp_all
  have "length (merkle_level H hs) = 2 ^ k" using Suc.prems by simp
  with Suc.IH l show ?case by (subst auth_loop.simps) (simp add: auth_level_even merkle_loop_step)
qed

lemma auth_data_root_eq:
  "auth_data_root H hs =
     merkle_root H (hs @ replicate (next_power_of_two (length hs) - length hs) null_leaf)"
proof -
  obtain k where k: "next_power_of_two (length hs) = 2 ^ k" using power_of_two_next by blast
  have "length (hs @ replicate (next_power_of_two (length hs) - length hs) null_leaf) = 2 ^ k"
    using next_power_of_two_ge[of "length hs"] k by simp
  then show ?thesis
    unfolding auth_data_root_def Let_def merkle_root_def
    by (subst auth_loop_full[of _ k]) simp_all
qed

end
