(* ===== verification/Block_Header.thy ===== *)
theory Block_Header
  imports Merkle
begin

section \<open>Block headers (zebra-chain/src/block/header.rs, serialize.rs, commitment.rs)\<close>

text \<open>
  The header with its wire form, its hash, its Equihash solution and the interpretation of its
  commitment field. Times are seconds since the Unix epoch. SHA-256d, the Equihash verifier and the
  canonical-field check of Sapling roots are third-party functions and arguments here.
\<close>

subsection \<open>Equihash solutions (work/equihash.rs)\<close>

datatype solution = CommonSolution bytes | RegtestSolution bytes

definition SOLUTION_SIZE :: nat where
  "SOLUTION_SIZE = 1344"

definition REGTEST_SOLUTION_SIZE :: nat where
  "REGTEST_SOLUTION_SIZE = 36"

definition SOLUTION_INPUT_LENGTH :: nat where
  "SOLUTION_INPUT_LENGTH = 4 + 32 * 3 + 4 * 2"

fun solution_value :: "solution \<Rightarrow> bytes" where
  "solution_value (CommonSolution s) = s"
| "solution_value (RegtestSolution s) = s"

fun solution_parameters :: "solution \<Rightarrow> nat \<times> nat" where
  "solution_parameters (CommonSolution _) = (200, 9)"
| "solution_parameters (RegtestSolution _) = (48, 5)"

definition solution_from_bytes :: "bytes \<Rightarrow> (solution, serialization_error) outcome" where
  "solution_from_bytes s =
     (if length s = SOLUTION_SIZE then Ok (CommonSolution s)
      else if length s = REGTEST_SOLUTION_SIZE then Ok (RegtestSolution s)
      else Err (Parse ''incorrect equihash solution size''))"

definition solution_for_proposal :: solution where
  "solution_for_proposal = CommonSolution (replicate SOLUTION_SIZE 0)"

definition solution_for_proposal_for_network :: "checkpoint_list \<Rightarrow> network \<Rightarrow> (solution, 'e) outcome" where
  "solution_for_proposal_for_network tcl net =
     and_then (network_is_regtest tcl net) (\<lambda>regtest.
       Ok (if regtest then RegtestSolution (replicate REGTEST_SOLUTION_SIZE 0) else solution_for_proposal))"

definition solution_serialize :: "solution writer" where
  "solution_serialize s = zcash_serialize_bytes (solution_value s)"

definition solution_deserialize :: "solution reader" where
  "solution_deserialize bs =
     and_then (compact_size_message_deserialize bs) (\<lambda>(len, bs).
       if len > SOLUTION_SIZE then Err (Parse ''incorrect equihash solution size'')
       else and_then (zcash_deserialize_bytes_external_count len bs) (\<lambda>(s, bs).
         and_then (solution_from_bytes s) (\<lambda>s. Ok (s, bs))))"

subsection \<open>The header\<close>

record header =
  hd_version :: nat
  hd_previous_block_hash :: block_hash
  hd_merkle_root :: bytes
  hd_commitment_bytes :: bytes
  hd_time :: int
  hd_difficulty_threshold :: compact
  hd_nonce :: bytes
  hd_solution :: solution

definition ZCASH_BLOCK_VERSION :: nat where
  "ZCASH_BLOCK_VERSION = 4"

datatype block_time_error = InvalidBlockTime int height block_hash int

definition time_is_valid_at :: "header \<Rightarrow> int \<Rightarrow> height \<Rightarrow> block_hash \<Rightarrow> (unit, block_time_error) outcome" where
  "time_is_valid_at h now height hash =
     (let two_hours_in_the_future = now + 2 * 60 * 60 in
      if hd_time h \<le> two_hours_in_the_future then Ok ()
      else Err (InvalidBlockTime (hd_time h) height hash two_hours_in_the_future))"

definition check_version :: "nat \<Rightarrow> (unit, string) outcome" where
  "check_version v =
     (if v div 2 ^ 31 \<noteq> 0 then Err ''high bit was set in version field''
      else if v < ZCASH_BLOCK_VERSION then Err ''version must be at least 4''
      else Ok ())"

definition header_serialize :: "header writer" where
  "header_serialize h =
     and_then (map_err (\<lambda>_. Io) (check_version (hd_version h))) (\<lambda>_.
     and_then (write_u32 (hd_version h)) (\<lambda>v.
     and_then (and_then (expect (checked 0 u32_max (hd_time h))) (\<lambda>t. write_u32 (nat t))) (\<lambda>t.
     and_then (write_u32 (unat (hd_difficulty_threshold h))) (\<lambda>d.
     and_then (solution_serialize (hd_solution h)) (\<lambda>s.
       Ok (v @ hd_previous_block_hash h @ hd_merkle_root h @ hd_commitment_bytes h @ t @ d @
           hd_nonce h @ s))))))"

definition header_deserialize :: "header reader" where
  "header_deserialize bs =
     and_then (read_u32 bs) (\<lambda>(version, bs).
     and_then (map_err Parse (check_version version)) (\<lambda>_.
     and_then (read_exact 32 bs) (\<lambda>(previous, bs).
     and_then (read_exact 32 bs) (\<lambda>(root, bs).
     and_then (read_exact 32 bs) (\<lambda>(commitment, bs).
     and_then (read_u32 bs) (\<lambda>(time, bs).
     and_then (read_u32 bs) (\<lambda>(threshold, bs).
     and_then (read_exact 32 bs) (\<lambda>(nonce, bs).
     and_then (solution_deserialize bs) (\<lambda>(solution, bs).
       Ok (\<lparr>hd_version = version, hd_previous_block_hash = previous, hd_merkle_root = root,
            hd_commitment_bytes = commitment, hd_time = int time,
            hd_difficulty_threshold = of_nat threshold, hd_nonce = nonce,
            hd_solution = solution\<rparr>, bs))))))))))"

text \<open>The transaction count of a header-only message is written as zero and ignored when read.\<close>

definition counted_header_serialize :: "header writer" where
  "counted_header_serialize h =
     and_then (header_serialize h) (\<lambda>b.
     and_then (expect_ok (compact_size_message_try_from 0)) (\<lambda>count.
     and_then (compact_size_message_serialize count) (\<lambda>c. Ok (b @ c))))"

definition counted_header_deserialize :: "header reader" where
  "counted_header_deserialize bs =
     and_then (header_deserialize bs) (\<lambda>(h, bs).
     and_then (compact_size_message_deserialize bs) (\<lambda>(_, bs). Ok (h, bs)))"

definition header_hash :: "(bytes \<Rightarrow> bytes) \<Rightarrow> header \<Rightarrow> (block_hash, 'e) outcome" where
  "header_hash sha256d h = and_then (expect_ok (header_serialize h)) (\<lambda>b. Ok (sha256d b))"

text \<open>
  \<open>Solution::check\<close>: the verifier gets the parameters of the solution's kind, the header up to the
  nonce, the nonce and the solution.
\<close>

definition equihash_solution_is_valid ::
  "(nat \<Rightarrow> nat \<Rightarrow> bytes \<Rightarrow> bytes \<Rightarrow> bytes \<Rightarrow> bool) \<Rightarrow> header \<Rightarrow> (unit, unit) outcome" where
  "equihash_solution_is_valid is_valid_solution h =
     (let (n, k) = solution_parameters (hd_solution h) in
      and_then (expect_ok (header_serialize h)) (\<lambda>input.
        if length input < SOLUTION_INPUT_LENGTH then Panic
        else if is_valid_solution n k (take SOLUTION_INPUT_LENGTH input) (hd_nonce h)
                  (solution_value (hd_solution h)) then Ok ()
        else Err ()))"

subsection \<open>Commitments (block/commitment.rs)\<close>

datatype commitment =
    PreSaplingReserved bytes
  | FinalSaplingRoot bytes
  | ChainHistoryActivationReserved
  | ChainHistoryRoot bytes
  | ChainHistoryBlockTxAuthCommitment bytes

datatype commitment_error =
    InvalidFinalSaplingRoot bytes bytes
  | InvalidChainHistoryActivationReserved bytes
  | InvalidChainHistoryRoot bytes bytes
  | InvalidChainHistoryBlockTxAuthCommitment bytes bytes
  | InvalidAuthDataRoot bytes bytes
  | MissingBlockHeight block_hash
  | InvalidSapingRootBytes

definition CHAIN_HISTORY_ACTIVATION_RESERVED :: bytes where
  "CHAIN_HISTORY_ACTIVATION_RESERVED = replicate 32 0"

definition commitment_reserved :: "bytes \<Rightarrow> (commitment, commitment_error) outcome" where
  "commitment_reserved bs =
     (if bs = CHAIN_HISTORY_ACTIVATION_RESERVED then Ok ChainHistoryActivationReserved
      else Err (InvalidChainHistoryActivationReserved bs))"

definition commitment_from_bytes ::
  "(bytes \<Rightarrow> bool) \<Rightarrow> bytes \<Rightarrow> network \<Rightarrow> height \<Rightarrow> (commitment, commitment_error) outcome" where
  "commitment_from_bytes is_sapling_root bs net height =
     and_then (current_with_activation_height (activation_list net) height) (\<lambda>(nu, activation_height).
       if nu \<in> {Genesis, BeforeOverwinter, Overwinter} then Ok (PreSaplingReserved bs)
       else if nu \<in> {Sapling, Blossom} then
         (if is_sapling_root bs then Ok (FinalSaplingRoot bs) else Err InvalidSapingRootBytes)
       else if nu = Heartwood \<and> height = activation_height then commitment_reserved bs
       else if nu = Canopy \<and> Some height = upgrade_activation_height (activation_list net) Heartwood then
         commitment_reserved bs
       else if nu \<in> {Heartwood, Canopy} then Ok (ChainHistoryRoot bs)
       else Ok (ChainHistoryBlockTxAuthCommitment bs))"

definition header_commitment ::
  "(bytes \<Rightarrow> bool) \<Rightarrow> header \<Rightarrow> network \<Rightarrow> height \<Rightarrow> (commitment, commitment_error) outcome" where
  "header_commitment is_sapling_root h net height =
     commitment_from_bytes is_sapling_root (hd_commitment_bytes h) net height"

text \<open>ZIP-244: the personalised hash of the history root, the authorizing data root and a terminator.\<close>

definition from_commitments :: "(bytes \<Rightarrow> bytes) \<Rightarrow> bytes \<Rightarrow> bytes \<Rightarrow> bytes" where
  "from_commitments blake2b history_root auth_root =
     blake2b (history_root @ auth_root @ replicate 32 0)"

subsection \<open>The codec of solutions and headers\<close>

definition valid_solution :: "solution \<Rightarrow> bool" where
  "valid_solution s \<longleftrightarrow>
     (case s of CommonSolution b \<Rightarrow> length b = SOLUTION_SIZE
      | RegtestSolution b \<Rightarrow> length b = REGTEST_SOLUTION_SIZE)"

definition valid_header :: "header \<Rightarrow> bool" where
  "valid_header h \<longleftrightarrow>
     ZCASH_BLOCK_VERSION \<le> hd_version h \<and> hd_version h < 2 ^ 31 \<and>
     length (hd_previous_block_hash h) = 32 \<and> length (hd_merkle_root h) = 32 \<and>
     length (hd_commitment_bytes h) = 32 \<and> 0 \<le> hd_time h \<and> hd_time h < 2 ^ 32 \<and>
     length (hd_nonce h) = 32 \<and> valid_solution (hd_solution h)"

lemma solution_sizes: "valid_solution s \<Longrightarrow> length (solution_value s) \<le> 1344"
  by (auto simp: valid_solution_def SOLUTION_SIZE_def REGTEST_SOLUTION_SIZE_def split: solution.splits)

lemma solution_from_bytes_Ok [rust_simps]:
  "solution_from_bytes b = Ok s \<longleftrightarrow> valid_solution s \<and> solution_value s = b"
  by (auto simp: solution_from_bytes_def valid_solution_def SOLUTION_SIZE_def REGTEST_SOLUTION_SIZE_def
      split: solution.splits if_splits)

lemma solution_from_bytes_not_Panic [simp]: "solution_from_bytes b \<noteq> Panic"
  by (simp add: solution_from_bytes_def)

lemma bytes_prefix_Ok:
  "length v \<le> MAX_U8_ALLOCATION \<Longrightarrow>
   zcash_serialize_bytes v = Ok (compact_size64_serialize (length v) @ v)"
  by (simp add: zcash_serialize_bytes_def compact_size_message_try_from_def
      compact_size_message_serialize_def zcash_serialize_bytes_external_count_def alloc_defs)

interpretation solutionc: zcash_codec solution_serialize solution_deserialize valid_solution
proof
  fix x :: solution and b rest bs
  show "\<exists>b. solution_serialize x = Ok b" if "valid_solution x"
    using solution_sizes[OF that] by (simp add: solution_serialize_def bytes_prefix_Ok alloc_defs)
  show "solution_deserialize (b @ rest) = Ok (x, rest)"
    if "valid_solution x" "solution_serialize x = Ok b"
  proof -
    let ?v = "solution_value x"
    have l: "length ?v \<le> 1344" by (rule solution_sizes[OF that(1)])
    then have b: "b = compact_size64_serialize (length ?v) @ ?v"
      using that(2) by (simp add: solution_serialize_def bytes_prefix_Ok alloc_defs)
    have "compact_size_message_deserialize (compact_size64_serialize (length ?v) @ ?v @ rest) =
        Ok (length ?v, ?v @ rest)"
      using l by (intro csm.de_ser) (simp_all add: compact_size_message_serialize_def alloc_defs)
    moreover have "solution_from_bytes ?v = Ok x" using that(1) by (simp add: rust_simps)
    ultimately show ?thesis
      using l by (simp add: b solution_deserialize_def zcash_deserialize_bytes_external_count_def
          SOLUTION_SIZE_def alloc_defs)
  qed
  show "valid_solution x \<and> (\<exists>b. solution_serialize x = Ok b \<and> bs = b @ rest)"
    if "solution_deserialize bs = Ok (x, rest)"
  proof -
    from that obtain len bs' where l: "compact_size_message_deserialize bs = Ok (len, bs')"
      and s: "len \<le> MAX_U8_ALLOCATION" "read_exact len bs' = Ok (solution_value x, rest)" "valid_solution x"
      by (auto simp: solution_deserialize_def zcash_deserialize_bytes_external_count_def rust_simps
          split: if_splits)
    from csm.de_canonical[OF l] s show ?thesis
      by (auto simp: solution_serialize_def bytes_prefix_Ok rust_simps compact_size_message_serialize_def)
  qed
  show "solution_deserialize bs \<noteq> Panic"
    using csm.de_no_panic
    by (auto simp: solution_deserialize_def zcash_deserialize_bytes_external_count_def rust_simps
        and_then_Panic_iff split: if_splits)
qed

lemma check_version_Ok [rust_simps]:
  "check_version v = Ok u \<longleftrightarrow> ZCASH_BLOCK_VERSION \<le> v \<and> v < 2 ^ 31"
  by (auto simp: check_version_def)

lemma check_version_not_Panic [simp]: "check_version v \<noteq> Panic"
  by (simp add: check_version_def)

lemma header_serialize_eq:
  assumes "valid_header h"
  shows "header_serialize h =
    and_then (solution_serialize (hd_solution h)) (\<lambda>s.
      Ok (le_bytes 4 (hd_version h) @ hd_previous_block_hash h @ hd_merkle_root h @
          hd_commitment_bytes h @ le_bytes 4 (nat (hd_time h)) @
          le_bytes 4 (unat (hd_difficulty_threshold h)) @ hd_nonce h @ s))"
proof -
  have "check_version (hd_version h) = Ok ()" "checked 0 u32_max (hd_time h) = Some (hd_time h)"
    using assms by (simp_all add: valid_header_def rust_simps checked_def u32_max_def)
  then show ?thesis by (simp add: header_serialize_def write_u32_def)
qed

lemma header_deserialize_Ok:
  "header_deserialize bs = Ok (h, rest) \<longleftrightarrow>
     valid_header h \<and> (\<exists>b. solution_serialize (hd_solution h) = Ok b \<and>
       bs = le_bytes 4 (hd_version h) @ hd_previous_block_hash h @ hd_merkle_root h @
          hd_commitment_bytes h @ le_bytes 4 (nat (hd_time h)) @
          le_bytes 4 (unat (hd_difficulty_threshold h)) @ hd_nonce h @ b @ rest)"
proof
  assume "header_deserialize bs = Ok (h, rest)"
  then show "valid_header h \<and> (\<exists>b. solution_serialize (hd_solution h) = Ok b \<and>
       bs = le_bytes 4 (hd_version h) @ hd_previous_block_hash h @ hd_merkle_root h @
          hd_commitment_bytes h @ le_bytes 4 (nat (hd_time h)) @
          le_bytes 4 (unat (hd_difficulty_threshold h)) @ hd_nonce h @ b @ rest)"
    by (auto simp: header_deserialize_def read_u32_def rust_simps valid_header_def unat_of_nat
        take_bit_nat_eq_self dest!: solutionc.de_canonical)
next
  assume a: "valid_header h \<and> (\<exists>b. solution_serialize (hd_solution h) = Ok b \<and>
       bs = le_bytes 4 (hd_version h) @ hd_previous_block_hash h @ hd_merkle_root h @
          hd_commitment_bytes h @ le_bytes 4 (nat (hd_time h)) @
          le_bytes 4 (unat (hd_difficulty_threshold h)) @ hd_nonce h @ b @ rest)"
  then obtain b where b: "solution_serialize (hd_solution h) = Ok b"
      "bs = le_bytes 4 (hd_version h) @ hd_previous_block_hash h @ hd_merkle_root h @
          hd_commitment_bytes h @ le_bytes 4 (nat (hd_time h)) @
          le_bytes 4 (unat (hd_difficulty_threshold h)) @ hd_nonce h @ b @ rest" by blast
  have v: "valid_header h" using a by blast
  have "check_version (hd_version h) = Ok ()" using v by (simp add: valid_header_def rust_simps)
  moreover have "unat (hd_difficulty_threshold h) < 256 ^ 4"
    by (rule less_le_trans[OF unsigned_less]) simp
  moreover have "solution_deserialize (b @ rest) = Ok (hd_solution h, rest)"
    using v b(1) by (intro solutionc.de_ser) (simp_all add: valid_header_def)
  ultimately show "header_deserialize bs = Ok (h, rest)"
    using v by (simp add: b(2) header_deserialize_def read_u32_def valid_header_def nat_less_iff)
qed

interpretation headerc: zcash_codec header_serialize header_deserialize valid_header
proof
  fix x :: header and b rest bs
  show "\<exists>b. header_serialize x = Ok b" if "valid_header x"
    using solutionc.ser_Ok[of "hd_solution x"] that
    by (auto simp: header_serialize_eq[OF that] valid_header_def)
  show "header_deserialize (b @ rest) = Ok (x, rest)" if "valid_header x" "header_serialize x = Ok b"
    using that by (auto simp: header_deserialize_Ok header_serialize_eq rust_simps)
  show "valid_header x \<and> (\<exists>b. header_serialize x = Ok b \<and> bs = b @ rest)"
    if "header_deserialize bs = Ok (x, rest)"
    using that by (auto simp: header_deserialize_Ok header_serialize_eq rust_simps)
  show "header_deserialize bs \<noteq> Panic"
    using solutionc.de_no_panic
    by (auto simp: header_deserialize_def read_u32_def and_then_Panic_iff rust_simps)
qed

end
