(* ===== verification/Block.thy ===== *)
theory Block
  imports Block_Header
begin

section \<open>Blocks (zebra-chain/src/block.rs, transparent/utxo.rs)\<close>

text \<open>
  A block is a header and its transactions. Transaction ids and authorizing digests are computed by
  a third-party library and are arguments.
\<close>

record block =
  bk_header :: header
  bk_transactions :: "transaction list"

datatype chain_block_error = ChainWrongTransactionConsensusBranchId

definition coinbase_height :: "block \<Rightarrow> height option" where
  "coinbase_height b =
     (case bk_transactions b of
        [] \<Rightarrow> None
      | tx # _ \<Rightarrow>
          (case inputs tx of
             Coinbase h _ _ # _ \<Rightarrow> Some h
           | _ \<Rightarrow> None))"

definition block_hash_of :: "(bytes \<Rightarrow> bytes) \<Rightarrow> block \<Rightarrow> (block_hash, 'e) outcome" where
  "block_hash_of sha256d b = header_hash sha256d (bk_header b)"

definition block_commitment ::
  "(bytes \<Rightarrow> bytes) \<Rightarrow> (bytes \<Rightarrow> bool) \<Rightarrow> block \<Rightarrow> network \<Rightarrow> (commitment, commitment_error) outcome" where
  "block_commitment sha256d is_sapling_root b net =
     (case coinbase_height b of
        None \<Rightarrow> and_then (block_hash_of sha256d b) (\<lambda>hash. Err (MissingBlockHeight hash))
      | Some height \<Rightarrow> commitment_from_bytes is_sapling_root (hd_commitment_bytes (bk_header b)) net height)"

definition check_transaction_network_upgrade_consistency ::
  "block \<Rightarrow> network \<Rightarrow> (unit, chain_block_error) outcome" where
  "check_transaction_network_upgrade_consistency b net =
     and_then (expect (coinbase_height b)) (\<lambda>height.
     and_then (current_upgrade (activation_list net) height) (\<lambda>block_nu.
       if \<exists>nu \<in> set (List.map_filter tx_network_upgrade (bk_transactions b)). nu \<noteq> block_nu
       then Err ChainWrongTransactionConsensusBranchId
       else Ok ()))"

definition block_sprout_nullifiers :: "block \<Rightarrow> bytes list" where
  "block_sprout_nullifiers b = concat (map sprout_nullifiers (bk_transactions b))"

definition block_sapling_nullifiers :: "block \<Rightarrow> bytes list" where
  "block_sapling_nullifiers b = concat (map sapling_nullifiers (bk_transactions b))"

definition block_orchard_nullifiers :: "block \<Rightarrow> bytes list" where
  "block_orchard_nullifiers b = concat (map orchard_nullifiers (bk_transactions b))"

definition block_ironwood_nullifiers :: "block \<Rightarrow> bytes list" where
  "block_ironwood_nullifiers b = concat (map ironwood_nullifiers (bk_transactions b))"

definition block_sprout_note_commitments :: "block \<Rightarrow> bytes list" where
  "block_sprout_note_commitments b = concat (map sprout_note_commitments (bk_transactions b))"

definition block_sapling_note_commitments :: "block \<Rightarrow> bytes list" where
  "block_sapling_note_commitments b = concat (map sapling_note_commitments (bk_transactions b))"

definition block_orchard_note_commitments :: "block \<Rightarrow> bytes list" where
  "block_orchard_note_commitments b = concat (map orchard_note_commitments (bk_transactions b))"

definition block_ironwood_note_commitments :: "block \<Rightarrow> bytes list" where
  "block_ironwood_note_commitments b = concat (map ironwood_note_commitments (bk_transactions b))"

definition sapling_transactions_count :: "block \<Rightarrow> nat" where
  "sapling_transactions_count b = length (filter has_sapling_shielded_data (bk_transactions b))"

definition orchard_transactions_count :: "block \<Rightarrow> nat" where
  "orchard_transactions_count b = length (filter has_orchard_shielded_data (bk_transactions b))"

definition ironwood_transactions_count :: "block \<Rightarrow> nat" where
  "ironwood_transactions_count b = length (filter has_ironwood_shielded_data (bk_transactions b))"

text \<open>The sum of the transactions' value balances, stopping at the first error.\<close>

fun tx_pool_fold :: "utxo outpoint_map \<Rightarrow> value_balance \<Rightarrow> transaction list \<Rightarrow> value_balance vb_result" where
  "tx_pool_fold utxos acc [] = Ok acc"
| "tx_pool_fold utxos acc (tx # txs) =
     and_then (tx_value_balance tx utxos) (\<lambda>v.
     and_then (vb_add (valid_range NegativeAllowed) acc v) (\<lambda>acc. tx_pool_fold utxos acc txs))"

definition block_value_pool_change ::
  "block \<Rightarrow> utxo outpoint_map \<Rightarrow> amount option \<Rightarrow> value_balance vb_result" where
  "block_value_pool_change b utxos deferred =
     and_then (tx_pool_fold utxos vb_zero (bk_transactions b)) (\<lambda>tx_pool_sum.
     and_then (vb_neg tx_pool_sum) (\<lambda>v.
       Ok (set_deferred_amount v (case deferred of Some d \<Rightarrow> d | None \<Rightarrow> 0))))"

definition block_auth_data_root ::
  "node_hash \<Rightarrow> (transaction \<Rightarrow> bytes) \<Rightarrow> block \<Rightarrow> (bytes, 'e) outcome" where
  "block_auth_data_root blake2b auth_digest b =
     auth_data_root blake2b (map (auth_digest_or_placeholder auth_digest) (bk_transactions b))"

subsection \<open>New outputs (transparent/utxo.rs)\<close>

fun insert_outputs ::
  "tx_hash \<Rightarrow> nat \<Rightarrow> height \<Rightarrow> (nat \<times> tx_output) list \<Rightarrow> ordered_utxo outpoint_map \<Rightarrow>
   (ordered_utxo outpoint_map, 'e) outcome" where
  "insert_outputs hash tx_index height [] m = Ok m"
| "insert_outputs hash tx_index height ((i, out) # rest) m =
     (if i < 2 ^ 32
      then insert_outputs hash tx_index height rest
             (m(\<lparr>op_hash = hash, op_index = i\<rparr> \<mapsto> ordered_utxo_new out height tx_index))
      else Panic)"

definition new_transaction_ordered_outputs ::
  "transaction \<Rightarrow> tx_hash \<Rightarrow> nat \<Rightarrow> height \<Rightarrow> (ordered_utxo outpoint_map, 'e) outcome" where
  "new_transaction_ordered_outputs tx hash tx_index height =
     insert_outputs hash tx_index height (List.enumerate 0 (outputs tx)) Map.empty"

fun extend_with_transactions ::
  "height \<Rightarrow> (nat \<times> transaction \<times> tx_hash) list \<Rightarrow> ordered_utxo outpoint_map \<Rightarrow>
   (ordered_utxo outpoint_map, 'e) outcome" where
  "extend_with_transactions height [] m = Ok m"
| "extend_with_transactions height ((i, tx, hash) # rest) m =
     and_then (new_transaction_ordered_outputs tx hash i height) (\<lambda>new.
       extend_with_transactions height rest (m ++ new))"

definition new_ordered_outputs_with_height ::
  "block \<Rightarrow> height \<Rightarrow> tx_hash list \<Rightarrow> (ordered_utxo outpoint_map, 'e) outcome" where
  "new_ordered_outputs_with_height b height hashes =
     extend_with_transactions height (List.enumerate 0 (zip (bk_transactions b) hashes)) Map.empty"

definition new_ordered_outputs :: "block \<Rightarrow> tx_hash list \<Rightarrow> (ordered_utxo outpoint_map, 'e) outcome" where
  "new_ordered_outputs b hashes =
     and_then (expect (coinbase_height b)) (\<lambda>height. new_ordered_outputs_with_height b height hashes)"

definition new_outputs :: "block \<Rightarrow> tx_hash list \<Rightarrow> (utxo outpoint_map, 'e) outcome" where
  "new_outputs b hashes =
     and_then (new_ordered_outputs b hashes) (\<lambda>m. Ok (utxos_from_ordered_utxos m))"

subsection \<open>The index of new outputs\<close>

lemma insert_outputs_enumerate:
  "insert_outputs hash ti height (List.enumerate k outs) m =
     (if k + length outs \<le> 2 ^ 32
      then Ok (\<lambda>p. if op_hash p = hash \<and> k \<le> op_index p \<and> op_index p < k + length outs
                   then Some (ordered_utxo_new (outs ! (op_index p - k)) height ti) else m p)
      else if outs = [] then Ok m else Panic)"
proof (induction outs arbitrary: k m)
  case (Cons out outs)
  have e: "(\<lparr>op_hash = hash, op_index = k\<rparr> = p) = (op_hash p = hash \<and> op_index p = k)" for p :: outpoint
    by (cases p) auto
  show ?case
    using Cons by (auto simp: fun_eq_iff fun_upd_def e nth_Cons' Suc_diff_le simp flip: Suc_le_eq)
qed (auto simp: fun_eq_iff)

lemma new_transaction_ordered_outputs_eq:
  "length (outputs tx) \<le> 2 ^ 32 \<Longrightarrow>
   new_transaction_ordered_outputs tx hash ti height =
     Ok (\<lambda>p. if op_hash p = hash \<and> op_index p < length (outputs tx)
             then Some (ordered_utxo_new (outputs tx ! op_index p) height ti) else None)"
  by (auto simp: new_transaction_ordered_outputs_def insert_outputs_enumerate fun_eq_iff)

text \<open>The output \<open>p\<close> is created by the \<open>i\<close>-th of the given transactions.\<close>

definition creates ::
  "height \<Rightarrow> nat \<Rightarrow> (transaction \<times> tx_hash) list \<Rightarrow> outpoint \<Rightarrow> ordered_utxo \<Rightarrow> bool" where
  "creates height k txs p u \<longleftrightarrow>
     (\<exists>i < length txs. snd (txs ! i) = op_hash p \<and> op_index p < length (outputs (fst (txs ! i))) \<and>
        u = ordered_utxo_new (outputs (fst (txs ! i)) ! op_index p) height (k + i))"

lemma creates_Nil [simp]: "\<not> creates height k [] p u"
  by (simp add: creates_def)

lemma creates_Cons:
  "creates height k ((tx, hash) # txs) p u \<longleftrightarrow>
     hash = op_hash p \<and> op_index p < length (outputs tx) \<and> u = ordered_utxo_new (outputs tx ! op_index p) height k \<or>
     creates height (Suc k) txs p u"
  by (auto simp: creates_def less_Suc_eq_0_disj)

lemma creates_hash: "creates height k txs p u \<Longrightarrow> op_hash p \<in> snd ` set txs"
  by (force simp: creates_def in_set_conv_nth)

lemma extend_with_transactions_eq:
  assumes "\<forall>tx \<in> fst ` set txs. length (outputs tx) \<le> 2 ^ 32" "distinct (map snd txs)"
    "\<forall>p. op_hash p \<in> snd ` set txs \<longrightarrow> m p = None"
  shows "\<exists>m'. extend_with_transactions height (List.enumerate k txs) m =
      (Ok m' :: (ordered_utxo outpoint_map, 'e) outcome) \<and>
    (\<forall>p u. m' p = Some u \<longleftrightarrow> m p = Some u \<or> creates height k txs p u)"
  using assms
proof (induction txs arbitrary: k m)
  case (Cons t txs)
  obtain tx hash where t: "t = (tx, hash)" by (cases t)
  let ?new = "\<lambda>p. if op_hash p = hash \<and> op_index p < length (outputs tx)
             then Some (ordered_utxo_new (outputs tx ! op_index p) height k) else None"
  have n: "new_transaction_ordered_outputs tx hash k height = (Ok ?new :: (ordered_utxo outpoint_map, 'e) outcome)"
    using Cons.prems(1) by (simp add: t new_transaction_ordered_outputs_eq)
  have "\<forall>p. op_hash p \<in> snd ` set txs \<longrightarrow> (m ++ ?new) p = None"
    using Cons.prems(2,3) by (auto simp: t map_add_def)
  then obtain m' where m': "extend_with_transactions height (List.enumerate (Suc k) txs) (m ++ ?new) =
        (Ok m' :: (ordered_utxo outpoint_map, 'e) outcome)"
      "\<forall>p u. m' p = Some u \<longleftrightarrow> (m ++ ?new) p = Some u \<or> creates height (Suc k) txs p u"
    using Cons.IH[of "m ++ ?new" "Suc k"] Cons.prems by (auto simp: t)
  have "(m ++ ?new) p = Some u \<longleftrightarrow>
      m p = Some u \<or> hash = op_hash p \<and> op_index p < length (outputs tx) \<and>
        u = ordered_utxo_new (outputs tx ! op_index p) height k" for p u
    using Cons.prems(3) by (auto simp: t map_add_def)
  then show ?case using m' n by (auto simp: t creates_Cons)
qed simp

lemma new_ordered_outputs_with_height_eq:
  assumes "\<forall>tx \<in> set (bk_transactions b). length (outputs tx) \<le> 2 ^ 32" "distinct hashes"
    "length hashes = length (bk_transactions b)"
  shows "\<exists>m. new_ordered_outputs_with_height b height hashes = (Ok m :: (ordered_utxo outpoint_map, 'e) outcome) \<and>
    (\<forall>p u. m p = Some u \<longleftrightarrow> creates height 0 (zip (bk_transactions b) hashes) p u)"
proof -
  have "\<forall>tx \<in> fst ` set (zip (bk_transactions b) hashes). length (outputs tx) \<le> 2 ^ 32"
    using assms(1) by (auto dest: set_zip_leftD)
  moreover have "distinct (map snd (zip (bk_transactions b) hashes))" using assms(2,3) by simp
  ultimately show ?thesis
    unfolding new_ordered_outputs_with_height_def
    using extend_with_transactions_eq[of "zip (bk_transactions b) hashes" Map.empty height 0, where 'e = 'e] by simp
qed

subsection \<open>The change of the chain value pools\<close>

definition pool_total :: "value_balance \<Rightarrow> amount" where
  "pool_total v = sum_list (amounts v)"

definition block_amounts_ok :: "block \<Rightarrow> utxo outpoint_map \<Rightarrow> bool" where
  "block_amounts_ok b utxos \<longleftrightarrow>
     (\<forall>tx \<in> set (bk_transactions b). spends_known tx (outputs_from_utxos utxos) \<and> valid_amounts tx)"

lemma pool_total_map2 [simp]: "pool_total (vb_map2 (+) v w) = pool_total v + pool_total w"
  by (simp add: pool_total_def amounts_def vb_map2_def)

lemma tx_value_balance_Ok:
  assumes "spends_known tx (outputs_from_utxos utxos)" "valid_amounts tx"
  shows "tx_value_balance tx utxos = Ok v \<longleftrightarrow>
      v = pool_balances tx (outputs_from_utxos utxos) \<and> totals_in_range tx (outputs_from_utxos utxos)"
    and "tx_value_balance tx utxos \<noteq> Panic"
  using value_balance_from_outputs_eq[OF assms] by (simp_all add: tx_value_balance_def)

lemma pool_balances_ok:
  assumes "totals_in_range tx spent" "valid_amounts tx"
  shows "vb_ok (valid_range NegativeAllowed) (pool_balances tx spent)"
proof -
  have "na (total_in tx spent - total_out tx)"
    using assms(1) by (auto simp: totals_in_range_def contains_def money_defs)
  moreover have "na (sum_list (sprout_changes tx))"
    using assms(1) unfolding totals_in_range_def by (metis order_refl take_all_iff)
  ultimately show ?thesis
    using assms(2) na_zero by (simp add: pool_balances_def valid_amounts_def del: valid_range.simps)
qed

lemma tx_pool_fold_Ok:
  assumes "vb_ok (valid_range NegativeAllowed) acc"
    "\<forall>tx \<in> set txs. spends_known tx (outputs_from_utxos utxos) \<and> valid_amounts tx"
  shows "tx_pool_fold utxos acc txs \<noteq> Panic"
    and "tx_pool_fold utxos acc txs = Ok w \<Longrightarrow>
      vb_ok (valid_range NegativeAllowed) w \<and>
      pool_total w = pool_total acc +
        (\<Sum>tx\<leftarrow>txs. pool_total (pool_balances tx (outputs_from_utxos utxos))) \<and>
      vb_deferred w = vb_deferred acc"
  using assms
proof (induction txs arbitrary: acc)
  case (Cons tx txs)
  let ?v = "pool_balances tx (outputs_from_utxos utxos)"
  {
    case 1
    have t: "spends_known tx (outputs_from_utxos utxos)" "valid_amounts tx" using 1 by simp_all
    have "tx_pool_fold utxos acc' txs \<noteq> Panic" if "vb_add (valid_range NegativeAllowed) acc v = Ok acc'"
      "v = ?v" "totals_in_range tx (outputs_from_utxos utxos)" for acc' v
    proof -
      have "vb_ok (valid_range NegativeAllowed) acc'"
        using that(1) unfolding that(2) na_ops(1)[OF 1(1) pool_balances_ok[OF that(3) t(2)]] by blast
      then show ?thesis using 1(2) by (intro Cons.IH(1)) auto
    qed
    moreover have "vb_add (valid_range NegativeAllowed) acc ?v \<noteq> Panic"
      if "totals_in_range tx (outputs_from_utxos utxos)"
      by (rule na_ops(2)[OF 1(1) pool_balances_ok[OF that t(2)]])
    ultimately show ?case
      using tx_value_balance_Ok[OF t] by (auto simp: and_then_Panic_iff)
  next
    case 2
    have t: "spends_known tx (outputs_from_utxos utxos)" "valid_amounts tx" using 2(3) by simp_all
    from 2(1) obtain acc' where r: "totals_in_range tx (outputs_from_utxos utxos)"
      "vb_add (valid_range NegativeAllowed) acc ?v = Ok acc'" "tx_pool_fold utxos acc' txs = Ok w"
      using tx_value_balance_Ok(1)[OF t] by (auto simp: and_then_Ok_iff)
    have a: "acc' = vb_map2 (+) acc ?v" "vb_ok (valid_range NegativeAllowed) acc'"
      using r(2) unfolding na_ops(1)[OF 2(2) pool_balances_ok[OF r(1) t(2)]] by blast+
    have "vb_deferred acc' = vb_deferred acc" by (simp add: a(1) vb_map2_def pool_balances_def)
    then show ?case using Cons.IH(2)[OF r(3) a(2)] 2(3) a(1) by auto
  }
qed auto

lemma block_value_pool_change_total:
  assumes "block_amounts_ok b utxos"
  shows "block_value_pool_change b utxos deferred \<noteq> Panic"
    and "block_value_pool_change b utxos deferred = Ok v \<Longrightarrow>
      pool_total v = (case deferred of Some d \<Rightarrow> d | None \<Rightarrow> 0) -
        (\<Sum>tx\<leftarrow>bk_transactions b. pool_total (pool_balances tx (outputs_from_utxos utxos)))"
proof -
  have all: "\<forall>tx \<in> set (bk_transactions b). spends_known tx (outputs_from_utxos utxos) \<and> valid_amounts tx"
    using assms by (simp add: block_amounts_ok_def)
  have z: "vb_ok (valid_range NegativeAllowed) vb_zero" by (rule amt.vb_zero_ok)
  note f = tx_pool_fold_Ok[OF z all]
  have n: "vb_neg w = Ok (vb_map2 (-) vb_zero w)" if "tx_pool_fold utxos vb_zero (bk_transactions b) = Ok w" for w
    using amt.vb_neg_Ok f(2)[OF that] by blast
  show "block_value_pool_change b utxos deferred \<noteq> Panic"
    using f(1) n by (auto simp: block_value_pool_change_def and_then_Panic_iff)
  assume "block_value_pool_change b utxos deferred = Ok v"
  then obtain w where w: "tx_pool_fold utxos vb_zero (bk_transactions b) = Ok w"
      "v = set_deferred_amount (vb_map2 (-) vb_zero w) (case deferred of Some d \<Rightarrow> d | None \<Rightarrow> 0)"
    using n by (auto simp: block_value_pool_change_def and_then_Ok_iff)
  then show "pool_total v = (case deferred of Some d \<Rightarrow> d | None \<Rightarrow> 0) -
        (\<Sum>tx\<leftarrow>bk_transactions b. pool_total (pool_balances tx (outputs_from_utxos utxos)))"
    using f(2)[OF w(1)] by (simp add: pool_total_def amounts_def set_deferred_amount_def vb_map2_def vb_zero_def)
qed

end
