(* ===== verification/Context_Checks.thy ===== *)
theory Context_Checks
  imports Block "HOL-Library.Multiset"
begin

section \<open>Contextual checks of blocks (zebra-state/src/service/check)\<close>

text \<open>
  The checks of a semantically verified block against the chain it extends: transparent spends
  (\<open>check/utxo.rs\<close>), nullifiers (\<open>check/nullifier.rs\<close>) and anchors (\<open>check/anchors.rs\<close>). The
  finalized database is represented by the lookups the checks make in it, the parent chain by its
  indexes.
\<close>

datatype (plugins only: code) validate_context_error =
    BlockPreviouslyInvalidated block_hash
  | NotReadyToBeCommitted
  | OrphanedBlock height height
  | NonSequentialBlock height height
  | TimeTooEarly int int
  | TimeTooLate int int
  | InvalidDifficultyThreshold compact compact
  | DuplicateTransparentSpend outpoint string
  | MissingTransparentOutput outpoint string
  | EarlyTransparentSpend outpoint
  | UnshieldedTransparentCoinbaseSpend outpoint
  | ImmatureTransparentCoinbaseSpend outpoint height height height
  | DuplicateSproutNullifier bytes bool
  | DuplicateSaplingNullifier bytes bool
  | DuplicateOrchardNullifier bytes bool
  | DuplicateIronwoodNullifier bytes bool
  | NegativeRemainingTransactionValue amount_error height nat tx_hash
  | CalculateRemainingTransactionValue amount_error height nat tx_hash
  | CalculateTransactionValueBalances value_balance_error height nat tx_hash
  | CalculateBlockChainValueChange value_balance_error height block_hash nat nat
  | AddValuePool value_balance_error value_balance value_balance "height option"
  | NoteCommitmentTreeError
  | HistoryTreeError
  | InvalidBlockCommitment commitment_error
  | UnknownSproutAnchor bytes "height option" "nat option" tx_hash
  | UnknownSaplingAnchor bytes "height option" "nat option" tx_hash
  | UnknownOrchardAnchor bytes "height option" "nat option" tx_hash
  | UnknownIronwoodAnchor bytes "height option" "nat option" tx_hash

type_synonym 'a context_result = "('a, validate_context_error) outcome"

text \<open>
  A semantically verified block (\<open>request.rs\<close>), what the checks read of the finalized database, and
  the indexes of a non-finalized chain that they read. The spending transaction ids are tracked, as
  with the \<open>indexer\<close> feature. Sprout note commitment trees are third-party frontiers: a type
  parameter with the operations of \<open>tree_lib\<close>.
\<close>

record semantically_verified =
  sv_block :: block
  sv_hash :: block_hash
  sv_height :: height
  sv_new_outputs :: "ordered_utxo outpoint_map"
  sv_transaction_hashes :: "tx_hash list"
  sv_deferred_pool_balance_change :: "amount option"
  sv_auth_data_root :: "bytes option"

record finalized_view =
  fv_network :: network
  fv_utxo :: "ordered_utxo outpoint_map"
  fv_sprout_nullifiers :: "bytes set"
  fv_sapling_nullifiers :: "bytes set"
  fv_orchard_nullifiers :: "bytes set"
  fv_ironwood_nullifiers :: "bytes set"
  fv_sapling_anchors :: "bytes set"
  fv_orchard_anchors :: "bytes set"
  fv_ironwood_anchors :: "bytes set"

record 't chain_index =
  ci_sprout_nullifiers :: "bytes \<Rightarrow> tx_hash option"
  ci_sapling_nullifiers :: "bytes \<Rightarrow> tx_hash option"
  ci_orchard_nullifiers :: "bytes \<Rightarrow> tx_hash option"
  ci_ironwood_nullifiers :: "bytes \<Rightarrow> tx_hash option"
  ci_sapling_anchors :: "bytes multiset"
  ci_orchard_anchors :: "bytes multiset"
  ci_ironwood_anchors :: "bytes multiset"
  ci_sprout_trees_by_anchor :: "bytes \<Rightarrow> 't option"

record 't tree_lib =
  tree_append :: "'t \<Rightarrow> bytes \<Rightarrow> 't option"
  tree_root_of :: "'t \<Rightarrow> bytes"

subsection \<open>Transparent spends (check/utxo.rs)\<close>

definition transparent_spend_chain_order ::
  "outpoint \<Rightarrow> nat \<Rightarrow> ordered_utxo outpoint_map \<Rightarrow> ordered_utxo outpoint_map \<Rightarrow> tx_hash outpoint_map \<Rightarrow>
   finalized_view \<Rightarrow> ordered_utxo context_result" where
  "transparent_spend_chain_order spend spend_tx_index block_new_outputs chain_unspent chain_spent fs =
     (case block_new_outputs spend of
        Some output \<Rightarrow>
          if ou_tx_index_in_block output \<ge> spend_tx_index then Err (EarlyTransparentSpend spend)
          else Ok output
      | None \<Rightarrow>
          if chain_spent spend \<noteq> None
          then Err (DuplicateTransparentSpend spend ''the non-finalized chain'')
          else ok_or (MissingTransparentOutput spend ''the non-finalized and finalized chain'')
                 (case chain_unspent spend of Some u \<Rightarrow> Some u | None \<Rightarrow> fv_utxo fs spend))"

definition transparent_coinbase_spend ::
  "outpoint \<Rightarrow> coinbase_spend_restriction \<Rightarrow> utxo \<Rightarrow> unit context_result" where
  "transparent_coinbase_spend p restriction u =
     (if \<not> ut_from_coinbase u then Ok ()
      else case restriction of
             CheckCoinbaseMaturity h \<Rightarrow>
               and_then (expect (height_plus (ut_height u) (int MIN_TRANSPARENT_COINBASE_MATURITY)))
                 (\<lambda>min_height.
                   if h \<ge> min_height then Ok ()
                   else Err (ImmatureTransparentCoinbaseSpend p h min_height (ut_height u)))
           | DisallowCoinbaseSpend \<Rightarrow> Err (UnshieldedTransparentCoinbaseSpend p))"

text \<open>The inner loop over the inputs of a transaction and the outer loop over the block.\<close>

fun spend_inputs ::
  "semantically_verified \<Rightarrow> ordered_utxo outpoint_map \<Rightarrow> tx_hash outpoint_map \<Rightarrow> finalized_view \<Rightarrow>
   nat \<Rightarrow> transaction \<Rightarrow> outpoint list \<Rightarrow> ordered_utxo outpoint_map \<Rightarrow>
   ordered_utxo outpoint_map context_result" where
  "spend_inputs sv unspent spent fs i tx [] block_spends = Ok block_spends"
| "spend_inputs sv unspent spent fs i tx (p # ps) block_spends =
     and_then (transparent_spend_chain_order p i (sv_new_outputs sv) unspent spent fs) (\<lambda>u.
     and_then (transparent_coinbase_spend p
                 (coinbase_spend_restriction tx (fv_network fs) (sv_height sv)) (ou_utxo u)) (\<lambda>_.
       if block_spends p \<noteq> None then Err (DuplicateTransparentSpend p ''the same block'')
       else spend_inputs sv unspent spent fs i tx ps (block_spends(p \<mapsto> u))))"

fun spend_transactions ::
  "semantically_verified \<Rightarrow> ordered_utxo outpoint_map \<Rightarrow> tx_hash outpoint_map \<Rightarrow> finalized_view \<Rightarrow>
   (nat \<times> transaction) list \<Rightarrow> ordered_utxo outpoint_map \<Rightarrow> ordered_utxo outpoint_map context_result" where
  "spend_transactions sv unspent spent fs [] block_spends = Ok block_spends"
| "spend_transactions sv unspent spent fs ((i, tx) # txs) block_spends =
     and_then (spend_inputs sv unspent spent fs i tx (spent_outpoints tx) block_spends)
       (\<lambda>block_spends. spend_transactions sv unspent spent fs txs block_spends)"

definition remaining_value_of ::
  "semantically_verified \<Rightarrow> utxo outpoint_map \<Rightarrow> nat \<times> transaction \<Rightarrow> unit context_result" where
  "remaining_value_of sv utxos = (\<lambda>(i, tx).
     if is_coinbase tx then Ok ()
     else
       let at = (\<lambda>k. and_then (expect (list_get (sv_transaction_hashes sv) i)) (\<lambda>h. Err (k h)))
       in case tx_value_balance tx utxos of
            Ok vb \<Rightarrow>
              (case remaining_transaction_value vb of
                 Ok _ \<Rightarrow> Ok ()
               | Err e \<Rightarrow>
                   (case e of
                      Constraint v r \<Rightarrow>
                        if invalid_value e < 0
                        then at (NegativeRemainingTransactionValue e (sv_height sv) i)
                        else at (CalculateRemainingTransactionValue e (sv_height sv) i)
                    | _ \<Rightarrow> at (CalculateRemainingTransactionValue e (sv_height sv) i))
               | Panic \<Rightarrow> Panic)
          | Err e \<Rightarrow> at (CalculateTransactionValueBalances e (sv_height sv) i)
          | Panic \<Rightarrow> Panic)"

definition check_remaining_transaction_value ::
  "semantically_verified \<Rightarrow> ordered_utxo outpoint_map \<Rightarrow> unit context_result" where
  "check_remaining_transaction_value sv utxos =
     try_for_each (remaining_value_of sv (utxos_from_ordered_utxos utxos))
       (List.enumerate 0 (bk_transactions (sv_block sv)))"

definition transparent_spend ::
  "semantically_verified \<Rightarrow> ordered_utxo outpoint_map \<Rightarrow> tx_hash outpoint_map \<Rightarrow> finalized_view \<Rightarrow>
   ordered_utxo outpoint_map context_result" where
  "transparent_spend sv unspent spent fs =
     and_then (spend_transactions sv unspent spent fs
         (List.enumerate 0 (bk_transactions (sv_block sv))) Map.empty) (\<lambda>block_spends.
     and_then (check_remaining_transaction_value sv block_spends) (\<lambda>_. Ok block_spends))"

subsection \<open>Nullifiers (check/nullifier.rs)\<close>

text \<open>The error constructor is the pool's \<open>duplicate_nullifier_error\<close>; it gets the nullifier and
  whether it was found in the finalized state.\<close>

definition in_finalized ::
  "bytes set \<Rightarrow> (bytes \<Rightarrow> bool \<Rightarrow> validate_context_error) \<Rightarrow> bytes \<Rightarrow> unit context_result" where
  "in_finalized fin mk n = (if n \<in> fin then Err (mk n True) else Ok ())"

definition no_duplicates_in_finalized_chain ::
  "semantically_verified \<Rightarrow> finalized_view \<Rightarrow> unit context_result" where
  "no_duplicates_in_finalized_chain sv fs =
     (let b = sv_block sv in
      and_then (try_for_each (in_finalized (fv_sprout_nullifiers fs) DuplicateSproutNullifier)
        (block_sprout_nullifiers b)) (\<lambda>_.
      and_then (try_for_each (in_finalized (fv_sapling_nullifiers fs) DuplicateSaplingNullifier)
        (block_sapling_nullifiers b)) (\<lambda>_.
      and_then (try_for_each (in_finalized (fv_orchard_nullifiers fs) DuplicateOrchardNullifier)
        (block_orchard_nullifiers b)) (\<lambda>_.
      try_for_each (in_finalized (fv_ironwood_nullifiers fs) DuplicateIronwoodNullifier)
        (block_ironwood_nullifiers b)))))"

definition find_duplicate_nullifier_with ::
  "bytes list \<Rightarrow> bytes set \<Rightarrow> (bytes \<Rightarrow> tx_hash option) option \<Rightarrow>
   (bytes \<Rightarrow> bool \<Rightarrow> validate_context_error) \<Rightarrow> unit context_result" where
  "find_duplicate_nullifier_with revealed fin nonfin mk =
     try_for_each (\<lambda>n.
       if is_some_and (\<lambda>m. m n \<noteq> None) nonfin then Err (mk n False)
       else if n \<in> fin then Err (mk n True)
       else Ok ()) revealed"

definition tx_no_duplicates_in_chain ::
  "finalized_view \<Rightarrow> ('t, 'z) chain_index_scheme option \<Rightarrow> transaction \<Rightarrow> unit context_result" where
  "tx_no_duplicates_in_chain fs chain tx =
     and_then (find_duplicate_nullifier_with (sprout_nullifiers tx) (fv_sprout_nullifiers fs)
       (map_option ci_sprout_nullifiers chain) DuplicateSproutNullifier) (\<lambda>_.
     and_then (find_duplicate_nullifier_with (sapling_nullifiers tx) (fv_sapling_nullifiers fs)
       (map_option ci_sapling_nullifiers chain) DuplicateSaplingNullifier) (\<lambda>_.
     and_then (find_duplicate_nullifier_with (orchard_nullifiers tx) (fv_orchard_nullifiers fs)
       (map_option ci_orchard_nullifiers chain) DuplicateOrchardNullifier) (\<lambda>_.
     find_duplicate_nullifier_with (ironwood_nullifiers tx) (fv_ironwood_nullifiers fs)
       (map_option ci_ironwood_nullifiers chain) DuplicateIronwoodNullifier)))"

fun add_to_non_finalized_chain_unique_with ::
  "(bytes \<Rightarrow> tx_hash option) \<Rightarrow> bytes list \<Rightarrow> tx_hash \<Rightarrow> (bytes \<Rightarrow> bool \<Rightarrow> validate_context_error) \<Rightarrow>
   (bytes \<Rightarrow> tx_hash option) context_result" where
  "add_to_non_finalized_chain_unique_with m [] txid mk = Ok m"
| "add_to_non_finalized_chain_unique_with m (n # ns) txid mk =
     (if m n \<noteq> None then Err (mk n False)
      else add_to_non_finalized_chain_unique_with (m(n \<mapsto> txid)) ns txid mk)"

fun remove_from_non_finalized_chain ::
  "(bytes \<Rightarrow> tx_hash option) \<Rightarrow> bytes list \<Rightarrow> ((bytes \<Rightarrow> tx_hash option), 'e) outcome" where
  "remove_from_non_finalized_chain m [] = Ok m"
| "remove_from_non_finalized_chain m (n # ns) =
     (if m n = None then Panic else remove_from_non_finalized_chain (m(n := None)) ns)"

subsection \<open>Anchors (check/anchors.rs)\<close>

definition unknown_anchor :: "bytes multiset option \<Rightarrow> bytes set \<Rightarrow> bytes \<Rightarrow> bool" where
  "unknown_anchor chain_anchors fin anchor \<longleftrightarrow>
     \<not> is_some_and (\<lambda>a. anchor \<in># a) chain_anchors \<and> anchor \<notin> fin"

definition sapling_orchard_ironwood_anchors_refer_to_final_treestates ::
  "finalized_view \<Rightarrow> ('t, 'z) chain_index_scheme option \<Rightarrow> transaction \<Rightarrow> tx_hash \<Rightarrow> nat option \<Rightarrow>
   height option \<Rightarrow> unit context_result" where
  "sapling_orchard_ironwood_anchors_refer_to_final_treestates fs chain tx hash i height =
     and_then (try_for_each (\<lambda>anchor.
         if unknown_anchor (map_option ci_sapling_anchors chain) (fv_sapling_anchors fs) anchor
         then Err (UnknownSaplingAnchor anchor height i hash) else Ok ()) (sapling_anchors tx)) (\<lambda>_.
     and_then (case orchard_shielded_data tx of
         Some d \<Rightarrow>
           if unknown_anchor (map_option ci_orchard_anchors chain) (fv_orchard_anchors fs) (od_shared_anchor d)
           then Err (UnknownOrchardAnchor (od_shared_anchor d) height i hash) else Ok ()
       | None \<Rightarrow> Ok ()) (\<lambda>_.
     case ironwood_shielded_data tx of
       Some d \<Rightarrow>
         if unknown_anchor (map_option ci_ironwood_anchors chain) (fv_ironwood_anchors fs) (od_shared_anchor d)
         then Err (UnknownIronwoodAnchor (od_shared_anchor d) height i hash) else Ok ()
     | None \<Rightarrow> Ok ()))"

text \<open>The loop over the JoinSplits of a transaction that collects the final treestates.\<close>

definition fetch_sprout_final_treestates ::
  "(bytes \<Rightarrow> 't option) \<Rightarrow> (bytes \<Rightarrow> 't option) \<Rightarrow> ('t, 'z) chain_index_scheme option \<Rightarrow>
   transaction \<Rightarrow> (bytes \<Rightarrow> 't option)" where
  "fetch_sprout_final_treestates treestates finalized_trees chain tx =
     foldl (\<lambda>ts js.
       if ts (js_anchor js) \<noteq> None then ts
       else case (case Option.bind chain (\<lambda>c. ci_sprout_trees_by_anchor c (js_anchor js)) of
                    Some t \<Rightarrow> Some t | None \<Rightarrow> finalized_trees (js_anchor js)) of
              Some t \<Rightarrow> ts(js_anchor js \<mapsto> t)
            | None \<Rightarrow> ts) treestates (sprout_groth16_joinsplits tx)"

fun append_commitments :: "'t tree_lib \<Rightarrow> 't \<Rightarrow> bytes list \<Rightarrow> 't context_result" where
  "append_commitments L t [] = Ok t"
| "append_commitments L t (cm # cms) =
     and_then (ok_or NoteCommitmentTreeError (tree_append L t cm)) (\<lambda>t. append_commitments L t cms)"

text \<open>The remaining JoinSplits, with the interstitial treestates of the ones before.\<close>

fun sprout_anchors_loop ::
  "'t tree_lib \<Rightarrow> (bytes \<Rightarrow> 't option) \<Rightarrow> (bytes \<Rightarrow> validate_context_error) \<Rightarrow> (bytes \<Rightarrow> 't option) \<Rightarrow>
   joinsplit list \<Rightarrow> unit context_result" where
  "sprout_anchors_loop L final unknown interstitial [] = Ok ()"
| "sprout_anchors_loop L final unknown interstitial (js # rest) =
     (case (case interstitial (js_anchor js) of Some t \<Rightarrow> Some t | None \<Rightarrow> final (js_anchor js)) of
        None \<Rightarrow> Err (unknown (js_anchor js))
      | Some t \<Rightarrow>
          if rest = [] then Ok ()
          else and_then (append_commitments L t [fst (js_commitments js), snd (js_commitments js)]) (\<lambda>t.
            sprout_anchors_loop L final unknown (interstitial(tree_root_of L t \<mapsto> t)) rest))"

definition sprout_anchors_refer_to_treestates ::
  "'t tree_lib \<Rightarrow> (bytes \<Rightarrow> 't option) \<Rightarrow> transaction \<Rightarrow> tx_hash \<Rightarrow> nat option \<Rightarrow> height option \<Rightarrow>
   unit context_result" where
  "sprout_anchors_refer_to_treestates L final tx hash i height =
     sprout_anchors_loop L final (\<lambda>a. UnknownSproutAnchor a height i hash) Map.empty
       (sprout_groth16_joinsplits tx)"

definition block_sapling_orchard_ironwood_anchors_refer_to_final_treestates ::
  "finalized_view \<Rightarrow> ('t, 'z) chain_index_scheme \<Rightarrow> semantically_verified \<Rightarrow> unit context_result" where
  "block_sapling_orchard_ironwood_anchors_refer_to_final_treestates fs chain sv =
     try_for_each (\<lambda>(i, tx).
       and_then (expect (list_get (sv_transaction_hashes sv) i)) (\<lambda>hash.
         sapling_orchard_ironwood_anchors_refer_to_final_treestates fs (Some chain) tx hash (Some i)
           (Some (sv_height sv))))
       (List.enumerate 0 (bk_transactions (sv_block sv)))"

definition block_fetch_sprout_final_treestates ::
  "(bytes \<Rightarrow> 't option) \<Rightarrow> ('t, 'z) chain_index_scheme \<Rightarrow> semantically_verified \<Rightarrow> (bytes \<Rightarrow> 't option)" where
  "block_fetch_sprout_final_treestates finalized_trees chain sv =
     foldl (\<lambda>ts tx. fetch_sprout_final_treestates ts finalized_trees (Some chain) tx) Map.empty
       (bk_transactions (sv_block sv))"

definition block_sprout_anchors_refer_to_treestates ::
  "'t tree_lib \<Rightarrow> (bytes \<Rightarrow> 't option) \<Rightarrow> block \<Rightarrow> tx_hash list \<Rightarrow> height \<Rightarrow> unit context_result" where
  "block_sprout_anchors_refer_to_treestates L final b hashes height =
     try_for_each (\<lambda>(i, tx).
       and_then (expect (list_get hashes i)) (\<lambda>hash.
         sprout_anchors_refer_to_treestates L final tx hash (Some i) (Some height)))
       (List.enumerate 0 (bk_transactions b))"

definition tx_anchors_refer_to_final_treestates ::
  "'t tree_lib \<Rightarrow> finalized_view \<Rightarrow> (bytes \<Rightarrow> 't option) \<Rightarrow> ('t, 'z) chain_index_scheme option \<Rightarrow>
   transaction \<Rightarrow> tx_hash \<Rightarrow> unit context_result" where
  "tx_anchors_refer_to_final_treestates L fs finalized_trees chain tx mined_id =
     and_then (sapling_orchard_ironwood_anchors_refer_to_final_treestates fs chain tx mined_id None None) (\<lambda>_.
       if has_sprout_joinsplit_data tx
       then sprout_anchors_refer_to_treestates L
              (fetch_sprout_final_treestates Map.empty finalized_trees chain tx) tx mined_id None None
       else Ok ())"

subsection \<open>Height and history checks (check.rs)\<close>

definition block_is_not_orphaned :: "height \<Rightarrow> height \<Rightarrow> unit context_result" where
  "block_is_not_orphaned finalized_tip_height candidate_height =
     (if candidate_height \<le> finalized_tip_height
      then Err (OrphanedBlock candidate_height finalized_tip_height) else Ok ())"

definition height_one_more_than_parent_height :: "height \<Rightarrow> height \<Rightarrow> unit context_result" where
  "height_one_more_than_parent_height parent_height candidate_height =
     (if height_plus parent_height 1 \<noteq> Some candidate_height
      then Err (NonSequentialBlock candidate_height parent_height) else Ok ())"

text \<open>The hash functions and the digest of a transaction are arguments, like the root of the history
  tree of the parent.\<close>

record commitment_lib =
  cl_sha256d :: "bytes \<Rightarrow> bytes"
  cl_is_sapling_root :: "bytes \<Rightarrow> bool"
  cl_auth_node :: node_hash
  cl_auth_digest :: "transaction \<Rightarrow> bytes"
  cl_block_commit :: "bytes \<Rightarrow> bytes"

definition block_commitment_is_valid_for_chain_history ::
  "commitment_lib \<Rightarrow> block \<Rightarrow> network \<Rightarrow> bytes option \<Rightarrow> bytes option \<Rightarrow> unit context_result" where
  "block_commitment_is_valid_for_chain_history L b net history_hash precomputed_auth_data_root =
     and_then (map_err InvalidBlockCommitment
         (block_commitment (cl_sha256d L) (cl_is_sapling_root L) b net)) (\<lambda>c.
       case c of
         PreSaplingReserved _ \<Rightarrow> Ok ()
       | FinalSaplingRoot _ \<Rightarrow> Ok ()
       | ChainHistoryActivationReserved \<Rightarrow> Ok ()
       | ChainHistoryRoot actual \<Rightarrow>
           and_then (expect history_hash) (\<lambda>root.
             if actual = root then Ok ()
             else Err (InvalidBlockCommitment (InvalidChainHistoryRoot actual root)))
       | ChainHistoryBlockTxAuthCommitment actual \<Rightarrow>
           and_then (expect (case history_hash of
               Some h \<Rightarrow> Some h
             | None \<Rightarrow> if activation_height Heartwood net = coinbase_height b
                       then Some CHAIN_HISTORY_ACTIVATION_RESERVED else None)) (\<lambda>history_root.
           and_then (case precomputed_auth_data_root of
               Some r \<Rightarrow> Ok r | None \<Rightarrow> block_auth_data_root (cl_auth_node L) (cl_auth_digest L) b) (\<lambda>auth_root.
             let expected = from_commitments (cl_block_commit L) history_root auth_root in
             if actual = expected then Ok ()
             else Err (InvalidBlockCommitment (InvalidChainHistoryBlockTxAuthCommitment actual expected)))))"

subsection \<open>What the transparent checks accept\<close>

text \<open>
  A spend by the \<open>i\<close>-th transaction has the output \<open>u\<close> available when an earlier transaction of the
  block created it, or when the chain has it and has not spent it. A coinbase output needs a hundred
  blocks, and a spending transaction without transparent outputs.
\<close>

definition available ::
  "semantically_verified \<Rightarrow> ordered_utxo outpoint_map \<Rightarrow> tx_hash outpoint_map \<Rightarrow> finalized_view \<Rightarrow>
   nat \<Rightarrow> outpoint \<Rightarrow> ordered_utxo \<Rightarrow> bool" where
  "available sv unspent spent fs i p u \<longleftrightarrow>
     (case sv_new_outputs sv p of
        Some v \<Rightarrow> u = v \<and> ou_tx_index_in_block v < i
      | None \<Rightarrow> spent p = None \<and> (unspent p = Some u \<or> unspent p = None \<and> fv_utxo fs p = Some u))"

definition mature :: "network \<Rightarrow> height \<Rightarrow> transaction \<Rightarrow> utxo \<Rightarrow> bool" where
  "mature net h tx u \<longleftrightarrow>
     (ut_from_coinbase u \<longrightarrow>
        (outputs tx = [] \<or> network_allows_unshielded_coinbase_spends net) \<and>
        ut_height u + MIN_TRANSPARENT_COINBASE_MATURITY \<le> h)"

definition pays_its_outputs :: "utxo outpoint_map \<Rightarrow> transaction \<Rightarrow> bool" where
  "pays_its_outputs utxos tx \<longleftrightarrow>
     (\<exists>v fee. tx_value_balance tx utxos = Ok v \<and> remaining_transaction_value v = Ok fee)"

text \<open>
  The same in sums of the transaction's own amounts: what it spends, what leaves the shielded pools and
  what it creates. The running totals of the pools have to be amounts, as the source adds them one by one.
\<close>

definition covers_its_outputs :: "tx_output outpoint_map \<Rightarrow> transaction \<Rightarrow> bool" where
  "covers_its_outputs spent tx \<longleftrightarrow>
     (let sprout = total_in tx spent - total_out tx + sum_list (sprout_changes tx);
          sapling = sprout + sapling_amount tx;
          orchard = sapling + orchard_amount (orchard_shielded_data tx);
          fee = orchard + orchard_amount (ironwood_shielded_data tx) in
      totals_in_range tx spent \<and> na sprout \<and> na sapling \<and> na orchard \<and> 0 \<le> fee \<and> fee \<le> MAX_MONEY)"

definition spends_of :: "(nat \<times> transaction) list \<Rightarrow> (nat \<times> transaction \<times> outpoint) list" where
  "spends_of txs = concat (map (\<lambda>(i, tx). map (\<lambda>p. (i, tx, p)) (spent_outpoints tx)) txs)"

definition utxo_heights_ok ::
  "semantically_verified \<Rightarrow> ordered_utxo outpoint_map \<Rightarrow> finalized_view \<Rightarrow> bool" where
  "utxo_heights_ok sv unspent fs \<longleftrightarrow>
     sv_height sv \<le> HEIGHT_MAX \<and>
     (\<forall>p u. (sv_new_outputs sv p = Some u \<or> unspent p = Some u \<or> fv_utxo fs p = Some u) \<longrightarrow>
        ut_height (ou_utxo u) < 2 ^ 32)"

lemma spend_chain_order_Ok:
  "transparent_spend_chain_order p i (sv_new_outputs sv) unspent spent fs = Ok u \<longleftrightarrow>
     available sv unspent spent fs i p u"
  by (auto simp: transparent_spend_chain_order_def available_def rust_simps split: option.splits)

lemma coinbase_spend_Ok:
  assumes "ut_height u < 2 ^ 32" "h \<le> HEIGHT_MAX"
  shows "transparent_coinbase_spend p (Transaction.coinbase_spend_restriction tx net h) u = Ok x \<longleftrightarrow>
    mature net h tx u"
proof -
  have "height_plus (ut_height u) (int MIN_TRANSPARENT_COINBASE_MATURITY) =
      (if ut_height u + 100 \<le> HEIGHT_MAX then Some (ut_height u + 100) else None)"
    using assms(1) by (subst height_plus_exact)
      (auto simp: MIN_TRANSPARENT_COINBASE_MATURITY_def int_bounds HEIGHT_MAX_def)
  then show ?thesis
    using assms(2)
    by (auto simp: transparent_coinbase_spend_def coinbase_spend_restriction_def mature_def
        MIN_TRANSPARENT_COINBASE_MATURITY_def)
qed

lemma available_height:
  "utxo_heights_ok sv unspent fs \<Longrightarrow> available sv unspent spent fs i p u \<Longrightarrow> ut_height (ou_utxo u) < 2 ^ 32"
  by (auto simp: utxo_heights_ok_def available_def split: option.splits)

definition spend_ok ::
  "semantically_verified \<Rightarrow> ordered_utxo outpoint_map \<Rightarrow> tx_hash outpoint_map \<Rightarrow> finalized_view \<Rightarrow>
   ordered_utxo outpoint_map \<Rightarrow> nat \<times> transaction \<times> outpoint \<Rightarrow> bool" where
  "spend_ok sv unspent spent fs m = (\<lambda>(i, tx, p).
     \<exists>u. m p = Some u \<and> available sv unspent spent fs i p u \<and>
         mature (fv_network fs) (sv_height sv) tx (ou_utxo u))"

lemma spend_ok_cong: "m p = m' p \<Longrightarrow> spend_ok sv unspent spent fs m (i, tx, p) = spend_ok sv unspent spent fs m' (i, tx, p)"
  by (simp add: spend_ok_def)

lemma spend_ok_dom: "spend_ok sv unspent spent fs m (i, tx, p) \<Longrightarrow> p \<in> dom m"
  by (auto simp: spend_ok_def)

lemma spend_inputs_Ok:
  assumes "utxo_heights_ok sv unspent fs"
  shows "spend_inputs sv unspent spent fs i tx ps m0 = Ok m \<longleftrightarrow>
    distinct ps \<and> set ps \<inter> dom m0 = {} \<and> (\<forall>p. p \<notin> set ps \<longrightarrow> m p = m0 p) \<and>
    (\<forall>p \<in> set ps. spend_ok sv unspent spent fs m (i, tx, p))"
    (is "?L ps m0 \<longleftrightarrow> ?R ps m0")
proof (induction ps arbitrary: m0)
  case (Cons p ps)
  let ?ok = "\<lambda>u. available sv unspent spent fs i p u \<and> mature (fv_network fs) (sv_height sv) tx (ou_utxo u)"
  have h: "sv_height sv \<le> HEIGHT_MAX" using assms by (simp add: utxo_heights_ok_def)
  have "?L (p # ps) m0 \<longleftrightarrow> (\<exists>u. ?ok u \<and> m0 p = None \<and> ?R ps (m0(p \<mapsto> u)))"
    using coinbase_spend_Ok[OF available_height[OF assms] h]
    by (auto simp: and_then_Ok_iff spend_chain_order_Ok Cons.IH)
  also have "\<dots> \<longleftrightarrow> ?R (p # ps) m0"
  proof
    assume "\<exists>u. ?ok u \<and> m0 p = None \<and> ?R ps (m0(p \<mapsto> u))"
    then obtain u where u: "?ok u" "m0 p = None" "?R ps (m0(p \<mapsto> u))" by blast
    then have "p \<notin> set ps" by auto
    then have "m p = Some u" using u(3) by simp
    then show "?R (p # ps) m0" using u \<open>p \<notin> set ps\<close> by (auto simp: spend_ok_def)
  next
    assume r: "?R (p # ps) m0"
    then obtain u where u: "m p = Some u" "?ok u" by (auto simp: spend_ok_def)
    moreover have "m0 p = None" using r by auto
    moreover have "m q = (m0(p \<mapsto> u)) q" if "q \<notin> set ps" for q using r u(1) that by simp
    moreover have "set ps \<inter> dom (m0(p \<mapsto> u)) = {}" using r by (auto simp: dom_fun_upd split: if_splits)
    ultimately show "\<exists>u. ?ok u \<and> m0 p = None \<and> ?R ps (m0(p \<mapsto> u))" using r by (intro exI[of _ u]) (simp del: fun_upd_apply)
  qed
  finally show ?case .
qed auto

lemma spends_of_Cons: "spends_of ((i, tx) # txs) = map (\<lambda>p. (i, tx, p)) (spent_outpoints tx) @ spends_of txs"
  by (simp add: spends_of_def)

abbreviation spend_points :: "(nat \<times> transaction) list \<Rightarrow> outpoint list" where
  "spend_points txs \<equiv> map (\<lambda>(i, tx, p). p) (spends_of txs)"

lemma spend_transactions_Ok:
  assumes "utxo_heights_ok sv unspent fs"
  shows "spend_transactions sv unspent spent fs txs m0 = Ok m \<longleftrightarrow>
    distinct (spend_points txs) \<and> set (spend_points txs) \<inter> dom m0 = {} \<and>
    (\<forall>p. p \<notin> set (spend_points txs) \<longrightarrow> m p = m0 p) \<and>
    (\<forall>x \<in> set (spends_of txs). spend_ok sv unspent spent fs m x)"
    (is "?L txs m0 \<longleftrightarrow> ?R txs m0 m")
proof (induction txs arbitrary: m0)
  case (Cons t txs)
  obtain i tx where t: "t = (i, tx)" by (cases t)
  let ?ps = "spent_outpoints tx" and ?ok = "\<lambda>m p. spend_ok sv unspent spent fs m (i, tx, p)"
  let ?R1 = "\<lambda>m1. distinct ?ps \<and> set ?ps \<inter> dom m0 = {} \<and>
      (\<forall>p. p \<notin> set ?ps \<longrightarrow> m1 p = m0 p) \<and> (\<forall>p \<in> set ?ps. ?ok m1 p)"
  have points: "spend_points (t # txs) = ?ps @ spend_points txs"
    by (simp add: t spends_of_Cons split_def comp_def)
  have all: "(\<forall>x \<in> set (spends_of (t # txs)). P x) \<longleftrightarrow>
      (\<forall>p \<in> set ?ps. P (i, tx, p)) \<and> (\<forall>x \<in> set (spends_of txs). P x)" for P
    by (auto simp: t spends_of_Cons)
  have "?L (t # txs) m0 \<longleftrightarrow> (\<exists>m1. ?R1 m1 \<and> ?R txs m1 m)"
    unfolding t spend_transactions.simps and_then_Ok_iff spend_inputs_Ok[OF assms] Cons.IH by (rule refl)
  also have "\<dots> \<longleftrightarrow> ?R (t # txs) m0 m"
  proof
    assume "\<exists>m1. ?R1 m1 \<and> ?R txs m1 m"
    then obtain m1 where m1: "?R1 m1" and m: "?R txs m1 m" by blast
    have m': "set (spend_points txs) \<inter> dom m1 = {}" "\<And>p. p \<notin> set (spend_points txs) \<Longrightarrow> m p = m1 p"
      using m by simp_all
    have m1': "\<And>p. p \<notin> set ?ps \<Longrightarrow> m1 p = m0 p" "\<And>p. p \<in> set ?ps \<Longrightarrow> ?ok m1 p" using m1 by simp_all
    have disj: "p \<notin> set (spend_points txs)" if "p \<in> set ?ps" for p
      using spend_ok_dom[OF m1'(2)[OF that]] m'(1) by blast
    have "?ok m p" if "p \<in> set ?ps" for p
      using m1'(2)[OF that] spend_ok_cong[of m p m1] m'(2)[OF disj[OF that]] by simp
    moreover have "m p = m0 p" if "p \<notin> set ?ps" "p \<notin> set (spend_points txs)" for p
      using that m1'(1) m'(2) by metis
    moreover have "p \<notin> dom m0" if "p \<in> set (spend_points txs)" for p
    proof -
      have "p \<notin> set ?ps" using that disj by blast
      moreover have "p \<notin> dom m1" using that m'(1) by blast
      ultimately show ?thesis using m1'(1) by (simp add: domIff)
    qed
    moreover have "distinct (?ps @ spend_points txs)" using m1 m disj by (simp add: disjoint_iff)
    moreover have "set ?ps \<inter> dom m0 = {}" "\<forall>x \<in> set (spends_of txs). spend_ok sv unspent spent fs m x"
      using m1 m by simp_all
    ultimately have "(set ?ps \<union> set (spend_points txs)) \<inter> dom m0 = {}"
      "\<forall>p. p \<notin> set ?ps \<union> set (spend_points txs) \<longrightarrow> m p = m0 p" "\<forall>p \<in> set ?ps. ?ok m p"
      "distinct (?ps @ spend_points txs)" "\<forall>x \<in> set (spends_of txs). spend_ok sv unspent spent fs m x"
      by (simp_all add: disjoint_iff)
    then show "?R (t # txs) m0 m" unfolding points all set_append by (intro conjI)
  next
    assume r: "?R (t # txs) m0 m"
    define m1 where "m1 = (\<lambda>p. if p \<in> set ?ps then m p else m0 p)"
    have r': "distinct (?ps @ spend_points txs)" "set (?ps @ spend_points txs) \<inter> dom m0 = {}"
      "\<And>p. p \<notin> set (?ps @ spend_points txs) \<Longrightarrow> m p = m0 p" "\<And>p. p \<in> set ?ps \<Longrightarrow> ?ok m p"
      "\<forall>x \<in> set (spends_of txs). spend_ok sv unspent spent fs m x"
      using r unfolding points all by simp_all
    have "?ok m1 p" if "p \<in> set ?ps" for p
      using r'(4)[OF that] spend_ok_cong[of m1 p m] that by (simp add: m1_def)
    moreover have "set ?ps \<inter> dom m0 = {}" "distinct ?ps" using r'(1,2) by auto
    ultimately have "?R1 m1" by (simp add: m1_def)
    moreover have "set (spend_points txs) \<inter> dom m1 = {}"
      using r'(1,2) by (auto simp: m1_def domIff disjoint_iff)
    moreover have "m p = m1 p" if "p \<notin> set (spend_points txs)" for p
      using that r'(3) by (simp add: m1_def)
    ultimately have g: "?R1 m1 \<and> ?R txs m1 m" using r'(1,5) by simp
    show "\<exists>m1. ?R1 m1 \<and> ?R txs m1 m" by (rule exI) (rule g)
  qed
  finally show ?case .
qed (auto simp: spends_of_def)

lemma remaining_transaction_value_iff:
  assumes "vb_ok (valid_range NegativeAllowed) v"
  shows "(\<exists>fee. remaining_transaction_value v = Ok fee) \<longleftrightarrow>
    (let sprout = vb_transparent v + vb_sprout v; sapling = sprout + vb_sapling v;
         orchard = sapling + vb_orchard v; fee = orchard + vb_ironwood v in
     na sprout \<and> na sapling \<and> na orchard \<and> nn fee)"
proof -
  let ?r = "valid_range NegativeAllowed"
  have ok: "na (vb_transparent v)" "na (vb_sprout v)" "na (vb_sapling v)" "na (vb_orchard v)" "na (vb_ironwood v)"
    using assms by (simp_all del: valid_range.simps)
  have add: "amount_add ?r a b = Ok c \<longleftrightarrow> c = a + b \<and> na c" if "na a" "na b" for a b c
    using amt.add_exact[OF that] by auto
  have last: "nn (a + b) \<Longrightarrow> na (a + b)" for a b by (auto simp: contains_def money_defs)
  show ?thesis
    unfolding remaining_transaction_value_def Let_def rust_simps
    using ok last by (auto simp: add rust_simps constrain_def try_from_i64_def validate_def simp del: valid_range.simps)
qed

lemma pays_its_outputs_iff:
  assumes "spends_known tx (outputs_from_utxos utxos)" "valid_amounts tx"
  shows "pays_its_outputs utxos tx \<longleftrightarrow> covers_its_outputs (outputs_from_utxos utxos) tx"
proof -
  let ?spent = "outputs_from_utxos utxos"
  have "pays_its_outputs utxos tx \<longleftrightarrow>
      totals_in_range tx ?spent \<and> (\<exists>fee. remaining_transaction_value (pool_balances tx ?spent) = Ok fee)"
    unfolding pays_its_outputs_def tx_value_balance_def value_balance_from_outputs_eq(1)[OF assms] by blast
  also have "\<dots> \<longleftrightarrow> covers_its_outputs ?spent tx"
  proof (cases "totals_in_range tx ?spent")
    case True
    show ?thesis
      unfolding remaining_transaction_value_iff[OF pool_balances_ok[OF True assms(2)]]
      using True by (simp add: covers_its_outputs_def pool_balances_def Let_def contains_def)
  qed (simp add: covers_its_outputs_def Let_def)
  finally show ?thesis .
qed

lemma remaining_value_of_Ok:
  "remaining_value_of sv utxos (i, tx) = Ok x \<longleftrightarrow> is_coinbase tx \<or> pays_its_outputs utxos tx"
proof (cases "tx_value_balance tx utxos")
  case (Ok v)
  then show ?thesis
    by (cases "remaining_transaction_value v")
      (auto simp: remaining_value_of_def pays_its_outputs_def Let_def rust_simps split: amount_error.splits)
qed (auto simp: remaining_value_of_def pays_its_outputs_def Let_def rust_simps)

lemma check_remaining_transaction_value_Ok:
  "check_remaining_transaction_value sv m = Ok x \<longleftrightarrow>
     (\<forall>tx \<in> set (bk_transactions (sv_block sv)). is_coinbase tx \<or> pays_its_outputs (utxos_from_ordered_utxos m) tx)"
proof -
  have "check_remaining_transaction_value sv m = Ok () \<longleftrightarrow>
     (\<forall>(i, tx) \<in> set (List.enumerate 0 (bk_transactions (sv_block sv))).
        is_coinbase tx \<or> pays_its_outputs (utxos_from_ordered_utxos m) tx)"
    unfolding check_remaining_transaction_value_def try_for_each_Ok_iff
    using remaining_value_of_Ok by auto
  also have "\<dots> \<longleftrightarrow> (\<forall>tx \<in> snd ` set (List.enumerate 0 (bk_transactions (sv_block sv))).
        is_coinbase tx \<or> pays_its_outputs (utxos_from_ordered_utxos m) tx)" by auto
  finally show ?thesis by (simp flip: set_map)
qed

lemma transparent_spend_Ok:
  assumes "utxo_heights_ok sv unspent fs"
  shows "transparent_spend sv unspent spent fs = Ok m \<longleftrightarrow>
    (let txs = List.enumerate 0 (bk_transactions (sv_block sv)) in
      distinct (spend_points txs) \<and> dom m = set (spend_points txs) \<and>
      (\<forall>x \<in> set (spends_of txs). spend_ok sv unspent spent fs m x) \<and>
      (\<forall>tx \<in> set (bk_transactions (sv_block sv)).
         is_coinbase tx \<or> pays_its_outputs (utxos_from_ordered_utxos m) tx))"
proof -
  let ?txs = "List.enumerate 0 (bk_transactions (sv_block sv))"
  define S where "S = set (spend_points ?txs)"
  let ?ok = "\<forall>x \<in> set (spends_of ?txs). spend_ok sv unspent spent fs m x"
  have "S \<subseteq> dom m" if ?ok
    using that spend_ok_dom[of sv unspent spent fs m] by (fastforce simp: S_def)
  moreover have "(\<forall>p. p \<notin> S \<longrightarrow> m p = None) \<longleftrightarrow> dom m \<subseteq> S" by (auto simp: domIff)
  ultimately have "(\<forall>p. p \<notin> S \<longrightarrow> m p = None) \<and> ?ok \<longleftrightarrow> dom m = S \<and> ?ok" by blast
  then show ?thesis
    unfolding transparent_spend_def and_then_Ok_iff spend_transactions_Ok[OF assms]
      check_remaining_transaction_value_Ok Let_def S_def[symmetric]
    by (simp only: dom_empty Int_empty_right simp_thms) blast
qed

subsection \<open>What the nullifier checks accept\<close>

lemma add_unique_Ok:
  "add_to_non_finalized_chain_unique_with m ns txid mk = Ok m' \<longleftrightarrow>
     distinct ns \<and> set ns \<inter> dom m = {} \<and> m' = (\<lambda>n. if n \<in> set ns then Some txid else m n)"
proof (induction ns arbitrary: m)
  case (Cons n ns)
  show ?case
    by (auto simp: Cons.IH fun_eq_iff) (auto split: if_splits)
qed auto

lemma remove_unique:
  "distinct ns \<Longrightarrow> set ns \<subseteq> dom m \<Longrightarrow>
   remove_from_non_finalized_chain m ns =
     (Ok (\<lambda>n. if n \<in> set ns then None else m n) :: (bytes \<Rightarrow> tx_hash option, 'e) outcome)"
proof (induction ns arbitrary: m)
  case (Cons n ns)
  have "set ns \<subseteq> dom (m(n := None))" using Cons.prems by auto
  then have "remove_from_non_finalized_chain (m(n := None)) ns =
      (Ok (\<lambda>k. if k \<in> set ns then None else (m(n := None)) k) :: (bytes \<Rightarrow> tx_hash option, 'e) outcome)"
    using Cons.prems(1) by (intro Cons.IH) simp
  moreover have "(\<lambda>k. if k \<in> set ns then None else (m(n := None)) k) =
      (\<lambda>k. if k \<in> set (n # ns) then None else m k)" by (auto simp: fun_eq_iff)
  ultimately show ?case using Cons.prems(2) by (auto simp del: fun_upd_apply)
qed simp

lemma remove_added:
  assumes "add_to_non_finalized_chain_unique_with m ns txid mk = Ok m'"
  shows "remove_from_non_finalized_chain m' ns = Ok m"
proof -
  from assms have a: "distinct ns" "set ns \<inter> dom m = {}" "m' = (\<lambda>n. if n \<in> set ns then Some txid else m n)"
    by (simp_all add: add_unique_Ok)
  have "set ns \<subseteq> dom m'" by (auto simp: a(3) domIff)
  moreover have "(\<lambda>n. if n \<in> set ns then None else m' n) = m"
    by (rule ext) (use a(2) in \<open>auto simp: a(3) disjoint_iff domIff\<close>)
  ultimately show ?thesis by (simp add: remove_unique[OF a(1)])
qed

lemma no_duplicates_in_finalized_chain_Ok:
  "no_duplicates_in_finalized_chain sv fs = Ok x \<longleftrightarrow>
     set (block_sprout_nullifiers (sv_block sv)) \<inter> fv_sprout_nullifiers fs = {} \<and>
     set (block_sapling_nullifiers (sv_block sv)) \<inter> fv_sapling_nullifiers fs = {} \<and>
     set (block_orchard_nullifiers (sv_block sv)) \<inter> fv_orchard_nullifiers fs = {} \<and>
     set (block_ironwood_nullifiers (sv_block sv)) \<inter> fv_ironwood_nullifiers fs = {}"
  by (auto simp: no_duplicates_in_finalized_chain_def Let_def and_then_Ok_iff try_for_each_Ok_iff
      in_finalized_def)

lemma find_duplicate_nullifier_with_Ok:
  "find_duplicate_nullifier_with ns fin nonfin mk = Ok x \<longleftrightarrow>
     set ns \<inter> fin = {} \<and> (\<forall>m. nonfin = Some m \<longrightarrow> set ns \<inter> dom m = {})"
  by (cases nonfin) (auto simp: find_duplicate_nullifier_with_def try_for_each_Ok_iff is_some_and_def)

subsection \<open>Properties\<close>

text \<open>
  C21. The transparent checks of a block accept exactly the blocks without a double spend: the map of
  spent outputs is returned if and only if no output is spent twice in the block, every spend has its
  output available (created by an earlier transaction of the block, or present in the chain and not
  spent there), coinbase outputs are mature and spent without transparent outputs, and every
  non-coinbase transaction pays for its outputs; the map then has the outputs of the block's spends
  and nothing else. Paying for the outputs means, for a transaction of valid amounts whose spends are
  known, that its inputs and what it takes from the shielded pools cover its outputs, with a fee that is
  an amount.
\<close>

theorem transparent_spend_accepts_exactly:
  assumes "utxo_heights_ok sv unspent fs"
  shows "(transparent_spend sv unspent spent fs = Ok m \<longleftrightarrow>
    (let txs = List.enumerate 0 (bk_transactions (sv_block sv)) in
      distinct (spend_points txs) \<and> dom m = set (spend_points txs) \<and>
      (\<forall>(i, tx, p) \<in> set (spends_of txs).
         \<exists>u. m p = Some u \<and> available sv unspent spent fs i p u \<and>
             mature (fv_network fs) (sv_height sv) tx (ou_utxo u)) \<and>
      (\<forall>tx \<in> set (bk_transactions (sv_block sv)).
         is_coinbase tx \<or> pays_its_outputs (utxos_from_ordered_utxos m) tx))) \<and>
    (\<forall>tx utxos. spends_known tx (outputs_from_utxos utxos) \<and> valid_amounts tx \<longrightarrow>
       (pays_its_outputs utxos tx \<longleftrightarrow> covers_its_outputs (outputs_from_utxos utxos) tx))"
  using transparent_spend_Ok[OF assms, of spent m] pays_its_outputs_iff unfolding spend_ok_def by blast

theorem transparent_spend_accepts_exactly_witness:
  "let h = \<lparr>hd_version = 4, hd_previous_block_hash = [], hd_merkle_root = [], hd_commitment_bytes = [],
            hd_time = 0, hd_difficulty_threshold = 0, hd_nonce = [], hd_solution = CommonSolution []\<rparr>;
       p = \<lparr>op_hash = [7], op_index = 0\<rparr>;
       tx = V4 [PrevOut p [] 0] [\<lparr>out_value = 30, lock_script = []\<rparr>] unlocked 0 None None;
       u = ordered_utxo_new \<lparr>out_value = 100, lock_script = []\<rparr> 5 1;
       sv = \<lparr>sv_block = \<lparr>bk_header = h, bk_transactions = [tx]\<rparr>, sv_hash = [], sv_height = 6,
             sv_new_outputs = Map.empty, sv_transaction_hashes = [[1]],
             sv_deferred_pool_balance_change = None, sv_auth_data_root = None\<rparr>;
       fs = \<lparr>fv_network = Mainnet, fv_utxo = [p \<mapsto> u], fv_sprout_nullifiers = {},
             fv_sapling_nullifiers = {}, fv_orchard_nullifiers = {}, fv_ironwood_nullifiers = {},
             fv_sapling_anchors = {}, fv_orchard_anchors = {}, fv_ironwood_anchors = {}\<rparr>
   in transparent_spend sv Map.empty Map.empty fs = Ok [p \<mapsto> u]"
proof -
  define p :: outpoint where "p = \<lparr>op_hash = [7], op_index = 0\<rparr>"
  define tx where "tx = V4 [PrevOut p [] 0] [\<lparr>out_value = 30, lock_script = []\<rparr>] unlocked 0 None None"
  define u where "u = ordered_utxo_new \<lparr>out_value = 100, lock_script = []\<rparr> 5 1"
  let ?utxos = "utxos_from_ordered_utxos [p \<mapsto> u]"
  have hu: "ut_height (ou_utxo u) = 5" "\<not> ut_from_coinbase (ou_utxo u)"
    by (simp_all add: u_def ordered_utxo_new_def)
  have s: "spent_outpoints tx = [p]" by (simp add: tx_def spent_outpoints_def map_filter_def)
  have 1: "spends_known tx (outputs_from_utxos ?utxos)" "valid_amounts tx"
    by (simp_all add: s[unfolded tx_def] spends_known_def outputs_from_utxos_def utxos_from_ordered_utxos_def
        u_def ordered_utxo_new_def valid_amounts_def output_values_to_sprout_def input_values_from_sprout_def
        orchard_amount_def contains_def money_defs tx_def)
  have t: "total_in tx (outputs_from_utxos ?utxos) = 100" "total_out tx = 30" "sprout_changes tx = []"
    by (simp_all add: total_in_def total_out_def spent_value_def outputs_from_utxos_def sprout_changes_def
        utxos_from_ordered_utxos_def u_def ordered_utxo_new_def tx_def)
  have "covers_its_outputs (outputs_from_utxos ?utxos) tx"
    unfolding covers_its_outputs_def totals_in_range_def t
    by (simp add: tx_def orchard_amount_def contains_def money_defs)
  then have pays: "pays_its_outputs ?utxos tx" by (simp add: pays_its_outputs_iff[OF 1])
  show ?thesis
    unfolding Let_def p_def[symmetric] tx_def[symmetric] u_def[symmetric]
    by (subst conjunct1[OF transparent_spend_accepts_exactly])
      (simp_all add: utxo_heights_ok_def HEIGHT_MAX_def hu s spends_of_def available_def mature_def pays)
qed

end
