(* ===== verification/Difficulty_Adjustment.thy ===== *)
theory Difficulty_Adjustment
  imports Context_Checks
begin

section \<open>Difficulty adjustment and recent-chain checks (check/difficulty.rs, check.rs)\<close>

text \<open>
  The expected difficulty of a block from the thresholds and times of the blocks before it, and the
  checks of a candidate block or header that use it. Times and durations are whole seconds: block
  times have no smaller part, and the products that the code divides by a hundred are exact.
\<close>

definition POW_MEDIAN_BLOCK_SPAN :: nat where
  "POW_MEDIAN_BLOCK_SPAN = 11"

definition POW_ADJUSTMENT_BLOCK_SPAN :: nat where
  "POW_ADJUSTMENT_BLOCK_SPAN = POW_AVERAGING_WINDOW + POW_MEDIAN_BLOCK_SPAN"

definition POW_DAMPING_FACTOR :: int where
  "POW_DAMPING_FACTOR = 4"

definition POW_MAX_ADJUST_UP_PERCENT :: int where
  "POW_MAX_ADJUST_UP_PERCENT = 16"

definition POW_MAX_ADJUST_DOWN_PERCENT :: int where
  "POW_MAX_ADJUST_DOWN_PERCENT = 32"

definition BLOCK_MAX_TIME_SINCE_MEDIAN :: int where
  "BLOCK_MAX_TIME_SINCE_MEDIAN = 90 * 60"

record adjusted_difficulty =
  ad_candidate_time :: int
  ad_candidate_height :: height
  ad_network :: network
  ad_thresholds :: "compact list"
  ad_times :: "int list"

definition new_from_header_time ::
  "int \<Rightarrow> height \<Rightarrow> network \<Rightarrow> (compact \<times> int) list \<Rightarrow> (adjusted_difficulty, 'e) outcome" where
  "new_from_header_time time previous_height net context =
     and_then (expect (height_plus previous_height 1)) (\<lambda>h.
       let c = take POW_ADJUSTMENT_BLOCK_SPAN context in
       if c = [] then Panic
       else Ok \<lparr>ad_candidate_time = time, ad_candidate_height = h, ad_network = net,
                ad_thresholds = map fst c, ad_times = map snd c\<rparr>)"

definition new_from_block ::
  "block \<Rightarrow> network \<Rightarrow> (compact \<times> int) list \<Rightarrow> (adjusted_difficulty, 'e) outcome" where
  "new_from_block b net context =
     and_then (expect (coinbase_height b)) (\<lambda>h.
     and_then (expect (height_minus h 1)) (\<lambda>previous.
       new_from_header_time (hd_time (bk_header b)) previous net context))"

definition median_time :: "int list \<Rightarrow> (int, 'e) outcome" where
  "median_time ts = expect (list_get (sort ts) (length ts div 2))"

definition median_time_past :: "adjusted_difficulty \<Rightarrow> (int, 'e) outcome" where
  "median_time_past ad = median_time (take POW_MEDIAN_BLOCK_SPAN (ad_times ad))"

definition median_timespan :: "adjusted_difficulty \<Rightarrow> (int, 'e) outcome" where
  "median_timespan ad =
     and_then (median_time_past ad) (\<lambda>newer.
     and_then (if length (ad_times ad) > POW_AVERAGING_WINDOW
               then median_time (take POW_MEDIAN_BLOCK_SPAN (drop POW_AVERAGING_WINDOW (ad_times ad)))
               else expect (list_get (ad_times ad) (length (ad_times ad) - 1))) (\<lambda>older.
       Ok (newer - older)))"

definition window_timespan :: "adjusted_difficulty \<Rightarrow> (int, 'e) outcome" where
  "window_timespan ad =
     averaging_window_timespan_for_height (activation_list (ad_network ad)) (ad_candidate_height ad)"

definition median_timespan_bounded :: "adjusted_difficulty \<Rightarrow> (int, 'e) outcome" where
  "median_timespan_bounded ad =
     and_then (window_timespan ad) (\<lambda>window.
     and_then (median_timespan ad) (\<lambda>span.
       let damped_variance = trunc_div (span - window) POW_DAMPING_FACTOR;
           damped = window + damped_variance;
           min_span = trunc_div (window * (100 - POW_MAX_ADJUST_UP_PERCENT)) 100;
           max_span = trunc_div (window * (100 + POW_MAX_ADJUST_DOWN_PERCENT)) 100
       in Ok (max min_span (min max_span damped))))"

definition mean_target_difficulty :: "adjusted_difficulty \<Rightarrow> (expanded, 'e) outcome" where
  "mean_target_difficulty ad =
     (if length (ad_thresholds ad) \<ge> POW_AVERAGING_WINDOW then
        and_then (try_map (\<lambda>c. and_then (to_expanded c) expect)
                    (take POW_AVERAGING_WINDOW (ad_thresholds ad))) (\<lambda>targets.
        and_then (expanded_sum targets) (\<lambda>total. expanded_div total POW_AVERAGING_WINDOW))
      else target_difficulty_limit (ad_network ad))"

definition threshold_bits :: "adjusted_difficulty \<Rightarrow> (compact, 'e) outcome" where
  "threshold_bits ad =
     (if length (ad_thresholds ad) < POW_AVERAGING_WINDOW \<and> ad_candidate_height ad \<le> POW_AVERAGING_WINDOW
      then and_then (target_difficulty_limit (ad_network ad)) to_compact
      else
        and_then (window_timespan ad) (\<lambda>window.
        and_then (mean_target_difficulty ad) (\<lambda>mean.
        and_then (expanded_div mean (nat window)) (\<lambda>per_second.
        and_then (median_timespan_bounded ad) (\<lambda>span.
        and_then (expanded_mul per_second (nat span)) (\<lambda>threshold.
        and_then (target_difficulty_limit (ad_network ad)) (\<lambda>limit.
          to_compact (min limit threshold))))))))"

definition expected_difficulty_threshold :: "adjusted_difficulty \<Rightarrow> (compact, 'e) outcome" where
  "expected_difficulty_threshold ad =
     and_then (expect (list_get (ad_times ad) 0)) (\<lambda>previous_time.
     and_then (is_testnet_min_difficulty_block (ad_network ad) (ad_candidate_height ad)
                 (ad_candidate_time ad) previous_time) (\<lambda>min_difficulty.
       if min_difficulty then
         (if ad_network ad \<noteq> Mainnet
          then and_then (target_difficulty_limit (ad_network ad)) to_compact else Panic)
       else threshold_bits ad))"

subsection \<open>The checks (check.rs)\<close>

definition difficulty_threshold_and_time_are_valid ::
  "compact \<Rightarrow> adjusted_difficulty \<Rightarrow> unit context_result" where
  "difficulty_threshold_and_time_are_valid difficulty_threshold ad =
     (let height = ad_candidate_height ad; time = ad_candidate_time ad; net = ad_network ad in
      and_then (median_time_past ad) (\<lambda>median.
      let block_time_max = median + BLOCK_MAX_TIME_SINCE_MEDIAN in
      and_then (expect (activation_height Genesis net)) (\<lambda>genesis_height.
      if time \<le> median \<and> height \<noteq> genesis_height then Err (TimeTooEarly time median)
      else if 2 \<le> height \<and> is_max_block_time_enforced net height \<and> time > block_time_max
      then Err (TimeTooLate time block_time_max)
      else
        and_then (expected_difficulty_threshold ad) (\<lambda>expected.
          if network_disable_pow net then
            and_then (to_work difficulty_threshold) (\<lambda>w.
              if w = None then Err (InvalidDifficultyThreshold difficulty_threshold expected) else Ok ())
          else if difficulty_threshold \<noteq> expected
          then Err (InvalidDifficultyThreshold difficulty_threshold expected)
          else Ok ()))))"

definition block_is_valid_for_recent_chain ::
  "semantically_verified \<Rightarrow> network \<Rightarrow> height option \<Rightarrow> block list \<Rightarrow> unit context_result" where
  "block_is_valid_for_recent_chain sv net finalized_tip_height relevant_chain =
     and_then (expect finalized_tip_height) (\<lambda>tip.
     and_then (block_is_not_orphaned tip (sv_height sv)) (\<lambda>_.
       case take POW_ADJUSTMENT_BLOCK_SPAN relevant_chain of
         [] \<Rightarrow> Err NotReadyToBeCommitted
       | parent # rest \<Rightarrow>
           and_then (expect (coinbase_height parent)) (\<lambda>parent_height.
           and_then (height_one_more_than_parent_height parent_height (sv_height sv)) (\<lambda>_.
           and_then (new_from_block (sv_block sv) net
               (map (\<lambda>b. (hd_difficulty_threshold (bk_header b), hd_time (bk_header b))) (parent # rest))) (\<lambda>ad.
             difficulty_threshold_and_time_are_valid
               (hd_difficulty_threshold (bk_header (sv_block sv))) ad)))))"

definition header_is_valid_for_recent_chain ::
  "header \<Rightarrow> height \<Rightarrow> network \<Rightarrow> (compact \<times> int) list \<Rightarrow> unit context_result" where
  "header_is_valid_for_recent_chain candidate previous_height net relevant_headers =
     and_then (new_from_header_time (hd_time candidate) previous_height net
         (take POW_ADJUSTMENT_BLOCK_SPAN relevant_headers)) (\<lambda>ad.
       difficulty_threshold_and_time_are_valid (hd_difficulty_threshold candidate) ad)"

definition initial_contextual_validity ::
  "finalized_view \<Rightarrow> height option \<Rightarrow> network \<Rightarrow> block list \<Rightarrow> semantically_verified \<Rightarrow> unit context_result" where
  "initial_contextual_validity fs finalized_tip_height net relevant_chain sv =
     and_then (block_is_valid_for_recent_chain sv net finalized_tip_height relevant_chain) (\<lambda>_.
       no_duplicates_in_finalized_chain sv fs)"

text \<open>The start-up check of a cached state: the error carries the number of blocks looked at.\<close>

datatype legacy_chain_error = NoRecentTransactions nat height | InconsistentUpgrade

fun legacy_chain_loop ::
  "height \<Rightarrow> network \<Rightarrow> nat \<Rightarrow> height option \<Rightarrow> nat \<Rightarrow> block list \<Rightarrow> (unit, legacy_chain_error) outcome" where
  "legacy_chain_loop nu5 net max_blocks tip_height index [] = Ok ()"
| "legacy_chain_loop nu5 net max_blocks tip_height index (b # bs) =
     and_then (expect (coinbase_height b)) (\<lambda>h.
       if h < nu5 then Ok ()
       else if index \<ge> max_blocks
       then and_then (expect tip_height) (\<lambda>tip. Err (NoRecentTransactions index tip))
       else and_then (map_err (\<lambda>_. InconsistentUpgrade)
                 (check_transaction_network_upgrade_consistency b net)) (\<lambda>_.
         if \<exists>tx \<in> set (bk_transactions b). tx_network_upgrade tx \<noteq> None then Ok ()
         else legacy_chain_loop nu5 net max_blocks tip_height (Suc index) bs))"

definition legacy_chain ::
  "height \<Rightarrow> block list \<Rightarrow> network \<Rightarrow> nat \<Rightarrow> (unit, legacy_chain_error) outcome" where
  "legacy_chain nu5 ancestors net max_blocks =
     legacy_chain_loop nu5 net max_blocks
       (case ancestors of [] \<Rightarrow> None | b # _ \<Rightarrow> coinbase_height b) 0 ancestors"

subsection \<open>The specification\<close>

text \<open>
  \<open>MeanTarget\<close>, \<open>ActualTimespan\<close>, \<open>ActualTimespanBounded\<close> and \<open>Threshold\<close> of the protocol
  specification, on a context with the full averaging window.
\<close>

fun limit_of :: "network \<Rightarrow> expanded" where
  "limit_of Mainnet = compact_floor (2 ^ 243 - 1)"
| "limit_of (Testnet p) = target_difficulty_limit_of p"

declare limit_of.simps [simp del]

definition median :: "int list \<Rightarrow> int" where
  "median ts = sort ts ! (length ts div 2)"

definition mean_target :: "compact list \<Rightarrow> nat" where
  "mean_target cs = (\<Sum>c\<leftarrow>take 17 cs. to_target c) div 17"

definition actual_timespan :: "int list \<Rightarrow> int" where
  "actual_timespan ts =
     median (take 11 ts) - (if length ts > 17 then median (take 11 (drop 17 ts)) else last ts)"

definition actual_timespan_bounded :: "int \<Rightarrow> int \<Rightarrow> int" where
  "actual_timespan_bounded window span =
     max (window * 84 div 100) (min (window * 132 div 100) (window + trunc_div (span - window) 4))"

definition threshold_spec :: "nat \<Rightarrow> int \<Rightarrow> compact list \<Rightarrow> int list \<Rightarrow> nat" where
  "threshold_spec limit window cs ts =
     min limit (mean_target cs div nat window * nat (actual_timespan_bounded window (actual_timespan ts)))"

definition window_of :: "adjusted_difficulty \<Rightarrow> int" where
  "window_of ad = averaging_window_timespan (current_of (activation_list (ad_network ad)) (ad_candidate_height ad))"

text \<open>A context of verified blocks: the thresholds expand to targets between a lower bound no chain
  comes near and the network's limit.\<close>

definition verified_context :: "adjusted_difficulty \<Rightarrow> bool" where
  "verified_context ad \<longleftrightarrow>
     valid_schedule (activation_list (ad_network ad)) \<and> 0 < limit_of (ad_network ad) \<and>
     limit_of (ad_network ad) \<le> 2 ^ 251 \<and> 17 \<le> length (ad_thresholds ad) \<and>
     length (ad_times ad) = length (ad_thresholds ad) \<and>
     (\<forall>c \<in> set (take 17 (ad_thresholds ad)).
        2550 \<le> to_target c \<and> to_target c \<le> limit_of (ad_network ad))"

lemma target_difficulty_limit_eq: "target_difficulty_limit net = (Ok (limit_of net) :: (expanded, 'e) outcome)"
proof (cases net)
  case Mainnet
  have "compacted_limit (2 ^ 243 - 1) = (Ok (Some (compact_floor (2 ^ 243 - 1))) :: (expanded option, 'e) outcome)"
    by (rule compacted_limit_eq) (simp_all add: u256_max_def)
  then have "and_then (and_then (to_compact (2 ^ 243 - 1)) to_expanded) expect =
      (Ok (compact_floor (2 ^ 243 - 1)) :: (expanded, 'e) outcome)"
    unfolding compacted_limit_def by (simp only: and_then.simps expect.simps)
  then show ?thesis
    unfolding Mainnet target_difficulty_limit.simps limit_of.simps and_then_assoc .
qed (simp add: limit_of.simps)

lemma median_time_eq: "ts \<noteq> [] \<Longrightarrow> median_time ts = Ok (median ts)"
  by (simp add: median_time_def list_get_def median_def)

lemma window_values:
  "averaging_window_timespan nu \<in> {2550, 1275}"
  by (cases nu) (simp_all add: averaging_window_timespan_def PRE_BLOSSOM_POW_TARGET_SPACING_def
      POST_BLOSSOM_POW_TARGET_SPACING_def POW_AVERAGING_WINDOW_def)

lemma trunc_div_percent: "w \<in> {2550, 1275} \<Longrightarrow> p \<in> {84, 132} \<Longrightarrow> trunc_div (w * p) 100 = w * p div 100"
  by (auto simp: trunc_div_def)

lemma bounded_range:
  "w \<in> {2550, 1275} \<Longrightarrow>
     w * 84 div 100 \<le> actual_timespan_bounded w s \<and> actual_timespan_bounded w s \<le> w * 132 div 100"
  by (auto simp: actual_timespan_bounded_def)

lemma expanded_sum_eq:
  assumes "sum_list ds \<le> u256_max"
  shows "expanded_sum ds = Ok (sum_list ds)"
proof -
  have "foldl (\<lambda>acc d. and_then acc (\<lambda>a. u256_checked (a + d))) (Ok a) ds = Ok (a + sum_list ds)"
    if "a + sum_list ds \<le> u256_max" for a
    using that by (induction ds arbitrary: a) (auto simp: u256_checked_def add.assoc)
  from this[of 0] show ?thesis using assms by (simp add: expanded_sum_def)
qed

lemma mean_bounds:
  assumes "verified_context ad"
  shows "sum_list (map to_target (take 17 (ad_thresholds ad))) \<le> 17 * limit_of (ad_network ad)"
    and "17 * 2550 \<le> sum_list (map to_target (take 17 (ad_thresholds ad)))"
    and "2550 \<le> mean_target (ad_thresholds ad)" "mean_target (ad_thresholds ad) \<le> limit_of (ad_network ad)"
proof -
  let ?cs = "take 17 (ad_thresholds ad)" and ?L = "limit_of (ad_network ad)"
  have l: "17 \<le> length (ad_thresholds ad)" and b: "\<forall>c \<in> set ?cs. 2550 \<le> to_target c \<and> to_target c \<le> ?L"
    using assms by (auto simp: verified_context_def)
  have "sum_list (map to_target ?cs) \<le> sum_list (map (\<lambda>_. ?L) ?cs)"
    using b by (intro sum_list_mono) simp
  then show u: "sum_list (map to_target ?cs) \<le> 17 * ?L" using l by (simp add: sum_list_triv)
  have "sum_list (map (\<lambda>_. 2550) ?cs) \<le> sum_list (map to_target ?cs)"
    using b by (intro sum_list_mono) simp
  then show d: "17 * 2550 \<le> sum_list (map to_target ?cs)" using l by (simp add: sum_list_triv)
  show "2550 \<le> mean_target (ad_thresholds ad)" "mean_target (ad_thresholds ad) \<le> ?L"
    using u d by (auto simp: mean_target_def)
qed

lemma mean_target_eq:
  assumes "verified_context ad"
  shows "mean_target_difficulty ad = (Ok (mean_target (ad_thresholds ad)) :: (expanded, 'e) outcome)"
proof -
  let ?cs = "take 17 (ad_thresholds ad)"
  have small: "17 * limit_of (ad_network ad) \<le> u256_max"
    using assms by (simp add: verified_context_def u256_max_def)
  have "target_option c = Some (to_target c)" if "c \<in> set ?cs" for c
  proof -
    have "2550 \<le> to_target c" "to_target c \<le> limit_of (ad_network ad)"
      using assms that by (auto simp: verified_context_def)
    then show ?thesis using small by (auto simp: target_option_Some)
  qed
  then have "try_map (\<lambda>c. and_then (to_expanded c) expect) ?cs =
      (Ok (map to_target ?cs) :: (nat list, 'e) outcome)"
    by (intro try_map_Ok) (simp add: to_expanded_eq)
  moreover have "expanded_sum (map to_target ?cs) = (Ok (sum_list (map to_target ?cs)) :: (nat, 'e) outcome)"
    using mean_bounds(1)[OF assms] small by (intro expanded_sum_eq) linarith
  ultimately show ?thesis
    using assms by (simp add: mean_target_difficulty_def POW_AVERAGING_WINDOW_def verified_context_def
        mean_target_def expanded_div_def)
qed

lemma timespan_eq:
  assumes "verified_context ad"
  shows "window_timespan ad = (Ok (window_of ad) :: (int, 'e) outcome)"
    and "median_timespan_bounded ad =
      (Ok (actual_timespan_bounded (window_of ad) (actual_timespan (ad_times ad))) :: (int, 'e) outcome)"
proof -
  have l: "17 \<le> length (ad_times ad)" and v: "valid_schedule (activation_list (ad_network ad))"
    using assms by (simp_all add: verified_context_def)
  show w: "window_timespan ad = (Ok (window_of ad) :: (int, 'e) outcome)"
    by (simp add: window_timespan_def averaging_window_timespan_for_height_def window_of_def
        activation_schedule.current_upgrade_eq[OF activation_schedule.intro[OF v]])
  have m: "median_time_past ad = (Ok (median (take 11 (ad_times ad))) :: (int, 'e) outcome)"
    using l by (auto simp: median_time_past_def POW_MEDIAN_BLOCK_SPAN_def intro!: median_time_eq)
  have "median_time (take 11 (drop 17 (ad_times ad))) =
      (Ok (median (take 11 (drop 17 (ad_times ad)))) :: (int, 'e) outcome)"
    if "17 < length (ad_times ad)" using that by (intro median_time_eq) simp
  moreover have "list_get (ad_times ad) (length (ad_times ad) - 1) = Some (last (ad_times ad))"
    using l by (cases "ad_times ad" rule: rev_cases) (simp_all add: list_get_def)
  ultimately have "median_timespan ad = (Ok (actual_timespan (ad_times ad)) :: (int, 'e) outcome)"
    by (simp add: median_timespan_def m POW_AVERAGING_WINDOW_def POW_MEDIAN_BLOCK_SPAN_def actual_timespan_def)
  moreover have "window_of ad \<in> {2550, 1275}" unfolding window_of_def by (rule window_values)
  ultimately show "median_timespan_bounded ad =
      (Ok (actual_timespan_bounded (window_of ad) (actual_timespan (ad_times ad))) :: (int, 'e) outcome)"
    by (simp add: median_timespan_bounded_def w Let_def actual_timespan_bounded_def trunc_div_percent
        POW_DAMPING_FACTOR_def POW_MAX_ADJUST_UP_PERCENT_def POW_MAX_ADJUST_DOWN_PERCENT_def)
qed

lemma unbounded_threshold:
  fixes ad :: adjusted_difficulty and s :: int
  defines "q \<equiv> mean_target (ad_thresholds ad) div nat (window_of ad)"
    and "B \<equiv> nat (actual_timespan_bounded (window_of ad) s)"
  assumes "verified_context ad"
  shows "0 < q * B"
    and "100 * (q * B) \<le> 132 * mean_target (ad_thresholds ad)"
    and "84 * (q * nat (window_of ad)) \<le> 100 * (q * B)"
proof -
  let ?w = "window_of ad" and ?m = "mean_target (ad_thresholds ad)"
  have w: "?w = 2550 \<or> ?w = 1275" using window_values by (auto simp: window_of_def)
  then have b: "?w * 84 div 100 \<le> actual_timespan_bounded ?w s" "actual_timespan_bounded ?w s \<le> ?w * 132 div 100"
    using bounded_range[of ?w s] by auto
  then have B: "0 < B" "100 * B \<le> 132 * nat ?w" "84 * nat ?w \<le> 100 * B" using w by (auto simp: B_def)
  have "0 < q" using mean_bounds(3)[OF assms(3)] w by (auto simp: q_def div_greater_zero_iff)
  then show "0 < q * B" using B(1) by simp
  have "q * (100 * B) \<le> q * (132 * nat ?w)" using B(2) by (rule mult_le_mono2)
  also have "\<dots> = 132 * (q * nat ?w)" by (simp add: algebra_simps)
  also have "\<dots> \<le> 132 * ?m" by (simp add: q_def)
  finally show "100 * (q * B) \<le> 132 * ?m" by (simp add: algebra_simps)
  have "q * (84 * nat ?w) \<le> q * (100 * B)" using B(3) by (rule mult_le_mono2)
  then show "84 * (q * nat ?w) \<le> 100 * (q * B)" by (simp add: algebra_simps)
qed

abbreviation expected_target :: "adjusted_difficulty \<Rightarrow> nat" where
  "expected_target ad \<equiv> threshold_spec (limit_of (ad_network ad)) (window_of ad) (ad_thresholds ad) (ad_times ad)"

lemma threshold_spec_range:
  assumes "verified_context ad"
  shows "0 < expected_target ad" "expected_target ad \<le> limit_of (ad_network ad)"
    "expected_target ad \<le> u256_max"
proof -
  show "0 < expected_target ad" "expected_target ad \<le> limit_of (ad_network ad)"
    using unbounded_threshold(1)[OF assms] assms
    by (auto simp: threshold_spec_def verified_context_def)
  then show "expected_target ad \<le> u256_max"
    using assms by (auto simp: verified_context_def u256_max_def)
qed

lemma threshold_bits_eq:
  assumes "verified_context ad"
  shows "threshold_bits ad = (to_compact (expected_target ad) :: (compact, 'e) outcome)"
proof -
  let ?w = "window_of ad" and ?s = "actual_timespan (ad_times ad)"
  have w: "?w = 2550 \<or> ?w = 1275" using window_values by (auto simp: window_of_def)
  have "mean_target (ad_thresholds ad) div nat ?w * nat (actual_timespan_bounded ?w ?s) \<le> u256_max"
  proof -
    have "mean_target (ad_thresholds ad) \<le> 2 ^ 251"
      using mean_bounds(4)[OF assms] assms by (simp add: verified_context_def)
    then have "132 * mean_target (ad_thresholds ad) \<le> 100 * u256_max" by (simp add: u256_max_def)
    with unbounded_threshold(2)[OF assms, of ?s] show ?thesis by linarith
  qed
  then have m: "expanded_mul (mean_target (ad_thresholds ad) div nat ?w) (nat (actual_timespan_bounded ?w ?s)) =
      (Ok (mean_target (ad_thresholds ad) div nat ?w * nat (actual_timespan_bounded ?w ?s)) :: (nat, 'e) outcome)"
    by (simp add: expanded_mul_def u256_checked_def)
  have "expanded_div (mean_target (ad_thresholds ad)) (nat ?w) =
      (Ok (mean_target (ad_thresholds ad) div nat ?w) :: (nat, 'e) outcome)"
    using w by (auto simp: expanded_div_def)
  then show ?thesis
    using assms
    by (simp add: threshold_bits_def timespan_eq mean_target_eq m target_difficulty_limit_eq
        threshold_spec_def verified_context_def POW_AVERAGING_WINDOW_def)
qed

lemma min_difficulty_False:
  assumes "is_testnet_min_difficulty_block (ad_network ad) (ad_candidate_height ad)
      (ad_candidate_time ad) (hd (ad_times ad)) = (Ok False :: (bool, 'e) outcome)" "ad_times ad \<noteq> []"
  shows "expected_difficulty_threshold ad = (threshold_bits ad :: (compact, 'e) outcome)"
  using assms by (simp add: expected_difficulty_threshold_def list_get_def hd_conv_nth)

lemma genesis_activation:
  assumes "valid_schedule l"
  shows "upgrade_activation_height l Genesis = Some 0"
proof (cases l)
  case Nil
  then show ?thesis using assms by (simp add: valid_schedule_def)
next
  case (Cons e m)
  obtain k v where e: "e = (k, v)" by (cases e)
  have "k = 0"
    using assms unfolding Cons e valid_schedule_def bt_inv_Cons
    by (auto split: if_splits dest!: map_of_SomeD)
  moreover have "Genesis \<le> v" by (simp add: less_eq_network_upgrade_def)
  moreover have "upgrade_activation_height l Genesis = map_option fst (find (\<lambda>e. Genesis \<le> snd e) l)"
    using assms by (intro upgrade_activation_height_first) (simp add: valid_schedule_def)
  ultimately show ?thesis by (simp add: Cons e)
qed

subsection \<open>Properties\<close>

text \<open>
  C22. The recent-chain check of a header, on a context of at least seventeen verified blocks whose
  targets are at least 2550 and at most the network's limit, where proof of work is enabled and the
  Testnet minimum-difficulty rule does not apply. A header is accepted exactly when its time is after the
  median of the last eleven blocks (or it has height zero), at most ninety minutes after it where that
  rule is enforced, and its compact threshold is that of the adjusted target: the mean of the window
  scaled by its damped and bounded timespan, and capped by the limit. This holds at every height with
  such a context, also at height 17, where a comment in the code has the limit instead. The adjusted
  target is never above the network's limit and moves from the mean of the window by at most 32 per cent
  up, and 16 per cent down (up to the rounding of the mean to a multiple of the timespan) unless the
  limit caps it. The check never panics.
\<close>

theorem difficulty_check_accepts_exactly:
  fixes ad :: adjusted_difficulty
  assumes "verified_context ad" "\<not> network_disable_pow (ad_network ad)"
    "is_testnet_min_difficulty_block (ad_network ad) (ad_candidate_height ad)
       (ad_candidate_time ad) (hd (ad_times ad)) = (Ok False :: (bool, validate_context_error) outcome)"
  shows "(difficulty_threshold_and_time_are_valid c ad = Ok () \<longleftrightarrow>
      (median (take 11 (ad_times ad)) < ad_candidate_time ad \<or> ad_candidate_height ad = 0) \<and>
      (2 \<le> ad_candidate_height ad \<and> is_max_block_time_enforced (ad_network ad) (ad_candidate_height ad) \<longrightarrow>
         ad_candidate_time ad \<le> median (take 11 (ad_times ad)) + 5400) \<and>
      (Ok c :: (compact, validate_context_error) outcome) = to_compact (expected_target ad)) \<and>
    difficulty_threshold_and_time_are_valid c ad \<noteq> Panic \<and>
    0 < expected_target ad \<and> expected_target ad \<le> limit_of (ad_network ad) \<and>
    100 * expected_target ad \<le> 132 * mean_target (ad_thresholds ad) \<and>
    (expected_target ad = limit_of (ad_network ad) \<or>
     84 * (mean_target (ad_thresholds ad) div nat (window_of ad) * nat (window_of ad)) \<le> 100 * expected_target ad)"
proof -
  have l: "ad_times ad \<noteq> []" and v: "valid_schedule (activation_list (ad_network ad))"
    using assms(1) by (auto simp: verified_context_def)
  have m: "median_time_past ad = (Ok (median (take 11 (ad_times ad))) :: (int, validate_context_error) outcome)"
    using l by (auto simp: median_time_past_def POW_MEDIAN_BLOCK_SPAN_def intro!: median_time_eq)
  have g: "activation_height Genesis (ad_network ad) = Some 0"
    by (rule genesis_activation[OF v])
  obtain k where k: "to_compact (expected_target ad) = (Ok k :: (compact, validate_context_error) outcome)"
    using to_compact_eq[OF threshold_spec_range(1,3)[OF assms(1)]] by auto
  have e: "expected_difficulty_threshold ad = (Ok k :: (compact, validate_context_error) outcome)"
    using min_difficulty_False[OF assms(3) l] threshold_bits_eq[OF assms(1)] k by metis
  have c: "difficulty_threshold_and_time_are_valid c ad =
      (if ad_candidate_time ad \<le> median (take 11 (ad_times ad)) \<and> ad_candidate_height ad \<noteq> 0
       then Err (TimeTooEarly (ad_candidate_time ad) (median (take 11 (ad_times ad))))
       else if 2 \<le> ad_candidate_height ad \<and> is_max_block_time_enforced (ad_network ad) (ad_candidate_height ad) \<and>
         ad_candidate_time ad > median (take 11 (ad_times ad)) + 5400
       then Err (TimeTooLate (ad_candidate_time ad) (median (take 11 (ad_times ad)) + 5400))
       else if c \<noteq> k then Err (InvalidDifficultyThreshold c k) else Ok ())"
    using assms(2)
    by (simp add: difficulty_threshold_and_time_are_valid_def Let_def m g e BLOCK_MAX_TIME_SINCE_MEDIAN_def)
  note u = unbounded_threshold[OF assms(1), of "actual_timespan (ad_times ad)"]
  have "100 * expected_target ad \<le> 132 * mean_target (ad_thresholds ad)"
    using u(2) unfolding threshold_spec_def by (meson le_trans min.cobounded2 mult_le_mono2)
  moreover have "expected_target ad = limit_of (ad_network ad) \<or>
     84 * (mean_target (ad_thresholds ad) div nat (window_of ad) * nat (window_of ad)) \<le> 100 * expected_target ad"
    using u(3) unfolding threshold_spec_def by (metis min_def)
  ultimately show ?thesis
    using threshold_spec_range[OF assms(1)] unfolding c k by auto
qed

text \<open>A Mainnet context at height 17: the seventeen blocks before it at the limit, a second apart.\<close>

definition early_context :: adjusted_difficulty where
  "early_context = \<lparr>ad_candidate_time = 1001, ad_candidate_height = 17, ad_network = Mainnet,
     ad_thresholds = replicate 17 0x1f07ffff, ad_times = [1000, 999, 998, 997, 996, 995, 994, 993, 992, 991, 990, 989, 988, 987, 986, 985, 984]\<rparr>"

lemma bit_size_between:
  assumes "2 ^ n \<le> x" "x < 2 ^ Suc n"
  shows "bit_size x = Suc n"
proof -
  have b: "2 ^ (bit_size x - 1) \<le> x" "x < 2 ^ bit_size x" "0 < bit_size x"
    using bit_size_bounds[OF order_less_le_trans[OF _ assms(1)]] by auto
  have "(2 :: nat) ^ n < 2 ^ bit_size x" "(2 :: nat) ^ (bit_size x - 1) < 2 ^ Suc n"
    using b assms by linarith+
  then have "n < bit_size x" "bit_size x - 1 < Suc n"
    using power_strict_increasing_iff[of "2 :: nat"] by (simp_all del: power_Suc)
  then show ?thesis by simp
qed

lemma mainnet_limit: "limit_of Mainnet = 0x7ffff00000000000000000000000000000000000000000000000000000000"
proof -
  have "bit_size (2 ^ 243 - 1) = 243" using bit_size_between[of 242 "2 ^ 243 - 1"] by simp
  then show ?thesis unfolding limit_of.simps compact_floor_def mantissa_unit_def by simp
qed

lemma limit_target: "to_target 0x1f07ffff = 0x7ffff00000000000000000000000000000000000000000000000000000000"
  by (simp add: to_target_def)

lemma mainnet_window_early: "averaging_window_timespan (current_of (activation_list Mainnet) 17) = 2550"
  unfolding activation_list.simps mainnet_collect
  by (simp add: current_of_def bt_upto_def MAINNET_ACTIVATION_HEIGHTS_def averaging_window_timespan_def
      PRE_BLOSSOM_POW_TARGET_SPACING_def POW_AVERAGING_WINDOW_def)

lemma early_context_verified: "verified_context early_context"
  unfolding verified_context_def early_context_def adjusted_difficulty.simps mainnet_limit
    activation_list.simps mainnet_collect
  using mainnet_schedule_valid by (simp add: limit_target)

lemma early_target: "expected_target early_context = 0x6b851147ae147ae147ae147ae147ae147ae147ae147ae147ae147ae147500"
proof -
  have m: "mean_target (replicate 17 0x1f07ffff) = 0x7ffff00000000000000000000000000000000000000000000000000000000"
    by (simp add: mean_target_def limit_target sum_list_replicate)
  have t: "actual_timespan [1000, 999, 998, 997, 996, 995, 994, 993, 992, 991, 990, 989, 988, 987, 986, 985, 984] = 11" by code_simp
  have b: "actual_timespan_bounded 2550 11 = 2142" by code_simp
  have w: "window_of early_context = 2550"
    unfolding window_of_def early_context_def adjusted_difficulty.simps by (rule mainnet_window_early)
  show ?thesis unfolding w unfolding threshold_spec_def early_context_def adjusted_difficulty.simps m t b mainnet_limit
    by simp
qed

lemma early_median: "median [1000, 999, 998, 997, 996, 995, 994, 993, 992, 991, 990] = 995"
  by code_simp

lemma early_compact: "to_compact 0x6b851147ae147ae147ae147ae147ae147ae147ae147ae147ae147ae147500 = (Ok 0x1f06b851 :: (compact, 'e) outcome)"
proof -
  have "bit_size 0x6b851147ae147ae147ae147ae147ae147ae147ae147ae147ae147ae147500 = 243"
    using bit_size_between[of 242 "0x6b851147ae147ae147ae147ae147ae147ae147ae147ae147ae147ae147500"] by simp
  then show ?thesis
    by (subst to_compact_eq) (simp_all add: u256_max_def compact_mantissa_def byte_size_def)
qed

lemma limit_compact: "to_compact 0x7ffff00000000000000000000000000000000000000000000000000000000 = (Ok 0x1f07ffff :: (compact, 'e) outcome)"
proof -
  have "bit_size 0x7ffff00000000000000000000000000000000000000000000000000000000 = 243"
    using bit_size_between[of 242 "0x7ffff00000000000000000000000000000000000000000000000000000000"] by simp
  then show ?thesis
    by (subst to_compact_eq) (simp_all add: u256_max_def compact_mantissa_def byte_size_def)
qed

text \<open>The next height, with one more block.\<close>

definition later_context :: adjusted_difficulty where
  "later_context = early_context\<lparr>ad_candidate_height := 18, ad_thresholds := replicate 18 0x1f07ffff,
     ad_times := [1000, 999, 998, 997, 996, 995, 994, 993, 992, 991, 990, 989, 988, 987, 986, 985, 984, 983]\<rparr>"

lemma later_context_verified: "verified_context later_context"
  unfolding verified_context_def later_context_def early_context_def adjusted_difficulty.simps mainnet_limit
    activation_list.simps mainnet_collect
  using mainnet_schedule_valid by (simp add: limit_target)

lemma later_target: "expected_target later_context = expected_target early_context"
proof -
  have "averaging_window_timespan (current_of (activation_list Mainnet) 18) = 2550"
    unfolding activation_list.simps mainnet_collect
    by (simp add: current_of_def bt_upto_def MAINNET_ACTIVATION_HEIGHTS_def averaging_window_timespan_def
        PRE_BLOSSOM_POW_TARGET_SPACING_def POW_AVERAGING_WINDOW_def)
  then have w: "window_of later_context = 2550" "window_of early_context = 2550"
    using mainnet_window_early by (simp_all add: window_of_def later_context_def early_context_def)
  have t: "actual_timespan (ad_times later_context) = 12" "actual_timespan (ad_times early_context) = 11"
    unfolding later_context_def early_context_def adjusted_difficulty.simps by code_simp+
  have b: "actual_timespan_bounded 2550 12 = actual_timespan_bounded 2550 11" by code_simp
  have "mean_target (ad_thresholds later_context) = mean_target (ad_thresholds early_context)"
    "ad_network later_context = ad_network early_context"
    by (simp_all add: later_context_def early_context_def mean_target_def)
  then show ?thesis by (simp add: threshold_spec_def w t b)
qed

theorem difficulty_check_accepts_exactly_witness:
  "difficulty_threshold_and_time_are_valid 0x1f06b851 later_context = Ok () \<and>
   difficulty_threshold_and_time_are_valid 0x1f07ffff later_context \<noteq> Ok ()"
proof -
  have r: "\<not> network_disable_pow (ad_network later_context)" "ad_candidate_height later_context = 18"
    "ad_candidate_time later_context = 1001" "median (take 11 (ad_times later_context)) = 995"
    "is_testnet_min_difficulty_block (ad_network later_context) (ad_candidate_height later_context)
       (ad_candidate_time later_context) (hd (ad_times later_context)) = (Ok False :: (bool, validate_context_error) outcome)"
    by (simp_all add: later_context_def early_context_def early_median
        is_testnet_min_difficulty_block_def minimum_difficulty_spacing_for_height_def)
  show ?thesis
    using difficulty_check_accepts_exactly[OF later_context_verified r(1,5), of "0x1f06b851"]
      difficulty_check_accepts_exactly[OF later_context_verified r(1,5), of "0x1f07ffff"]
    by (simp add: r later_target early_target early_compact)
qed

text \<open>
  C23. The early-chain rule of the difficulty adjustment does not cover its last height. A comment
  in the code gives \<open>ThresholdBits(height)\<close> as the limit for every height up to the averaging window
  of 17 blocks, but the code also asks for a context shorter than the window: at height 17 the context
  has its 17 blocks, and a Mainnet chain whose first blocks come a second apart is held to the adjusted
  threshold, which is 16 per cent below the limit.
\<close>

theorem early_chain_rule_misses_height_17:
  "ad_candidate_height early_context \<le> POW_AVERAGING_WINDOW \<and>
   length (ad_thresholds early_context) = ad_candidate_height early_context \<and>
   verified_context early_context \<and>
   threshold_bits early_context = (Ok 0x1f06b851 :: (compact, 'e) outcome) \<and>
   and_then (target_difficulty_limit (ad_network early_context)) to_compact = (Ok 0x1f07ffff :: (compact, 'e) outcome)"
proof -
  have "ad_network early_context = Mainnet" "ad_candidate_height early_context = 17"
    "length (ad_thresholds early_context) = 17" by (simp_all add: early_context_def)
  then show ?thesis
    using early_context_verified threshold_bits_eq[OF early_context_verified, where 'e = 'e]
    unfolding early_target early_compact target_difficulty_limit_eq
    by (simp add: POW_AVERAGING_WINDOW_def mainnet_limit limit_compact)
qed

end
