(* ===== verification/Codecs.thy ===== *)
theory Codecs
  imports Serialization
begin

section \<open>Codec combinators\<close>

text \<open>
  How the structures of the consensus encoding are put together from smaller codecs: one part after
  another, a part whose form depends on what was read before it, a part that is only present in some
  cases, an array whose length was read elsewhere, and a limit on the bytes read. Each combinator
  keeps the contract \<open>zcash_codec\<close>, so the codec of a structure is found by naming its parts.
\<close>

subsection \<open>Checked byte arrays\<close>

text \<open>A fixed number of bytes that a check may reject with a parse error.\<close>

definition read_checked :: "nat \<Rightarrow> (bytes \<Rightarrow> string option) \<Rightarrow> bytes reader" where
  "read_checked n problem bs =
     and_then (read_exact n bs) (\<lambda>(b, bs).
       case problem b of None \<Rightarrow> Ok (b, bs) | Some message \<Rightarrow> Err (Parse message))"

lemma array_codec: "zcash_codec Ok (read_exact n) (\<lambda>b. length b = n)"
  by unfold_locales (auto simp: rust_simps)

lemma checked_codec: "zcash_codec Ok (read_checked n problem) (\<lambda>b. length b = n \<and> problem b = None)"
  by unfold_locales (auto simp: read_checked_def rust_simps split: option.splits)

subsection \<open>Dependent parts\<close>

definition dep_serialize :: "'a writer \<Rightarrow> ('a \<Rightarrow> 'b writer) \<Rightarrow> ('a \<times> 'b) writer" where
  "dep_serialize s1 s2 p =
     and_then (s1 (fst p)) (\<lambda>b. and_then (s2 (fst p) (snd p)) (\<lambda>c. Ok (b @ c)))"

definition dep_deserialize :: "'a reader \<Rightarrow> ('a \<Rightarrow> 'b reader) \<Rightarrow> ('a \<times> 'b) reader" where
  "dep_deserialize d1 d2 bs =
     and_then (d1 bs) (\<lambda>(x, bs). and_then (d2 x bs) (\<lambda>(y, bs). Ok ((x, y), bs)))"

lemma dep_codec:
  assumes "zcash_codec head_ser head_de head_ok" and "\<And>x. head_ok x \<Longrightarrow> zcash_codec (tail_ser x) (tail_de x) (tail_ok x)"
  shows "zcash_codec (dep_serialize head_ser tail_ser) (dep_deserialize head_de tail_de)
    (\<lambda>p. head_ok (fst p) \<and> tail_ok (fst p) (snd p))"
proof
  note c1 = zcash_codec.ser_Ok[OF assms(1)] zcash_codec.de_ser[OF assms(1)]
    zcash_codec.de_canonical[OF assms(1)] zcash_codec.de_no_panic[OF assms(1)]
  note c2 = zcash_codec.ser_Ok[OF assms(2)] zcash_codec.de_ser[OF assms(2)]
    zcash_codec.de_canonical[OF assms(2)] zcash_codec.de_no_panic[OF assms(2)]
  {
    fix x :: "'a \<times> 'b" assume v: "head_ok (fst x) \<and> tail_ok (fst x) (snd x)"
    from v c1(1) c2(1) obtain b1 b2 where b: "head_ser (fst x) = Ok b1" "tail_ser (fst x) (snd x) = Ok b2" by blast
    then show "\<exists>b. dep_serialize head_ser tail_ser x = Ok b" by (simp add: dep_serialize_def)
    fix b rest assume "dep_serialize head_ser tail_ser x = Ok b"
    with b have "b = b1 @ b2" by (simp add: dep_serialize_def)
    then show "dep_deserialize head_de tail_de (b @ rest) = Ok (x, rest)"
      using v c1(2)[OF _ b(1)] c2(2)[OF _ _ b(2)] by (simp add: dep_deserialize_def)
  next
    fix bs x rest assume "dep_deserialize head_de tail_de bs = Ok (x, rest)"
    then obtain bs' where x: "head_de bs = Ok (fst x, bs')" "tail_de (fst x) bs' = Ok (snd x, rest)"
      by (auto simp: dep_deserialize_def rust_simps)
    from c1(3)[OF x(1)] c2(3)[OF _ x(2)]
    show "(head_ok (fst x) \<and> tail_ok (fst x) (snd x)) \<and> (\<exists>b. dep_serialize head_ser tail_ser x = Ok b \<and> bs = b @ rest)"
      by (auto simp: dep_serialize_def)
  next
    fix bs show "dep_deserialize head_de tail_de bs \<noteq> Panic"
      using c1(3,4) c2(4) by (auto simp: dep_deserialize_def rust_simps)
  }
qed

lemma pair_codec:
  assumes "zcash_codec s1 d1 v1" "zcash_codec s2 d2 v2"
  shows "zcash_codec (pair_serialize s1 s2) (pair_deserialize d1 d2) (\<lambda>p. v1 (fst p) \<and> v2 (snd p))"
  using dep_codec[of s1 d1 v1 "\<lambda>_. s2" "\<lambda>_. d2" "\<lambda>_. v2"] assms
  by (simp add: dep_serialize_def[abs_def] dep_deserialize_def[abs_def] pair_serialize_def[abs_def]
      pair_deserialize_def[abs_def])

subsection \<open>Optional parts and arrays of a known length\<close>

text \<open>The part is present when the condition holds.\<close>

definition when_serialize :: "'a writer \<Rightarrow> 'a option writer" where
  "when_serialize s x = (case x of None \<Rightarrow> Ok [] | Some y \<Rightarrow> s y)"

definition when_deserialize :: "bool \<Rightarrow> 'a reader \<Rightarrow> 'a option reader" where
  "when_deserialize c d bs = (if c then and_then (d bs) (\<lambda>(y, bs). Ok (Some y, bs)) else Ok (None, bs))"

definition when_valid :: "bool \<Rightarrow> ('a \<Rightarrow> bool) \<Rightarrow> 'a option \<Rightarrow> bool" where
  "when_valid c v x = (case x of None \<Rightarrow> \<not> c | Some y \<Rightarrow> c \<and> v y)"

lemma when_codec:
  assumes "zcash_codec s d v"
  shows "zcash_codec (when_serialize s) (when_deserialize c d) (when_valid c v)"
proof -
  note codec = zcash_codec.ser_Ok[OF assms] zcash_codec.de_ser[OF assms]
    zcash_codec.de_canonical[OF assms] zcash_codec.de_no_panic[OF assms]
  show ?thesis
    by unfold_locales
      (auto simp: when_serialize_def when_deserialize_def when_valid_def codec(1,2,4) rust_simps
        split: option.splits if_splits dest!: codec(3))
qed

lemma dep_when_codec:
  assumes "zcash_codec head_ser head_de head_ok" "\<And>x. zcash_codec part_ser (part_de x) (part_ok x)"
  shows "zcash_codec (dep_serialize head_ser (\<lambda>_. when_serialize part_ser))
    (dep_deserialize head_de (\<lambda>x. when_deserialize (present x) (part_de x)))
    (\<lambda>p. head_ok (fst p) \<and> when_valid (present (fst p)) (part_ok (fst p)) (snd p))"
  by (rule dep_codec[OF assms(1) when_codec[OF assms(2)]])

lemma external_count_codec:
  assumes "zcash_codec s d v"
  shows "zcash_codec (zcash_serialize_external_count s) (zcash_deserialize_external_count max_allocation d n)
    (\<lambda>xs. length xs = n \<and> n \<le> max_allocation \<and> (\<forall>x \<in> set xs. v x))"
proof -
  note codec = zcash_codec.items_ser_Ok[OF assms] zcash_codec.items_roundtrip[OF assms]
    zcash_codec.items_canonical[OF assms] zcash_codec.items_no_panic[OF assms]
  show ?thesis
    by unfold_locales
      (auto simp: zcash_deserialize_external_count_def codec(1,2,4) split: if_splits dest!: codec(3))
qed

context vec_codec
begin

lemma vec_is_codec: "zcash_codec (vec_serialize ser) (vec_deserialize max_allocation de)
  (\<lambda>xs. length xs \<le> max_allocation \<and> length xs \<le> MAX_PROTOCOL_MESSAGE_LEN \<and> (\<forall>x \<in> set xs. valid x))"
  by (rule vec.zcash_codec_axioms)

end

lemma vector_codec:
  assumes "zcash_codec s d v"
  shows "zcash_codec (vec_serialize s) (vec_deserialize max_allocation d)
    (\<lambda>xs. length xs \<le> max_allocation \<and> length xs \<le> MAX_PROTOCOL_MESSAGE_LEN \<and> (\<forall>x \<in> set xs. v x))"
proof -
  from assms have "vec_codec s d v" by (rule vec_codec.intro)
  then show ?thesis by (rule vec_codec.vec_is_codec)
qed

text \<open>\<open>zcash_serialize_empty_list\<close> writes a zero length.\<close>

definition zcash_serialize_empty_list :: "(bytes, serialization_error) outcome" where
  "zcash_serialize_empty_list = compact_size_message_serialize 0"

lemma vec_serialize_Nil [simp]: "vec_serialize s [] = zcash_serialize_empty_list"
  by (simp add: vec_serialize_def zcash_serialize_empty_list_def compact_size_message_serialize_def rust_simps)

subsection \<open>Structures\<close>

text \<open>
  A structure \<open>x\<close> is written as its parts \<open>f x\<close>, and built from the parts by \<open>g\<close>. The reader may
  end with checks that no valid parts fail.
\<close>

lemma codec_iso:
  assumes codec: "zcash_codec ser de valid"
    and f: "\<And>x. valid' x \<Longrightarrow> valid (f x) \<and> g (f x) = x"
    and g: "\<And>y. valid y \<Longrightarrow> valid' (g y) \<and> f (g y) = y"
    and ser': "\<And>x. valid' x \<Longrightarrow> ser' x = ser (f x)"
    and de': "\<And>bs. de' bs = and_then (de bs) (\<lambda>(y, r). h y r)"
    and h: "\<And>y r. valid y \<Longrightarrow> h y r = Ok (g y, r)"
  shows "zcash_codec ser' de' valid'"
proof
  note c = zcash_codec.ser_Ok[OF codec] zcash_codec.de_ser[OF codec]
    zcash_codec.de_canonical[OF codec] zcash_codec.de_no_panic[OF codec]
  have de_Ok: "de' bs = Ok (x, rest) \<longleftrightarrow> (\<exists>y. de bs = Ok (y, rest) \<and> x = g y)" for bs x rest
  proof
    assume "de' bs = Ok (x, rest)"
    then obtain y r where "de bs = Ok (y, r)" "h y r = Ok (x, rest)" by (auto simp: de' rust_simps)
    with c(3) h show "\<exists>y. de bs = Ok (y, rest) \<and> x = g y" by fastforce
  next
    assume "\<exists>y. de bs = Ok (y, rest) \<and> x = g y"
    then show "de' bs = Ok (x, rest)" using c(3) h by (auto simp: de')
  qed
  {
    fix x assume "valid' x"
    with f ser' c(1) show "\<exists>b. ser' x = Ok b" by metis
  next
    fix x b rest assume "valid' x" "ser' x = Ok b"
    with f ser' c(2) have "de (b @ rest) = Ok (f x, rest)" "g (f x) = x" by metis+
    then show "de' (b @ rest) = Ok (x, rest)" by (auto simp: de_Ok)
  next
    fix bs x rest assume "de' bs = Ok (x, rest)"
    then obtain y where "de bs = Ok (y, rest)" "x = g y" by (auto simp: de_Ok)
    with c(3) g ser' show "valid' x \<and> (\<exists>b. ser' x = Ok b \<and> bs = b @ rest)" by metis
  next
    fix bs show "de' bs \<noteq> Panic"
      using c(3,4) h by (cases "de bs") (fastforce simp: de')+
  }
qed

lemmas codec_defs = dep_serialize_def dep_deserialize_def when_serialize_def when_deserialize_def
  when_valid_def pair_serialize_def pair_deserialize_def

lemma and_then_Ok [simp]: "and_then m Ok = m"
  by (cases m) auto

lemma and_then_cong: "(\<And>x. m = Ok x \<Longrightarrow> f x = g x) \<Longrightarrow> and_then m f = and_then m g"
  by (cases m) auto

subsection \<open>Limited readers\<close>

text \<open>\<open>Read::take\<close>: the reader sees at most \<open>n\<close> bytes, and what it leaves is still to be read.\<close>

definition read_limited :: "nat \<Rightarrow> 'a reader \<Rightarrow> 'a reader" where
  "read_limited n d bs = and_then (d (take n bs)) (\<lambda>(x, r). Ok (x, r @ drop n bs))"

lemma limited_codec:
  assumes "zcash_codec s d v"
  shows "zcash_codec s (read_limited n d) (\<lambda>x. v x \<and> (\<exists>b. s x = Ok b \<and> length b \<le> n))"
proof
  note c = zcash_codec.ser_Ok[OF assms] zcash_codec.de_ser[OF assms]
    zcash_codec.de_canonical[OF assms] zcash_codec.de_no_panic[OF assms]
  {
    fix x assume "v x \<and> (\<exists>b. s x = Ok b \<and> length b \<le> n)"
    then show "\<exists>b. s x = Ok b" by blast
  next
    fix x b rest assume v: "v x \<and> (\<exists>b. s x = Ok b \<and> length b \<le> n)" "s x = Ok b"
    then have "take n (b @ rest) = b @ take (n - length b) rest" "drop n (b @ rest) = drop (n - length b) rest"
      by auto
    with v c(2)[of x b "take (n - length b) rest"] show "read_limited n d (b @ rest) = Ok (x, rest)"
      by (simp add: read_limited_def)
  next
    fix bs x rest assume "read_limited n d bs = Ok (x, rest)"
    then obtain r where r: "d (take n bs) = Ok (x, r)" "rest = r @ drop n bs"
      by (auto simp: read_limited_def rust_simps)
    from c(3)[OF r(1)] obtain b where b: "v x" "s x = Ok b" "take n bs = b @ r" by blast
    have "bs = (b @ r) @ drop n bs" using b(3) append_take_drop_id[of n bs] by simp
    moreover have "length b \<le> n" using arg_cong[OF b(3), of length] by simp
    ultimately show "(v x \<and> (\<exists>b. s x = Ok b \<and> length b \<le> n)) \<and> (\<exists>b. s x = Ok b \<and> bs = b @ rest)"
      using b r(2) by auto
  next
    fix bs show "read_limited n d bs \<noteq> Panic"
      using c(4) by (auto simp: read_limited_def rust_simps)
  }
qed

subsection \<open>Readers with the same results\<close>

text \<open>Two outcomes that agree in success and in the value; they may fail differently.\<close>

definition agree :: "('a, 'e) outcome \<Rightarrow> ('a, 'e) outcome \<Rightarrow> bool" where
  "agree r r' \<longleftrightarrow> (\<forall>x. r = Ok x \<longleftrightarrow> r' = Ok x)"

named_theorems agree_intros

lemma agree_refl [agree_intros]: "agree r r"
  by (simp add: agree_def)

lemma agree_and_then [agree_intros]:
  "agree r r' \<Longrightarrow> (\<And>x. agree (f x) (f' x)) \<Longrightarrow> agree (and_then r f) (and_then r' f')"
  by (auto simp: agree_def and_then_Ok_iff)

lemma agree_map_err [agree_intros]: "agree r r' \<Longrightarrow> agree (map_err g r) (map_err g r')"
  by (auto simp: agree_def rust_simps)

lemma agree_prod [agree_intros]:
  "(\<And>a b. agree (f a b) (f' a b)) \<Longrightarrow> agree (case p of (a, b) \<Rightarrow> f a b) (case p of (a, b) \<Rightarrow> f' a b)"
  by (cases p) simp

lemma agree_if [agree_intros]:
  "agree r r' \<Longrightarrow> agree s s' \<Longrightarrow> agree (if b then r else s) (if b then r' else s')"
  by simp

lemma agree_items [agree_intros]:
  "(\<And>bs. agree (d bs) (d' bs)) \<Longrightarrow> agree (read_items d n bs) (read_items d' n bs)"
  by (induction n arbitrary: bs) (auto intro!: agree_intros)

lemma agree_external_count [agree_intros]:
  "(\<And>bs. agree (d bs) (d' bs)) \<Longrightarrow>
   agree (zcash_deserialize_external_count m d n bs) (zcash_deserialize_external_count m d' n bs)"
  unfolding zcash_deserialize_external_count_def by (intro agree_intros)

lemma agree_vec [agree_intros]:
  "(\<And>bs. agree (d bs) (d' bs)) \<Longrightarrow> agree (vec_deserialize m d bs) (vec_deserialize m d' bs)"
  unfolding vec_deserialize_def by (intro agree_intros)

lemma agree_limited [agree_intros]:
  "(\<And>bs. agree (d bs) (d' bs)) \<Longrightarrow> agree (read_limited n d bs) (read_limited n d' bs)"
  unfolding read_limited_def by (intro agree_intros)

text \<open>What a codec has from a codec whose reader agrees with its own.\<close>

lemma agreeing_codec:
  assumes "zcash_codec s d' v" "\<And>bs. agree (d' bs) (d bs)"
  shows "v x \<Longrightarrow> \<exists>b. s x = Ok b" "v x \<Longrightarrow> s x = Ok b \<Longrightarrow> d (b @ rest) = Ok (x, rest)"
    "d bs = Ok (x, rest) \<Longrightarrow> v x \<and> (\<exists>b. s x = Ok b \<and> bs = b @ rest)"
  using zcash_codec.ser_Ok[OF assms(1)] zcash_codec.de_ser[OF assms(1)] zcash_codec.de_canonical[OF assms(1)]
    assms(2) unfolding agree_def by blast+

end
