(* ===== verification/Shielded_Codec.thy ===== *)
theory Shielded_Codec
  imports Codecs Transaction
begin

section \<open>Encodings of the shielded parts of transactions\<close>

text \<open>
  JoinSplits, Sapling spends and outputs and Orchard actions as bytes, alone and in the bundles of
  the transaction versions. Field elements and curve points are read with the checks of third-party
  crates, the record \<open>crypto_lib\<close>; the accepted encodings of those crates are canonical, so a value
  is represented by the bytes it was read from. The source unwraps the curve point of a key that
  \<open>redjubjub\<close> accepted; the locale \<open>redjubjub_keys\<close> has what it relies on there.
\<close>

unbundle bit_operations_syntax

record crypto_lib =
  jubjub_base_ok :: "bytes \<Rightarrow> bool"
  redjubjub_key_ok :: "bytes \<Rightarrow> bool"
  jubjub_small_order :: "bytes \<Rightarrow> bool option"
  pallas_base_ok :: "bytes \<Rightarrow> bool"
  pallas_point_ok :: "bytes \<Rightarrow> bool"
  pallas_identity :: "bytes \<Rightarrow> bool"

text \<open>
  \<open>jubjub_small_order\<close> is \<open>AffinePoint::from_bytes\<close> followed by \<open>is_small_order\<close>, \<open>None\<close> for bytes that are
  not a point. A \<open>redjubjub::VerificationKey\<close> is documented to be the encoding of a point.
\<close>

locale redjubjub_keys =
  fixes C :: crypto_lib
  assumes key_is_point: "redjubjub_key_ok C b \<Longrightarrow> jubjub_small_order C b \<noteq> None"

subsection \<open>JoinSplits (sprout/joinsplit.rs, transaction/serialize.rs)\<close>

definition joinsplit_serialize :: "joinsplit writer" where
  "joinsplit_serialize j =
     and_then (non_negative_serialize (vpub_old j)) (\<lambda>old.
     and_then (non_negative_serialize (vpub_new j)) (\<lambda>new.
       Ok (old @ new @ js_anchor j @ fst (js_nullifiers j) @ snd (js_nullifiers j) @
           fst (js_commitments j) @ snd (js_commitments j) @ js_ephemeral_key j @ js_random_seed j @
           fst (js_vmacs j) @ snd (js_vmacs j) @ js_zkproof j @
           fst (js_enc_ciphertexts j) @ snd (js_enc_ciphertexts j))))"

text \<open>The proof is 296 bytes (BCTV14) before version 4 and 192 bytes (Groth16) in version 4.\<close>

definition BCTV14_PROOF_SIZE :: nat where "BCTV14_PROOF_SIZE = 296"
definition GROTH16_PROOF_SIZE :: nat where "GROTH16_PROOF_SIZE = 192"

definition joinsplit_deserialize :: "nat \<Rightarrow> joinsplit reader" where
  "joinsplit_deserialize proof_size bs =
     and_then (non_negative_deserialize bs) (\<lambda>(old, bs).
     and_then (non_negative_deserialize bs) (\<lambda>(new, bs).
     and_then (read_exact 32 bs) (\<lambda>(anchor, bs).
     and_then (read_exact 32 bs) (\<lambda>(n0, bs).
     and_then (read_exact 32 bs) (\<lambda>(n1, bs).
     and_then (read_exact 32 bs) (\<lambda>(c0, bs).
     and_then (read_exact 32 bs) (\<lambda>(c1, bs).
     and_then (read_exact 32 bs) (\<lambda>(epk, bs).
     and_then (read_exact 32 bs) (\<lambda>(seed, bs).
     and_then (read_exact 32 bs) (\<lambda>(m0, bs).
     and_then (read_exact 32 bs) (\<lambda>(m1, bs).
     and_then (read_exact proof_size bs) (\<lambda>(zkproof, bs).
     and_then (read_exact 601 bs) (\<lambda>(e0, bs).
     and_then (read_exact 601 bs) (\<lambda>(e1, bs).
       Ok (\<lparr>vpub_old = old, vpub_new = new, js_anchor = anchor, js_nullifiers = (n0, n1),
            js_commitments = (c0, c1), js_ephemeral_key = epk, js_random_seed = seed,
            js_vmacs = (m0, m1), js_zkproof = zkproof, js_enc_ciphertexts = (e0, e1)\<rparr>, bs)))))))))))))))"

definition JOINSPLIT_SIZE_WITHOUT_ZKPROOF :: nat where
  "JOINSPLIT_SIZE_WITHOUT_ZKPROOF = 8 + 8 + 32 + (32 * 2) + (32 * 2) + 32 + 32 + (32 * 2) + (601 * 2)"

definition joinsplit_max_allocation :: "nat \<Rightarrow> nat" where
  "joinsplit_max_allocation proof_size =
     (MAX_BLOCK_BYTES - 1) div (JOINSPLIT_SIZE_WITHOUT_ZKPROOF + proof_size)"

definition joinsplit_data_serialize :: "joinsplit_bundle option writer" where
  "joinsplit_data_serialize d =
     (case d of
        None \<Rightarrow> zcash_serialize_empty_list
      | Some d \<Rightarrow> and_then (vec_serialize joinsplit_serialize (joinsplits d)) (\<lambda>b.
          Ok (b @ jsd_pub_key d @ jsd_sig d)))"

definition joinsplit_data_deserialize :: "nat \<Rightarrow> joinsplit_bundle option reader" where
  "joinsplit_data_deserialize proof_size bs =
     and_then (vec_deserialize (joinsplit_max_allocation proof_size) (joinsplit_deserialize proof_size) bs)
       (\<lambda>(js, bs).
         case js of
           [] \<Rightarrow> Ok (None, bs)
         | first # rest \<Rightarrow>
             and_then (read_exact 32 bs) (\<lambda>(pub_key, bs).
             and_then (read_exact 64 bs) (\<lambda>(sig, bs).
               Ok (Some \<lparr>jsd_first = first, jsd_rest = rest, jsd_pub_key = pub_key, jsd_sig = sig\<rparr>, bs))))"

definition valid_joinsplit :: "nat \<Rightarrow> joinsplit \<Rightarrow> bool" where
  "valid_joinsplit proof_size j \<longleftrightarrow>
     contains (valid_range NonNegative) (vpub_old j) \<and> contains (valid_range NonNegative) (vpub_new j) \<and>
     length (js_anchor j) = 32 \<and> length (fst (js_nullifiers j)) = 32 \<and> length (snd (js_nullifiers j)) = 32 \<and>
     length (fst (js_commitments j)) = 32 \<and> length (snd (js_commitments j)) = 32 \<and>
     length (js_ephemeral_key j) = 32 \<and> length (js_random_seed j) = 32 \<and>
     length (fst (js_vmacs j)) = 32 \<and> length (snd (js_vmacs j)) = 32 \<and> length (js_zkproof j) = proof_size \<and>
     length (fst (js_enc_ciphertexts j)) = 601 \<and> length (snd (js_enc_ciphertexts j)) = 601"

lemma joinsplit_codec: "zcash_codec joinsplit_serialize (joinsplit_deserialize n) (valid_joinsplit n)"
  by (rule codec_record[where
        f = "\<lambda>j. (vpub_old j, vpub_new j, js_anchor j, fst (js_nullifiers j), snd (js_nullifiers j),
           fst (js_commitments j), snd (js_commitments j), js_ephemeral_key j, js_random_seed j,
           fst (js_vmacs j), snd (js_vmacs j), js_zkproof j, fst (js_enc_ciphertexts j), snd (js_enc_ciphertexts j))"
        and g = "\<lambda>(old, new, anchor, n0, n1, c0, c1, epk, seed, m0, m1, zkproof, e0, e1).
           \<lparr>vpub_old = old, vpub_new = new, js_anchor = anchor, js_nullifiers = (n0, n1),
            js_commitments = (c0, c1), js_ephemeral_key = epk, js_random_seed = seed,
            js_vmacs = (m0, m1), js_zkproof = zkproof, js_enc_ciphertexts = (e0, e1)\<rparr>",
      OF pair_codec[OF nn.zcash_codec_axioms pair_codec[OF nn.zcash_codec_axioms pair_codec[OF array_codec
         pair_codec[OF array_codec pair_codec[OF array_codec pair_codec[OF array_codec pair_codec[OF array_codec
         pair_codec[OF array_codec pair_codec[OF array_codec pair_codec[OF array_codec pair_codec[OF array_codec
         pair_codec[OF array_codec pair_codec[OF array_codec array_codec]]]]]]]]]]]]]])
    (simp_all add: joinsplit_serialize_def joinsplit_deserialize_def pair_serialize_def
      pair_deserialize_def and_then_assoc split_def valid_joinsplit_def)

definition valid_joinsplit_data :: "nat \<Rightarrow> joinsplit_bundle option \<Rightarrow> bool" where
  "valid_joinsplit_data proof_size d \<longleftrightarrow>
     (case d of None \<Rightarrow> True
      | Some d \<Rightarrow> length (joinsplits d) \<le> joinsplit_max_allocation proof_size \<and>
          (\<forall>j \<in> set (joinsplits d). valid_joinsplit proof_size j) \<and>
          length (jsd_pub_key d) = 32 \<and> length (jsd_sig d) = 64)"

lemma max_allocation_small:
  "n \<le> (MAX_BLOCK_BYTES - 1) div k \<Longrightarrow> n \<le> MAX_PROTOCOL_MESSAGE_LEN"
  using div_le_dividend[of "MAX_BLOCK_BYTES - 1" k] unfolding MAX_BLOCK_BYTES_def alloc_defs by linarith

lemma joinsplit_data_codec:
  "zcash_codec joinsplit_data_serialize (joinsplit_data_deserialize n) (valid_joinsplit_data n)"
proof -
  note base = dep_when_codec[where present = "\<lambda>js. js \<noteq> []",
      OF vector_codec[OF joinsplit_codec[of n], of "joinsplit_max_allocation n"]
        pair_codec[OF array_codec[of 32] array_codec[of 64]]]
  let ?g = "\<lambda>(js, t). case js of [] \<Rightarrow> None
    | j # r \<Rightarrow> Some \<lparr>jsd_first = j, jsd_rest = r, jsd_pub_key = fst (the t), jsd_sig = snd (the t)\<rparr>"
  show ?thesis
  proof (rule codec_iso[OF base, where g = ?g and h = "\<lambda>y r. Ok (?g y, r)"
          and f = "\<lambda>d. case d of None \<Rightarrow> ([], None)
            | Some d \<Rightarrow> (joinsplits d, Some (jsd_pub_key d, jsd_sig d))"], goal_cases)
    case (4 bs)
    show ?case
      by (auto simp: joinsplit_data_deserialize_def codec_defs and_then_assoc split: list.splits
          intro!: and_then_cong)
  qed (auto simp: valid_joinsplit_data_def joinsplits_def joinsplit_max_allocation_def
      joinsplit_data_serialize_def codec_defs split: option.splits list.splits intro: max_allocation_small)
qed

subsection \<open>Sapling (sapling/spend.rs, sapling/output.rs)\<close>

definition sapling_root_problem :: "crypto_lib \<Rightarrow> bytes \<Rightarrow> string option" where
  "sapling_root_problem C b =
     (if jubjub_base_ok C b then None
      else Some ''Invalid jubjub::Base value for Sapling note commitment tree root'')"

definition cm_u_problem :: "crypto_lib \<Rightarrow> bytes \<Rightarrow> string option" where
  "cm_u_problem C b = (if jubjub_base_ok C b then None else Some ''invalid ExtractedNoteCommitment bytes'')"

definition validating_key_try_from :: "crypto_lib \<Rightarrow> bytes \<Rightarrow> (bytes, string) outcome" where
  "validating_key_try_from C b =
     (if \<not> redjubjub_key_ok C b then Err ''Invalid redjubjub::ValidatingKey for Sapling ValidatingKey''
      else and_then (expect (jubjub_small_order C b)) (\<lambda>small_order.
        if small_order then Err ''jubjub::AffinePoint value for Sapling ValidatingKey is of small order''
        else Ok b))"

definition read_validating_key :: "crypto_lib \<Rightarrow> bytes reader" where
  "read_validating_key C bs =
     and_then (read_exact 32 bs) (\<lambda>(b, bs).
     and_then (map_err Parse (validating_key_try_from C b)) (\<lambda>rk. Ok (rk, bs)))"

definition spend_v4_serialize :: "tree_root spend writer" where
  "spend_v4_serialize s =
     Ok (sp_cv s @ sp_anchor s @ sp_nullifier s @ sp_rk s @ sp_zkproof s @ sp_spend_auth_sig s)"

definition spend_v4_deserialize :: "crypto_lib \<Rightarrow> tree_root spend reader" where
  "spend_v4_deserialize C bs =
     and_then (read_exact 32 bs) (\<lambda>(cv, bs).
     and_then (read_checked 32 (sapling_root_problem C) bs) (\<lambda>(anchor, bs).
     and_then (read_exact 32 bs) (\<lambda>(nullifier, bs).
     and_then (read_validating_key C bs) (\<lambda>(rk, bs).
     and_then (read_exact GROTH16_PROOF_SIZE bs) (\<lambda>(zkproof, bs).
     and_then (read_exact 64 bs) (\<lambda>(sig, bs).
       Ok (\<lparr>sp_cv = cv, sp_anchor = anchor, sp_nullifier = nullifier, sp_rk = rk,
            sp_zkproof = zkproof, sp_spend_auth_sig = sig\<rparr>, bs)))))))"

definition output_v4_serialize :: "sapling_output writer" where
  "output_v4_serialize out =
     Ok (so_cv out @ so_cm_u out @ so_ephemeral_key out @ so_enc_ciphertext out @
         so_out_ciphertext out @ so_zkproof out)"

definition output_v4_deserialize :: "crypto_lib \<Rightarrow> sapling_output reader" where
  "output_v4_deserialize C bs =
     and_then (read_exact 32 bs) (\<lambda>(cv, bs).
     and_then (read_checked 32 (cm_u_problem C) bs) (\<lambda>(cm_u, bs).
     and_then (read_exact 32 bs) (\<lambda>(epk, bs).
     and_then (read_exact 580 bs) (\<lambda>(enc, bs).
     and_then (read_exact 80 bs) (\<lambda>(outc, bs).
     and_then (read_exact GROTH16_PROOF_SIZE bs) (\<lambda>(zkproof, bs).
       Ok (\<lparr>so_cv = cv, so_cm_u = cm_u, so_ephemeral_key = epk, so_enc_ciphertext = enc,
            so_out_ciphertext = outc, so_zkproof = zkproof\<rparr>, bs)))))))"

text \<open>From version 5 on, spends and outputs are split: the proofs and signatures have their own arrays.\<close>

record spend_prefix =
  px_cv :: bytes
  px_nullifier :: bytes
  px_rk :: bytes

record output_prefix =
  qx_cv :: bytes
  qx_cm_u :: bytes
  qx_ephemeral_key :: bytes
  qx_enc_ciphertext :: bytes
  qx_out_ciphertext :: bytes

definition spend_from_v5_parts :: "spend_prefix \<Rightarrow> bytes \<Rightarrow> bytes \<Rightarrow> unit spend" where
  "spend_from_v5_parts p zkproof sig =
     \<lparr>sp_cv = px_cv p, sp_anchor = (), sp_nullifier = px_nullifier p, sp_rk = px_rk p,
      sp_zkproof = zkproof, sp_spend_auth_sig = sig\<rparr>"

definition spend_into_v5_parts :: "unit spend \<Rightarrow> spend_prefix \<times> bytes \<times> bytes" where
  "spend_into_v5_parts s =
     (\<lparr>px_cv = sp_cv s, px_nullifier = sp_nullifier s, px_rk = sp_rk s\<rparr>, sp_zkproof s, sp_spend_auth_sig s)"

definition output_from_v5_parts :: "output_prefix \<Rightarrow> bytes \<Rightarrow> sapling_output" where
  "output_from_v5_parts p zkproof =
     \<lparr>so_cv = qx_cv p, so_cm_u = qx_cm_u p, so_ephemeral_key = qx_ephemeral_key p,
      so_enc_ciphertext = qx_enc_ciphertext p, so_out_ciphertext = qx_out_ciphertext p, so_zkproof = zkproof\<rparr>"

definition output_into_v5_parts :: "sapling_output \<Rightarrow> output_prefix \<times> bytes" where
  "output_into_v5_parts out =
     (\<lparr>qx_cv = so_cv out, qx_cm_u = so_cm_u out, qx_ephemeral_key = so_ephemeral_key out,
       qx_enc_ciphertext = so_enc_ciphertext out, qx_out_ciphertext = so_out_ciphertext out\<rparr>, so_zkproof out)"

definition spend_prefix_serialize :: "spend_prefix writer" where
  "spend_prefix_serialize p = Ok (px_cv p @ px_nullifier p @ px_rk p)"

definition spend_prefix_deserialize :: "crypto_lib \<Rightarrow> spend_prefix reader" where
  "spend_prefix_deserialize C bs =
     and_then (read_exact 32 bs) (\<lambda>(cv, bs).
     and_then (read_exact 32 bs) (\<lambda>(nullifier, bs).
     and_then (read_validating_key C bs) (\<lambda>(rk, bs).
       Ok (\<lparr>px_cv = cv, px_nullifier = nullifier, px_rk = rk\<rparr>, bs))))"

definition output_prefix_serialize :: "output_prefix writer" where
  "output_prefix_serialize p =
     Ok (qx_cv p @ qx_cm_u p @ qx_ephemeral_key p @ qx_enc_ciphertext p @ qx_out_ciphertext p)"

definition output_prefix_deserialize :: "crypto_lib \<Rightarrow> output_prefix reader" where
  "output_prefix_deserialize C bs =
     and_then (read_exact 32 bs) (\<lambda>(cv, bs).
     and_then (read_checked 32 (cm_u_problem C) bs) (\<lambda>(cm_u, bs).
     and_then (read_exact 32 bs) (\<lambda>(epk, bs).
     and_then (read_exact 580 bs) (\<lambda>(enc, bs).
     and_then (read_exact 80 bs) (\<lambda>(outc, bs).
       Ok (\<lparr>qx_cv = cv, qx_cm_u = cm_u, qx_ephemeral_key = epk, qx_enc_ciphertext = enc,
            qx_out_ciphertext = outc\<rparr>, bs))))))"

definition SHARED_ANCHOR_SPEND_SIZE :: nat where
  "SHARED_ANCHOR_SPEND_SIZE = 32 + 32 + 32 + 192 + 64"

definition spend_v4_max_allocation :: nat where
  "spend_v4_max_allocation = (MAX_BLOCK_BYTES - 1) div (SHARED_ANCHOR_SPEND_SIZE + 32)"

definition spend_prefix_max_allocation :: nat where
  "spend_prefix_max_allocation = (MAX_BLOCK_BYTES - 1) div SHARED_ANCHOR_SPEND_SIZE"

definition OUTPUT_SIZE :: nat where
  "OUTPUT_SIZE = 32 + 32 + 32 + 580 + 80 + 192"

definition sapling_output_max_allocation :: nat where
  "sapling_output_max_allocation = (MAX_BLOCK_BYTES - 1) div OUTPUT_SIZE"

definition groth16_max_allocation :: nat where
  "groth16_max_allocation = max spend_prefix_max_allocation sapling_output_max_allocation"

definition valid_spend_v4 :: "crypto_lib \<Rightarrow> tree_root spend \<Rightarrow> bool" where
  "valid_spend_v4 C s \<longleftrightarrow>
     length (sp_cv s) = 32 \<and> (length (sp_anchor s) = 32 \<and> sapling_root_problem C (sp_anchor s) = None) \<and>
     length (sp_nullifier s) = 32 \<and> (length (sp_rk s) = 32 \<and> validating_key_try_from C (sp_rk s) = Ok (sp_rk s)) \<and>
     length (sp_zkproof s) = GROTH16_PROOF_SIZE \<and> length (sp_spend_auth_sig s) = 64"

definition valid_sapling_output :: "crypto_lib \<Rightarrow> sapling_output \<Rightarrow> bool" where
  "valid_sapling_output C out \<longleftrightarrow>
     length (so_cv out) = 32 \<and> (length (so_cm_u out) = 32 \<and> cm_u_problem C (so_cm_u out) = None) \<and>
     length (so_ephemeral_key out) = 32 \<and> length (so_enc_ciphertext out) = 580 \<and>
     length (so_out_ciphertext out) = 80 \<and> length (so_zkproof out) = GROTH16_PROOF_SIZE"

definition valid_spend_prefix :: "crypto_lib \<Rightarrow> spend_prefix \<Rightarrow> bool" where
  "valid_spend_prefix C p \<longleftrightarrow>
     length (px_cv p) = 32 \<and> length (px_nullifier p) = 32 \<and>
     length (px_rk p) = 32 \<and> validating_key_try_from C (px_rk p) = Ok (px_rk p)"

definition valid_output_prefix :: "crypto_lib \<Rightarrow> output_prefix \<Rightarrow> bool" where
  "valid_output_prefix C p \<longleftrightarrow>
     length (qx_cv p) = 32 \<and> (length (qx_cm_u p) = 32 \<and> cm_u_problem C (qx_cm_u p) = None) \<and>
     length (qx_ephemeral_key p) = 32 \<and> length (qx_enc_ciphertext p) = 580 \<and> length (qx_out_ciphertext p) = 80"

lemma output_v4_codec: "zcash_codec output_v4_serialize (output_v4_deserialize C) (valid_sapling_output C)"
  by (rule codec_record[where f = "\<lambda>s. (so_cv s, so_cm_u s, so_ephemeral_key s, so_enc_ciphertext s,
          so_out_ciphertext s, so_zkproof s)"
        and g = "\<lambda>(cv, cm_u, epk, enc, outc, zkproof). \<lparr>so_cv = cv, so_cm_u = cm_u, so_ephemeral_key = epk,
          so_enc_ciphertext = enc, so_out_ciphertext = outc, so_zkproof = zkproof\<rparr>",
      OF pair_codec[OF array_codec pair_codec[OF checked_codec pair_codec[OF array_codec pair_codec[OF array_codec
         pair_codec[OF array_codec array_codec]]]]]])
    (simp_all add: output_v4_serialize_def output_v4_deserialize_def codec_defs and_then_assoc split_def valid_sapling_output_def)

lemma output_prefix_codec: "zcash_codec output_prefix_serialize (output_prefix_deserialize C) (valid_output_prefix C)"
  by (rule codec_record[where f = "\<lambda>s. (qx_cv s, qx_cm_u s, qx_ephemeral_key s, qx_enc_ciphertext s, qx_out_ciphertext s)"
        and g = "\<lambda>(cv, cm_u, epk, enc, outc). \<lparr>qx_cv = cv, qx_cm_u = cm_u, qx_ephemeral_key = epk,
          qx_enc_ciphertext = enc, qx_out_ciphertext = outc\<rparr>",
      OF pair_codec[OF array_codec pair_codec[OF checked_codec pair_codec[OF array_codec pair_codec[OF array_codec array_codec]]]]])
    (simp_all add: output_prefix_serialize_def output_prefix_deserialize_def codec_defs and_then_assoc split_def valid_output_prefix_def)

context redjubjub_keys
begin

lemma validating_key_Ok:
  "validating_key_try_from C b \<noteq> Panic" "validating_key_try_from C b = Ok k \<Longrightarrow> k = b"
  using key_is_point[of b] by (auto simp: validating_key_try_from_def rust_simps split: if_splits)

lemma validating_key_codec:
  "zcash_codec Ok (read_validating_key C) (\<lambda>b. length b = 32 \<and> validating_key_try_from C b = Ok b)"
proof
  show "read_validating_key C bs \<noteq> Panic" for bs
    using validating_key_Ok(1) by (auto simp: read_validating_key_def rust_simps)
  fix bs x rest assume "read_validating_key C bs = Ok (x, rest)"
  then obtain b where "read_exact 32 bs = (Ok (b, rest) :: _)" "validating_key_try_from C b = Ok x"
    by (auto simp: read_validating_key_def rust_simps)
  with validating_key_Ok(2)[OF this(2)]
  show "(length x = 32 \<and> validating_key_try_from C x = Ok x) \<and> (\<exists>b. Ok x = Ok b \<and> bs = b @ rest)"
    by (auto simp: rust_simps)
qed (auto simp: read_validating_key_def rust_simps)

lemma spend_v4_codec: "zcash_codec spend_v4_serialize (spend_v4_deserialize C) (valid_spend_v4 C)"
  by (rule codec_record[where f = "\<lambda>s. (sp_cv s, sp_anchor s, sp_nullifier s, sp_rk s, sp_zkproof s, sp_spend_auth_sig s)"
        and g = "\<lambda>(cv, anchor, nullifier, rk, zkproof, sig). \<lparr>sp_cv = cv, sp_anchor = anchor,
          sp_nullifier = nullifier, sp_rk = rk, sp_zkproof = zkproof, sp_spend_auth_sig = sig\<rparr>",
      OF pair_codec[OF array_codec pair_codec[OF checked_codec pair_codec[OF array_codec pair_codec[OF validating_key_codec
         pair_codec[OF array_codec array_codec]]]]]])
    (simp_all add: spend_v4_serialize_def spend_v4_deserialize_def codec_defs and_then_assoc split_def valid_spend_v4_def)

lemma spend_prefix_codec: "zcash_codec spend_prefix_serialize (spend_prefix_deserialize C) (valid_spend_prefix C)"
  by (rule codec_record[where f = "\<lambda>p. (px_cv p, px_nullifier p, px_rk p)"
        and g = "\<lambda>(cv, nullifier, rk). \<lparr>px_cv = cv, px_nullifier = nullifier, px_rk = rk\<rparr>",
      OF pair_codec[OF array_codec pair_codec[OF array_codec validating_key_codec]]])
    (simp_all add: spend_prefix_serialize_def spend_prefix_deserialize_def codec_defs and_then_assoc split_def valid_spend_prefix_def)

end

subsection \<open>Sapling bundles from version 5 on (transaction/serialize.rs)\<close>

definition sapling_v5_serialize :: "sapling_v5 option writer" where
  "sapling_v5_serialize d =
     (case d of
        None \<Rightarrow> and_then zcash_serialize_empty_list (\<lambda>a. and_then zcash_serialize_empty_list (\<lambda>b. Ok (a @ b)))
      | Some d \<Rightarrow>
          let spends = map spend_into_v5_parts (td_spends (sd_transfers d));
              outputs = map output_into_v5_parts (td_outputs (sd_transfers d)) in
          and_then (vec_serialize spend_prefix_serialize (map fst spends)) (\<lambda>prefixes.
          and_then (vec_serialize output_prefix_serialize (map fst outputs)) (\<lambda>output_prefixes.
          and_then (negative_allowed_serialize (sd_value_balance d)) (\<lambda>value_balance.
          let anchor = (case td_shared_anchor (sd_transfers d) of Some a \<Rightarrow> a | None \<Rightarrow> []) in
          and_then (zcash_serialize_external_count Ok (map (fst \<circ> snd) spends)) (\<lambda>proofs.
          and_then (zcash_serialize_external_count Ok (map (snd \<circ> snd) spends)) (\<lambda>sigs.
          and_then (zcash_serialize_external_count Ok (map snd outputs)) (\<lambda>output_proofs.
            Ok (prefixes @ output_prefixes @ value_balance @ anchor @ proofs @ sigs @ output_proofs @
                sd_binding_sig d))))))))"

definition deserialize_v5_sapling_shielded_data :: "crypto_lib \<Rightarrow> bool \<Rightarrow> sapling_v5 option reader" where
  "deserialize_v5_sapling_shielded_data C coinbase bs =
     and_then (compact_size_message_deserialize bs) (\<lambda>(spend_count, bs).
     if coinbase \<and> spend_count > 0 then Err (Parse ''coinbase transaction must not have Sapling spends'')
     else
     and_then (zcash_deserialize_external_count spend_prefix_max_allocation (spend_prefix_deserialize C) spend_count bs)
       (\<lambda>(spend_prefixes, bs).
     and_then (vec_deserialize sapling_output_max_allocation (output_prefix_deserialize C) bs) (\<lambda>(output_prefixes, bs).
     let spends_count = length spend_prefixes; outputs_count = length output_prefixes in
     if spend_prefixes = [] \<and> output_prefixes = [] then Ok (None, bs)
     else
     and_then (negative_allowed_deserialize bs) (\<lambda>(value_balance, bs).
     and_then (if spends_count > 0
               then and_then (read_checked 32 (sapling_root_problem C) bs) (\<lambda>(a, bs). Ok (Some a, bs))
               else Ok (None, bs)) (\<lambda>(shared_anchor, bs).
     and_then (zcash_deserialize_external_count groth16_max_allocation (read_exact GROTH16_PROOF_SIZE) spends_count bs)
       (\<lambda>(spend_proofs, bs).
     and_then (zcash_deserialize_external_count spend_prefix_max_allocation (read_exact 64) spends_count bs)
       (\<lambda>(spend_sigs, bs).
     and_then (zcash_deserialize_external_count groth16_max_allocation (read_exact GROTH16_PROOF_SIZE) outputs_count bs)
       (\<lambda>(output_proofs, bs).
     and_then (read_exact 64 bs) (\<lambda>(binding_sig, bs).
     let spends = map (\<lambda>((prefix, zkproof), sig). spend_from_v5_parts prefix zkproof sig)
           (zip (zip spend_prefixes spend_proofs) spend_sigs);
         outputs = map (\<lambda>(prefix, zkproof). output_from_v5_parts prefix zkproof) (zip output_prefixes output_proofs) in
     case shared_anchor of
       Some a \<Rightarrow>
         if spends = [] then Panic
         else Ok (Some \<lparr>sd_value_balance = value_balance, sd_transfers = SpendsAndMaybeOutputs a spends outputs,
                        sd_binding_sig = binding_sig\<rparr>, bs)
     | None \<Rightarrow>
         if outputs = [] then Panic
         else Ok (Some \<lparr>sd_value_balance = value_balance, sd_transfers = JustOutputs outputs,
                        sd_binding_sig = binding_sig\<rparr>, bs))))))))))"

definition valid_spend_v5 :: "crypto_lib \<Rightarrow> unit spend \<Rightarrow> bool" where
  "valid_spend_v5 C s \<longleftrightarrow>
     valid_spend_prefix C (fst (spend_into_v5_parts s)) \<and> length (sp_zkproof s) = GROTH16_PROOF_SIZE \<and>
     length (sp_spend_auth_sig s) = 64"

definition valid_sapling_v5 :: "crypto_lib \<Rightarrow> bool \<Rightarrow> sapling_v5 option \<Rightarrow> bool" where
  "valid_sapling_v5 C coinbase d \<longleftrightarrow>
     (case d of None \<Rightarrow> True
      | Some d \<Rightarrow>
          contains (valid_range NegativeAllowed) (sd_value_balance d) \<and> length (sd_binding_sig d) = 64 \<and>
          length (td_spends (sd_transfers d)) \<le> spend_prefix_max_allocation \<and>
          length (td_outputs (sd_transfers d)) \<le> sapling_output_max_allocation \<and>
          (\<forall>s \<in> set (td_spends (sd_transfers d)). valid_spend_v5 C s) \<and>
          (\<forall>out \<in> set (td_outputs (sd_transfers d)). valid_sapling_output C out) \<and>
          (case sd_transfers d of
             SpendsAndMaybeOutputs a spends outs \<Rightarrow>
               \<not> coinbase \<and> spends \<noteq> [] \<and> length a = 32 \<and> sapling_root_problem C a = None
           | JustOutputs outs \<Rightarrow> outs \<noteq> []))"

text \<open>A vector that a coinbase transaction must leave empty.\<close>

lemma coinbase_free_codec:
  assumes "zcash_codec s d v"
  shows "zcash_codec (vec_serialize s)
    (\<lambda>bs. and_then (compact_size_message_deserialize bs) (\<lambda>(n, bs).
       if coinbase \<and> n > 0 then Err e else zcash_deserialize_external_count max_allocation d n bs))
    (\<lambda>xs. (length xs \<le> max_allocation \<and> length xs \<le> MAX_PROTOCOL_MESSAGE_LEN \<and> (\<forall>x \<in> set xs. v x)) \<and>
       (coinbase \<longrightarrow> xs = []))"
    (is "zcash_codec _ ?de _")
proof -
  note c = zcash_codec.ser_Ok[OF vector_codec[OF assms, of max_allocation]]
    zcash_codec.de_ser[OF vector_codec[OF assms, of max_allocation]]
    zcash_codec.de_canonical[OF vector_codec[OF assms, of max_allocation]]
    zcash_codec.de_no_panic[OF vector_codec[OF assms, of max_allocation]]
  have same: "?de bs = Ok (xs, rest) \<longleftrightarrow>
      vec_deserialize max_allocation d bs = Ok (xs, rest) \<and> (coinbase \<longrightarrow> xs = [])" for bs xs rest
  proof -
    have "length xs = n" if "zcash_deserialize_external_count max_allocation d n r = Ok (xs, rest)" for n r
      using that zcash_codec.items_canonical[OF assms, of n r xs rest]
      by (auto simp: zcash_deserialize_external_count_def split: if_splits)
    then show ?thesis by (fastforce simp: vec_deserialize_def rust_simps split: if_splits)
  qed
  have "?de bs \<noteq> Panic" for bs
    using c(4)[of bs] by (auto simp: vec_deserialize_def rust_simps split: if_splits)
  then show ?thesis
    by unfold_locales (use c same in \<open>auto dest!: c(3)\<close>)
qed

text \<open>The arrays after the prefixes, for \<open>n\<close> spends and \<open>m\<close> outputs.\<close>

type_synonym sapling_tail = "amount \<times> bytes option \<times> bytes list \<times> bytes list \<times> bytes list \<times> bytes"

definition sapling_tail_serialize :: "sapling_tail writer" where
  "sapling_tail_serialize =
     pair_serialize negative_allowed_serialize (pair_serialize (when_serialize Ok)
       (pair_serialize (zcash_serialize_external_count Ok) (pair_serialize (zcash_serialize_external_count Ok)
         (pair_serialize (zcash_serialize_external_count Ok) Ok))))"

definition sapling_tail_deserialize :: "crypto_lib \<Rightarrow> nat \<Rightarrow> nat \<Rightarrow> sapling_tail reader" where
  "sapling_tail_deserialize C n m =
     pair_deserialize negative_allowed_deserialize
       (pair_deserialize (when_deserialize (n > 0) (read_checked 32 (sapling_root_problem C)))
       (pair_deserialize (zcash_deserialize_external_count groth16_max_allocation (read_exact GROTH16_PROOF_SIZE) n)
       (pair_deserialize (zcash_deserialize_external_count spend_prefix_max_allocation (read_exact 64) n)
       (pair_deserialize (zcash_deserialize_external_count groth16_max_allocation (read_exact GROTH16_PROOF_SIZE) m)
         (read_exact 64)))))"

fun valid_sapling_tail :: "crypto_lib \<Rightarrow> nat \<Rightarrow> nat \<Rightarrow> sapling_tail \<Rightarrow> bool" where
  "valid_sapling_tail C n m (value_balance, anchor, proofs, sigs, output_proofs, sig) \<longleftrightarrow>
     contains (valid_range NegativeAllowed) value_balance \<and>
     when_valid (n > 0) (\<lambda>a. length a = 32 \<and> sapling_root_problem C a = None) anchor \<and>
     (length proofs = n \<and> n \<le> groth16_max_allocation \<and> (\<forall>p \<in> set proofs. length p = GROTH16_PROOF_SIZE)) \<and>
     (length sigs = n \<and> n \<le> spend_prefix_max_allocation \<and> (\<forall>s \<in> set sigs. length s = 64)) \<and>
     (length output_proofs = m \<and> m \<le> groth16_max_allocation \<and>
        (\<forall>p \<in> set output_proofs. length p = GROTH16_PROOF_SIZE)) \<and>
     length sig = 64"

lemma sapling_tail_codec:
  "zcash_codec sapling_tail_serialize (sapling_tail_deserialize C n m) (valid_sapling_tail C n m)"
proof -
  have v: "valid_sapling_tail C n m = (\<lambda>p. contains (valid_range NegativeAllowed) (fst p) \<and>
     when_valid (n > 0) (\<lambda>a. length a = 32 \<and> sapling_root_problem C a = None) (fst (snd p)) \<and>
     (length (fst (snd (snd p))) = n \<and> n \<le> groth16_max_allocation \<and>
        (\<forall>x \<in> set (fst (snd (snd p))). length x = GROTH16_PROOF_SIZE)) \<and>
     (length (fst (snd (snd (snd p)))) = n \<and> n \<le> spend_prefix_max_allocation \<and>
        (\<forall>x \<in> set (fst (snd (snd (snd p)))). length x = 64)) \<and>
     (length (fst (snd (snd (snd (snd p))))) = m \<and> m \<le> groth16_max_allocation \<and>
        (\<forall>x \<in> set (fst (snd (snd (snd (snd p))))). length x = GROTH16_PROOF_SIZE)) \<and>
     length (snd (snd (snd (snd (snd p))))) = 64)"
    by (simp add: fun_eq_iff)
  show ?thesis
    unfolding sapling_tail_serialize_def sapling_tail_deserialize_def v
    by (intro pair_codec na.zcash_codec_axioms when_codec checked_codec external_count_codec array_codec)
qed

abbreviation spend_parts :: "unit spend list \<Rightarrow> spend_prefix list \<times> bytes list \<times> bytes list" where
  "spend_parts ss \<equiv> (map (fst \<circ> spend_into_v5_parts) ss, map sp_zkproof ss, map sp_spend_auth_sig ss)"

lemma spend_parts_join:
  "map (\<lambda>((prefix, zkproof), sig). spend_from_v5_parts prefix zkproof sig)
     (zip (zip (map (fst \<circ> spend_into_v5_parts) ss) (map sp_zkproof ss)) (map sp_spend_auth_sig ss)) = ss"
  by (induction ss) (simp_all add: spend_from_v5_parts_def spend_into_v5_parts_def)

lemma spend_parts_split:
  assumes "length ps = n" "length zs = n" "length sigs = n"
  defines "ss \<equiv> map (\<lambda>((prefix, zkproof), sig). spend_from_v5_parts prefix zkproof sig) (zip (zip ps zs) sigs)"
  shows "map (fst \<circ> spend_into_v5_parts) ss = ps" "map sp_zkproof ss = zs" "map sp_spend_auth_sig ss = sigs"
    "length ss = n"
  using assms(1-3) unfolding ss_def
  by (auto intro!: nth_equalityI simp: spend_from_v5_parts_def spend_into_v5_parts_def)

lemma output_parts_join:
  "map (\<lambda>(prefix, zkproof). output_from_v5_parts prefix zkproof)
     (zip (map (fst \<circ> output_into_v5_parts) os) (map so_zkproof os)) = os"
  by (induction os) (simp_all add: output_from_v5_parts_def output_into_v5_parts_def)

lemma output_parts_split:
  assumes "length ps = n" "length zs = n"
  defines "os \<equiv> map (\<lambda>(prefix, zkproof). output_from_v5_parts prefix zkproof) (zip ps zs)"
  shows "map (fst \<circ> output_into_v5_parts) os = ps" "map so_zkproof os = zs" "length os = n"
  using assms(1,2) unfolding os_def
  by (auto intro!: nth_equalityI simp: output_from_v5_parts_def output_into_v5_parts_def)

context redjubjub_keys
begin

lemma sapling_v5_codec:
  "zcash_codec sapling_v5_serialize (deserialize_v5_sapling_shielded_data C coinbase) (valid_sapling_v5 C coinbase)"
proof -
  note head = pair_codec[OF coinbase_free_codec[OF spend_prefix_codec, of coinbase
        "Parse ''coinbase transaction must not have Sapling spends''" spend_prefix_max_allocation]
      vector_codec[OF output_prefix_codec[of C], of sapling_output_max_allocation]]
  note base = dep_when_codec[where part_ser = sapling_tail_serialize
      and present = "\<lambda>p. fst p \<noteq> [] \<or> snd p \<noteq> []"
      and part_de = "\<lambda>p. sapling_tail_deserialize C (length (fst p)) (length (snd p))"
      and part_ok = "\<lambda>p. valid_sapling_tail C (length (fst p)) (length (snd p))",
      OF head sapling_tail_codec]
  let ?f = "\<lambda>d. case d of None \<Rightarrow> (([], []), None)
    | Some d \<Rightarrow> let ss = td_spends (sd_transfers d); os = td_outputs (sd_transfers d) in
        ((map (fst \<circ> spend_into_v5_parts) ss, map (fst \<circ> output_into_v5_parts) os),
         Some (sd_value_balance d, td_shared_anchor (sd_transfers d), map sp_zkproof ss, map sp_spend_auth_sig ss,
               map so_zkproof os, sd_binding_sig d))"
  let ?ss = "\<lambda>ps zs sigs. map (\<lambda>((prefix, zkproof), sig). spend_from_v5_parts prefix zkproof sig) (zip (zip ps zs) sigs)"
  let ?os = "\<lambda>ps zs. map (\<lambda>(prefix, zkproof). output_from_v5_parts prefix zkproof) (zip ps zs)"
  let ?g = "\<lambda>((ps, qs), t). case t of None \<Rightarrow> None
    | Some (vb, a, zs, sigs, ozs, sig) \<Rightarrow> Some \<lparr>sd_value_balance = vb,
        sd_transfers = (case a of Some a \<Rightarrow> SpendsAndMaybeOutputs a (?ss ps zs sigs) (?os qs ozs)
          | None \<Rightarrow> JustOutputs (?os qs ozs)), sd_binding_sig = sig\<rparr>"
  let ?h = "\<lambda>((ps, qs), t) r. case t of None \<Rightarrow> Ok (None, r)
    | Some (vb, a, zs, sigs, ozs, sig) \<Rightarrow>
        if (case a of Some a \<Rightarrow> ?ss ps zs sigs = [] | None \<Rightarrow> ?os qs ozs = []) then Panic
        else Ok (?g ((ps, qs), t), r)"
  show ?thesis
  proof (rule codec_iso[OF base, where f = ?f and g = ?g and h = ?h], goal_cases)
    case (1 d)
    then show ?case
      using max_allocation_small[of _ SHARED_ANCHOR_SPEND_SIZE] max_allocation_small[of _ OUTPUT_SIZE]
      by (cases d; cases "sd_transfers (the d)")
        (auto simp: valid_sapling_v5_def when_valid_def Let_def spend_parts_join output_parts_join
          valid_spend_v5_def valid_sapling_output_def valid_output_prefix_def output_into_v5_parts_def
          groth16_max_allocation_def spend_prefix_max_allocation_def sapling_output_max_allocation_def)
  next
    case (2 y)
    obtain ps qs t where y: "y = ((ps, qs), t)" by (metis surj_pair)
    show ?case
    proof (cases t)
      case None
      then show ?thesis using 2 by (auto simp: y when_valid_def valid_sapling_v5_def)
    next
      case (Some u)
      obtain vb a zs sigs ozs sig where u: "u = (vb, a, zs, sigs, ozs, sig)" by (metis surj_pair)
      have l: "length zs = length ps" "length sigs = length ps" "length ozs = length qs"
        using 2 by (auto simp: y Some u when_valid_def)
      define ss where "ss = ?ss ps zs sigs"
      define os where "os = ?os qs ozs"
      have sp: "map (fst \<circ> spend_into_v5_parts) ss = ps" "map sp_zkproof ss = zs" "map sp_spend_auth_sig ss = sigs"
        using spend_parts_split[OF refl l(1,2)] by (simp_all add: ss_def)
      have op: "map (fst \<circ> output_into_v5_parts) os = qs" "map so_zkproof os = ozs"
        using output_parts_split[OF refl l(3)] by (simp_all add: os_def)
      have g: "?g y = Some \<lparr>sd_value_balance = vb, sd_transfers =
          (case a of Some a \<Rightarrow> SpendsAndMaybeOutputs a ss os | None \<Rightarrow> JustOutputs os), sd_binding_sig = sig\<rparr>"
        by (cases a) (simp_all add: y Some u ss_def os_def)
      show ?thesis
        using 2 unfolding g unfolding y Some u sp[symmetric] op[symmetric]
        by (cases a) (auto simp: when_valid_def valid_sapling_v5_def Let_def valid_spend_v5_def comp_def
            valid_sapling_output_def valid_output_prefix_def output_into_v5_parts_def)
    qed
  next
    case (3 d)
    then show ?case
      by (cases d; cases "sd_transfers (the d)")
        (auto simp: sapling_v5_serialize_def codec_defs sapling_tail_serialize_def Let_def comp_def
          spend_into_v5_parts_def output_into_v5_parts_def and_then_assoc valid_sapling_v5_def)
  next
    case (4 bs)
    show ?case
      unfolding deserialize_v5_sapling_shielded_data_def codec_defs sapling_tail_deserialize_def
      by (auto simp: and_then_assoc Let_def split: option.splits intro!: and_then_cong)
  next
    case (5 y r)
    obtain ps qs t where y: "y = ((ps, qs), t)" by (metis surj_pair)
    show ?case
    proof (cases t)
      case None
      then show ?thesis by (simp add: y)
    next
      case (Some u)
      obtain vb a zs sigs ozs sig where "u = (vb, a, zs, sigs, ozs, sig)" by (metis surj_pair)
      then show ?thesis using 5 unfolding y Some
        by (cases a) (auto simp: when_valid_def zip_eq_Nil_iff)
    qed
  qed
qed

end

subsection \<open>Orchard actions and bundles (orchard/action.rs, transaction/serialize.rs)\<close>

definition orchard_cv_problem :: "crypto_lib \<Rightarrow> bytes \<Rightarrow> string option" where
  "orchard_cv_problem C b = (if pallas_point_ok C b then None else Some ''Invalid pallas::Affine value'')"

definition orchard_nullifier_problem :: "crypto_lib \<Rightarrow> bytes \<Rightarrow> string option" where
  "orchard_nullifier_problem C b =
     (if pallas_base_ok C b then None else Some ''Invalid pallas::Base value for orchard Nullifier'')"

definition orchard_rk_problem :: "bytes \<Rightarrow> string option" where
  "orchard_rk_problem b =
     (if b = replicate 32 0 then Some ''Orchard action rk must not be the identity point'' else None)"

definition pallas_base_problem :: "crypto_lib \<Rightarrow> bytes \<Rightarrow> string option" where
  "pallas_base_problem C b = (if pallas_base_ok C b then None else Some ''Invalid pallas::Base, input not canonical'')"

definition orchard_epk_problem :: "crypto_lib \<Rightarrow> bytes \<Rightarrow> string option" where
  "orchard_epk_problem C b =
     (if \<not> pallas_point_ok C b then Some ''Invalid pallas::Affine value for Orchard EphemeralPublicKey''
      else if pallas_identity C b
      then Some ''pallas::Affine value for Orchard EphemeralPublicKey is the identity''
      else None)"

definition orchard_root_problem :: "crypto_lib \<Rightarrow> bytes \<Rightarrow> string option" where
  "orchard_root_problem C b =
     (if pallas_base_ok C b then None
      else Some ''Invalid pallas::Base value for Orchard note commitment tree root'')"

definition action_serialize :: "action writer" where
  "action_serialize a =
     Ok (ac_cv a @ ac_nullifier a @ ac_rk a @ ac_cm_x a @ ac_ephemeral_key a @ ac_enc_ciphertext a @
         ac_out_ciphertext a)"

definition action_deserialize :: "crypto_lib \<Rightarrow> action reader" where
  "action_deserialize C bs =
     and_then (read_checked 32 (orchard_cv_problem C) bs) (\<lambda>(cv, bs).
     and_then (read_checked 32 (orchard_nullifier_problem C) bs) (\<lambda>(nullifier, bs).
     and_then (read_checked 32 orchard_rk_problem bs) (\<lambda>(rk, bs).
     and_then (read_checked 32 (pallas_base_problem C) bs) (\<lambda>(cm_x, bs).
     and_then (read_checked 32 (orchard_epk_problem C) bs) (\<lambda>(epk, bs).
     and_then (read_exact 580 bs) (\<lambda>(enc, bs).
     and_then (read_exact 80 bs) (\<lambda>(outc, bs).
       Ok (\<lparr>ac_cv = cv, ac_nullifier = nullifier, ac_rk = rk, ac_cm_x = cm_x, ac_ephemeral_key = epk,
            ac_enc_ciphertext = enc, ac_out_ciphertext = outc\<rparr>, bs))))))))"

definition AUTHORIZED_ACTION_SIZE :: nat where
  "AUTHORIZED_ACTION_SIZE = 5 * 32 + 580 + 80 + 64"

definition action_max_allocation :: nat where
  "action_max_allocation = (MAX_BLOCK_BYTES - 1) div AUTHORIZED_ACTION_SIZE"

definition ORCHARD_SPEND_OUTPUT_FLAG_BITS :: flags where
  "ORCHARD_SPEND_OUTPUT_FLAG_BITS = 3"

text \<open>\<open>Flags::from_bits\<close> accepts the bytes without undefined flags; the three flags are defined.\<close>

definition flags_from_bits :: "u8 \<Rightarrow> flags option" where
  "flags_from_bits b = (if b AND (ENABLE_SPENDS OR ENABLE_OUTPUTS OR ENABLE_CROSS_ADDRESS) = b then Some b else None)"

definition serialize_orchard_flags :: "bool \<Rightarrow> flags writer" where
  "serialize_orchard_flags allow_cross_address_bit f =
     (let valid_bits = (if allow_cross_address_bit then ORCHARD_SPEND_OUTPUT_FLAG_BITS OR ENABLE_CROSS_ADDRESS
                        else ORCHARD_SPEND_OUTPUT_FLAG_BITS) in
      if f AND NOT valid_bits \<noteq> 0 then Err Io else Ok [f])"

definition deserialize_orchard_flags :: "bool \<Rightarrow> flags reader" where
  "deserialize_orchard_flags allow_cross_address_bit bs =
     and_then (read_exact 1 bs) (\<lambda>(b, bs).
       case (if allow_cross_address_bit
             then if hd b AND NOT (ORCHARD_SPEND_OUTPUT_FLAG_BITS OR ENABLE_CROSS_ADDRESS) = 0 then Some (hd b) else None
             else flags_from_bits (hd b)) of
         Some f \<Rightarrow> Ok (f, bs)
       | None \<Rightarrow> Err (Parse ''invalid reserved orchard flags''))"

definition serialize_orchard_shielded_data_with_flags :: "bool \<Rightarrow> orchard_data writer" where
  "serialize_orchard_shielded_data_with_flags allow d =
     and_then (vec_serialize action_serialize (map aa_action (od_actions d))) (\<lambda>actions.
     and_then (serialize_orchard_flags allow (od_flags d)) (\<lambda>flags.
     and_then (negative_allowed_serialize (od_value_balance d)) (\<lambda>value_balance.
     and_then (zcash_serialize_bytes (od_proof d)) (\<lambda>zkproof.
     and_then (zcash_serialize_external_count Ok (map aa_spend_auth_sig (od_actions d))) (\<lambda>sigs.
       Ok (actions @ flags @ value_balance @ od_shared_anchor d @ zkproof @ sigs @ od_binding_sig d))))))"

definition serialize_optional_orchard_shielded_data_with_flags :: "bool \<Rightarrow> orchard_data option writer" where
  "serialize_optional_orchard_shielded_data_with_flags allow d =
     (case d of
        None \<Rightarrow> zcash_serialize_empty_list
      | Some d \<Rightarrow> serialize_orchard_shielded_data_with_flags allow d)"

definition deserialize_orchard_shielded_data_with_flags :: "crypto_lib \<Rightarrow> bool \<Rightarrow> orchard_data option reader" where
  "deserialize_orchard_shielded_data_with_flags C allow bs =
     and_then (vec_deserialize action_max_allocation (action_deserialize C) bs) (\<lambda>(actions, bs).
     if actions = [] then Ok (None, bs)
     else
     and_then (deserialize_orchard_flags allow bs) (\<lambda>(flags, bs).
     and_then (negative_allowed_deserialize bs) (\<lambda>(value_balance, bs).
     and_then (read_checked 32 (orchard_root_problem C) bs) (\<lambda>(shared_anchor, bs).
     and_then (bytes_deserialize bs) (\<lambda>(zkproof, bs).
     and_then (zcash_deserialize_external_count action_max_allocation (read_exact 64) (length actions) bs) (\<lambda>(sigs, bs).
     and_then (read_exact 64 bs) (\<lambda>(binding_sig, bs).
     let authorized_actions = map (\<lambda>(a, sig). \<lparr>aa_action = a, aa_spend_auth_sig = sig\<rparr>) (zip actions sigs) in
     if authorized_actions = [] then Err (Parse ''vector length out of bounds'')
     else Ok (Some \<lparr>od_flags = flags, od_value_balance = value_balance, od_shared_anchor = shared_anchor,
                    od_proof = zkproof, od_actions = authorized_actions, od_binding_sig = binding_sig\<rparr>, bs))))))))"

definition valid_action :: "crypto_lib \<Rightarrow> action \<Rightarrow> bool" where
  "valid_action C a \<longleftrightarrow>
     (length (ac_cv a) = 32 \<and> orchard_cv_problem C (ac_cv a) = None) \<and>
     (length (ac_nullifier a) = 32 \<and> orchard_nullifier_problem C (ac_nullifier a) = None) \<and>
     (length (ac_rk a) = 32 \<and> orchard_rk_problem (ac_rk a) = None) \<and>
     (length (ac_cm_x a) = 32 \<and> pallas_base_problem C (ac_cm_x a) = None) \<and>
     (length (ac_ephemeral_key a) = 32 \<and> orchard_epk_problem C (ac_ephemeral_key a) = None) \<and>
     length (ac_enc_ciphertext a) = 580 \<and> length (ac_out_ciphertext a) = 80"

definition valid_orchard_data :: "crypto_lib \<Rightarrow> orchard_data option \<Rightarrow> bool" where
  "valid_orchard_data C d \<longleftrightarrow>
     (case d of None \<Rightarrow> True
      | Some d \<Rightarrow>
          od_actions d \<noteq> [] \<and> length (od_actions d) \<le> action_max_allocation \<and>
          (\<forall>a \<in> set (od_actions d). valid_action C (aa_action a) \<and> length (aa_spend_auth_sig a) = 64) \<and>
          flags_from_bits (od_flags d) = Some (od_flags d) \<and>
          contains (valid_range NegativeAllowed) (od_value_balance d) \<and>
          length (od_shared_anchor d) = 32 \<and> orchard_root_problem C (od_shared_anchor d) = None \<and>
          length (od_proof d) \<le> MAX_U8_ALLOCATION \<and> length (od_binding_sig d) = 64)"

lemma action_codec: "zcash_codec action_serialize (action_deserialize C) (valid_action C)"
  by (rule codec_record[where f = "\<lambda>a. (ac_cv a, ac_nullifier a, ac_rk a, ac_cm_x a, ac_ephemeral_key a,
          ac_enc_ciphertext a, ac_out_ciphertext a)"
        and g = "\<lambda>(cv, nullifier, rk, cm_x, epk, enc, outc). \<lparr>ac_cv = cv, ac_nullifier = nullifier, ac_rk = rk,
          ac_cm_x = cm_x, ac_ephemeral_key = epk, ac_enc_ciphertext = enc, ac_out_ciphertext = outc\<rparr>",
      OF pair_codec[OF checked_codec pair_codec[OF checked_codec pair_codec[OF checked_codec pair_codec[OF checked_codec
         pair_codec[OF checked_codec pair_codec[OF array_codec array_codec]]]]]]])
    (simp_all add: action_serialize_def action_deserialize_def codec_defs and_then_assoc split_def valid_action_def)

text \<open>The two flag readers accept the same bytes: bit 2 is a defined flag, so \<open>from_bits\<close> does not reserve it.\<close>

lemma flag_bits:
  "flags_from_bits b =
     (if b AND NOT (ORCHARD_SPEND_OUTPUT_FLAG_BITS OR ENABLE_CROSS_ADDRESS) = 0 then Some b else None)"
proof -
  have "b AND m = b \<longleftrightarrow> b AND NOT m = 0" for m :: u8
    by (auto simp: bit_eq_iff bit_simps)
  then show ?thesis
    by (simp add: flags_from_bits_def ORCHARD_SPEND_OUTPUT_FLAG_BITS_def ENABLE_SPENDS_def ENABLE_OUTPUTS_def
        ENABLE_CROSS_ADDRESS_def del: bit.de_Morgan_disj)
qed

lemma deserialize_orchard_flags_same: "deserialize_orchard_flags allow = deserialize_orchard_flags True"
  by (cases allow) (simp_all add: fun_eq_iff deserialize_orchard_flags_def flag_bits)

lemma orchard_flags_codec:
  "zcash_codec (serialize_orchard_flags True) (deserialize_orchard_flags allow) (\<lambda>f. flags_from_bits f = Some f)"
  unfolding deserialize_orchard_flags_same[of allow]
  by unfold_locales
    (auto simp: serialize_orchard_flags_def deserialize_orchard_flags_def flag_bits rust_simps length_Suc_conv
      split: option.splits if_splits)

type_synonym orchard_tail = "flags \<times> amount \<times> bytes \<times> bytes \<times> bytes list \<times> bytes"

definition orchard_tail_serialize :: "orchard_tail writer" where
  "orchard_tail_serialize =
     pair_serialize (serialize_orchard_flags True) (pair_serialize negative_allowed_serialize (pair_serialize Ok
       (pair_serialize zcash_serialize_bytes (pair_serialize (zcash_serialize_external_count Ok) Ok))))"

definition orchard_tail_deserialize :: "crypto_lib \<Rightarrow> bool \<Rightarrow> nat \<Rightarrow> orchard_tail reader" where
  "orchard_tail_deserialize C allow n =
     pair_deserialize (deserialize_orchard_flags allow) (pair_deserialize negative_allowed_deserialize
       (pair_deserialize (read_checked 32 (orchard_root_problem C)) (pair_deserialize bytes_deserialize
       (pair_deserialize (zcash_deserialize_external_count action_max_allocation (read_exact 64) n) (read_exact 64)))))"

definition valid_orchard_tail :: "crypto_lib \<Rightarrow> nat \<Rightarrow> orchard_tail \<Rightarrow> bool" where
  "valid_orchard_tail C n = (\<lambda>p. flags_from_bits (fst p) = Some (fst p) \<and>
     contains (valid_range NegativeAllowed) (fst (snd p)) \<and>
     (length (fst (snd (snd p))) = 32 \<and> orchard_root_problem C (fst (snd (snd p))) = None) \<and>
     length (fst (snd (snd (snd p)))) \<le> MAX_U8_ALLOCATION \<and>
     (length (fst (snd (snd (snd (snd p))))) = n \<and> n \<le> action_max_allocation \<and>
       (\<forall>s \<in> set (fst (snd (snd (snd (snd p))))). length s = 64)) \<and>
     length (snd (snd (snd (snd (snd p))))) = 64)"

lemma orchard_tail_codec:
  "zcash_codec orchard_tail_serialize (orchard_tail_deserialize C allow n) (valid_orchard_tail C n)"
  unfolding orchard_tail_serialize_def orchard_tail_deserialize_def valid_orchard_tail_def
  by (intro pair_codec orchard_flags_codec na.zcash_codec_axioms checked_codec bytevec.zcash_codec_axioms
      external_count_codec array_codec)

lemma orchard_data_codec:
  "zcash_codec (serialize_optional_orchard_shielded_data_with_flags True)
    (deserialize_orchard_shielded_data_with_flags C allow) (valid_orchard_data C)"
proof -
  note base = dep_when_codec[where present = "\<lambda>as. as \<noteq> []"
      and part_de = "\<lambda>as. orchard_tail_deserialize C allow (length as)"
      and part_ok = "\<lambda>as. valid_orchard_tail C (length as)",
      OF vector_codec[OF action_codec[of C], of action_max_allocation] orchard_tail_codec]
  let ?as = "\<lambda>as sigs. map (\<lambda>(a, sig). \<lparr>aa_action = a, aa_spend_auth_sig = sig\<rparr>) (zip as sigs)"
  let ?f = "\<lambda>d. case d of None \<Rightarrow> ([], None)
    | Some d \<Rightarrow> (map aa_action (od_actions d), Some (od_flags d, od_value_balance d, od_shared_anchor d, od_proof d,
        map aa_spend_auth_sig (od_actions d), od_binding_sig d))"
  let ?g = "\<lambda>(as, t). case t of None \<Rightarrow> None
    | Some (f, vb, a, p, sigs, sig) \<Rightarrow> Some \<lparr>od_flags = f, od_value_balance = vb, od_shared_anchor = a,
        od_proof = p, od_actions = ?as as sigs, od_binding_sig = sig\<rparr>"
  let ?h = "\<lambda>(as, t) r. case t of None \<Rightarrow> Ok (None, r)
    | Some (f, vb, a, p, sigs, sig) \<Rightarrow>
        if ?as as sigs = [] then Err (Parse ''vector length out of bounds'') else Ok (?g (as, t), r)"
  have split: "map aa_action (?as as sigs) = as" "map aa_spend_auth_sig (?as as sigs) = sigs"
    if "length as = length sigs" for as sigs
    using that by (induction as sigs rule: list_induct2) auto
  have join: "?as (map aa_action xs) (map aa_spend_auth_sig xs) = xs" for xs
    by (induction xs) auto
  show ?thesis
  proof (rule codec_iso[OF base, where f = ?f and g = ?g and h = ?h], goal_cases)
    case (1 d)
    then show ?case
      using max_allocation_small[of _ AUTHORIZED_ACTION_SIZE]
      by (cases d) (auto simp: valid_orchard_data_def valid_orchard_tail_def when_valid_def join action_max_allocation_def)
  next
    case (2 y)
    obtain as t where y: "y = (as, t)" by (metis surj_pair)
    show ?case
    proof (cases t)
      case None
      then show ?thesis using 2 by (auto simp: y when_valid_def valid_orchard_data_def)
    next
      case (Some u)
      obtain f vb a p sigs sig where u: "u = (f, vb, a, p, sigs, sig)" by (metis surj_pair)
      have l: "length as = length sigs" using 2 by (auto simp: y Some u when_valid_def valid_orchard_tail_def)
      define xs where "xs = ?as as sigs"
      have g: "?g y = Some \<lparr>od_flags = f, od_value_balance = vb, od_shared_anchor = a, od_proof = p,
          od_actions = xs, od_binding_sig = sig\<rparr>" by (simp add: y Some u xs_def)
      show ?thesis
        using 2 unfolding g unfolding y Some u
        using split[OF l, folded xs_def]
        by (auto simp: when_valid_def valid_orchard_data_def valid_orchard_tail_def)
    qed
  next
    case (3 d)
    then show ?case
      by (cases d)
        (auto simp: serialize_optional_orchard_shielded_data_with_flags_def
          serialize_orchard_shielded_data_with_flags_def codec_defs orchard_tail_serialize_def and_then_assoc)
  next
    case (4 bs)
    show ?case
      unfolding deserialize_orchard_shielded_data_with_flags_def codec_defs orchard_tail_deserialize_def
      by (auto simp: and_then_assoc Let_def split: option.splits intro!: and_then_cong)
  next
    case (5 y r)
    then show ?case
      by (cases y; cases "snd y") (auto simp: when_valid_def valid_orchard_tail_def zip_eq_Nil_iff)
  qed
qed

subsection \<open>Keys that are no points\<close>

text \<open>
  A library without the promise of \<open>redjubjub_keys\<close> has the same results as the library that accepts only
  the keys that are points, except that a reader may panic where the other one fails. So only the
  absence of panics needs the promise.
\<close>

definition point_keys :: "crypto_lib \<Rightarrow> crypto_lib" where
  "point_keys C = C\<lparr>redjubjub_key_ok := \<lambda>b. redjubjub_key_ok C b \<and> jubjub_small_order C b \<noteq> None\<rparr>"

lemma point_keys: "redjubjub_keys (point_keys C)"
  by unfold_locales (simp add: point_keys_def)

lemma point_keys_key:
  "agree (validating_key_try_from (point_keys C) b) (validating_key_try_from C b)"
  by (auto simp: agree_def validating_key_try_from_def point_keys_def rust_simps)

lemma point_keys_key_iff: "validating_key_try_from (point_keys C) b = Ok k \<longleftrightarrow> validating_key_try_from C b = Ok k"
  using point_keys_key unfolding agree_def by blast

lemma point_keys_unchanged [simp]:
  "sapling_root_problem (point_keys C) = sapling_root_problem C" "cm_u_problem (point_keys C) = cm_u_problem C"
  "orchard_cv_problem (point_keys C) = orchard_cv_problem C" "orchard_nullifier_problem (point_keys C) = orchard_nullifier_problem C"
  "pallas_base_problem (point_keys C) = pallas_base_problem C" "orchard_epk_problem (point_keys C) = orchard_epk_problem C"
  "orchard_root_problem (point_keys C) = orchard_root_problem C"
  by (simp_all add: fun_eq_iff sapling_root_problem_def cm_u_problem_def orchard_cv_problem_def orchard_nullifier_problem_def
      pallas_base_problem_def orchard_epk_problem_def orchard_root_problem_def point_keys_def)

lemma point_keys_readers [simp]:
  "output_v4_deserialize (point_keys C) = output_v4_deserialize C"
  "output_prefix_deserialize (point_keys C) = output_prefix_deserialize C"
  "action_deserialize (point_keys C) = action_deserialize C"
  by (simp_all add: fun_eq_iff output_v4_deserialize_def output_prefix_deserialize_def action_deserialize_def)

lemma point_keys_orchard [simp]:
  "deserialize_orchard_shielded_data_with_flags (point_keys C) = deserialize_orchard_shielded_data_with_flags C"
  unfolding deserialize_orchard_shielded_data_with_flags_def[abs_def] point_keys_unchanged point_keys_readers ..

lemma point_keys_valid [simp]:
  "valid_spend_v4 (point_keys C) = valid_spend_v4 C" "valid_spend_prefix (point_keys C) = valid_spend_prefix C"
  "valid_sapling_output (point_keys C) = valid_sapling_output C" "valid_output_prefix (point_keys C) = valid_output_prefix C"
  "valid_action (point_keys C) = valid_action C"
  by (simp_all add: fun_eq_iff valid_spend_v4_def valid_spend_prefix_def valid_sapling_output_def valid_output_prefix_def
      valid_action_def point_keys_key_iff)

lemma point_keys_spends [agree_intros]:
  "agree (spend_v4_deserialize (point_keys C) bs) (spend_v4_deserialize C bs)"
  "agree (spend_prefix_deserialize (point_keys C) bs) (spend_prefix_deserialize C bs)"
  unfolding spend_v4_deserialize_def spend_prefix_deserialize_def read_validating_key_def point_keys_unchanged
  by (intro agree_intros point_keys_key)+

lemma point_keys_sapling_v5 [agree_intros]:
  "agree (deserialize_v5_sapling_shielded_data (point_keys C) coinbase bs) (deserialize_v5_sapling_shielded_data C coinbase bs)"
  unfolding deserialize_v5_sapling_shielded_data_def point_keys_unchanged point_keys_readers
  by (intro agree_intros)

end
