(* ===== verification/Tx_Codec.thy ===== *)
theory Tx_Codec
  imports Shielded_Codec Block
begin

section \<open>The wire format of transactions and blocks (transaction/serialize.rs, block/serialize.rs)\<close>

text \<open>
  Writing and reading of all six transaction versions and of blocks. The script library \<open>L\<close> is the
  one coinbase inputs are read with, the curve checks are \<open>C\<close>.
\<close>

unbundle bit_operations_syntax

definition ALLOW_CROSS_ADDRESS_BIT :: bool where "ALLOW_CROSS_ADDRESS_BIT = True"

fun inputs_are_coinbase :: "input list \<Rightarrow> bool" where
  "inputs_are_coinbase [Coinbase h d s] = True"
| "inputs_are_coinbase _ = False"

subsection \<open>Writing\<close>

definition branch_id_serialize :: "network_upgrade writer" where
  "branch_id_serialize nu = and_then (expect (branch_id nu)) (\<lambda>b. write_u32 (unat b))"

text \<open>The inputs, outputs and lock time in the order of the first four versions.\<close>

definition transfers_serialize :: "script_lib \<Rightarrow> (input list \<times> tx_output list \<times> lock_time) writer" where
  "transfers_serialize L t =
     and_then (vec_serialize (input_serialize L) (fst t)) (\<lambda>i.
     and_then (vec_serialize output_serialize (fst (snd t))) (\<lambda>out.
     and_then (lock_time_serialize (snd (snd t))) (\<lambda>l. Ok (i @ out @ l))))"

definition sapling_v4_serialize :: "sapling_v4 option writer" where
  "sapling_v4_serialize d =
     (case d of
        None \<Rightarrow>
          and_then (negative_allowed_serialize 0) (\<lambda>v.
          and_then zcash_serialize_empty_list (\<lambda>s.
          and_then zcash_serialize_empty_list (\<lambda>out. Ok (v @ s @ out))))
      | Some d \<Rightarrow>
          and_then (negative_allowed_serialize (sd_value_balance d)) (\<lambda>v.
          and_then (vec_serialize spend_v4_serialize (td_spends (sd_transfers d))) (\<lambda>s.
          and_then (vec_serialize output_v4_serialize (td_outputs (sd_transfers d))) (\<lambda>out. Ok (v @ s @ out)))))"

text \<open>The fields from the branch id to the Sapling bundle, common to versions 5 and 6.\<close>

definition v5_fields_serialize ::
  "script_lib \<Rightarrow> (network_upgrade \<times> lock_time \<times> height \<times> input list \<times> tx_output list) writer" where
  "v5_fields_serialize L t =
     (case t of (nu, lock_time, expiry, ins, outs) \<Rightarrow>
        and_then (branch_id_serialize nu) (\<lambda>b.
        and_then (lock_time_serialize lock_time) (\<lambda>l.
        and_then (write_u32 expiry) (\<lambda>e.
        and_then (vec_serialize (input_serialize L) ins) (\<lambda>i.
        and_then (vec_serialize output_serialize outs) (\<lambda>out. Ok (b @ l @ e @ i @ out)))))))"

fun transaction_body_serialize :: "script_lib \<Rightarrow> bool \<Rightarrow> transaction writer" where
  "transaction_body_serialize L v5_cross_address (V1 ins outs lock_time) =
     transfers_serialize L (ins, outs, lock_time)"
| "transaction_body_serialize L v5_cross_address (V2 ins outs lock_time jsd) =
     and_then (transfers_serialize L (ins, outs, lock_time)) (\<lambda>t.
     and_then (joinsplit_data_serialize jsd) (\<lambda>j. Ok (t @ j)))"
| "transaction_body_serialize L v5_cross_address (V3 ins outs lock_time expiry jsd) =
     and_then (write_u32 OVERWINTER_VERSION_GROUP_ID) (\<lambda>g.
     and_then (transfers_serialize L (ins, outs, lock_time)) (\<lambda>t.
     and_then (write_u32 expiry) (\<lambda>e.
     and_then (joinsplit_data_serialize jsd) (\<lambda>j. Ok (g @ t @ e @ j)))))"
| "transaction_body_serialize L v5_cross_address (V4 ins outs lock_time expiry jsd sapling) =
     and_then (write_u32 SAPLING_VERSION_GROUP_ID) (\<lambda>g.
     and_then (transfers_serialize L (ins, outs, lock_time)) (\<lambda>t.
     and_then (write_u32 expiry) (\<lambda>e.
     and_then (sapling_v4_serialize sapling) (\<lambda>s.
     and_then (joinsplit_data_serialize jsd) (\<lambda>j.
       Ok (g @ t @ e @ s @ j @ (case sapling of Some d \<Rightarrow> sd_binding_sig d | None \<Rightarrow> [])))))))"
| "transaction_body_serialize L v5_cross_address (V5 nu lock_time expiry ins outs sapling orchard) =
     and_then (write_u32 TX_V5_VERSION_GROUP_ID) (\<lambda>g.
     and_then (v5_fields_serialize L (nu, lock_time, expiry, ins, outs)) (\<lambda>f.
     and_then (sapling_v5_serialize sapling) (\<lambda>s.
     and_then (serialize_optional_orchard_shielded_data_with_flags v5_cross_address orchard) (\<lambda>orch.
       Ok (g @ f @ s @ orch)))))"
| "transaction_body_serialize L v5_cross_address (V6 nu lock_time expiry ins outs sapling orchard ironwood) =
     (if nu < Nu6_3 then Err Io
      else
        and_then (write_u32 TX_V6_VERSION_GROUP_ID) (\<lambda>g.
        and_then (v5_fields_serialize L (nu, lock_time, expiry, ins, outs)) (\<lambda>f.
        and_then (sapling_v5_serialize sapling) (\<lambda>s.
        and_then (serialize_optional_orchard_shielded_data_with_flags ALLOW_CROSS_ADDRESS_BIT orchard) (\<lambda>orch.
        and_then (serialize_optional_orchard_shielded_data_with_flags ALLOW_CROSS_ADDRESS_BIT ironwood) (\<lambda>iron.
          Ok (g @ f @ s @ orch @ iron)))))))"

definition header_word :: "transaction \<Rightarrow> nat" where
  "header_word tx = (if is_overwintered tx then 2 ^ 31 else 0) OR version tx"

definition transaction_serialize :: "script_lib \<Rightarrow> transaction writer" where
  "transaction_serialize L tx =
     and_then (write_u32 (header_word tx)) (\<lambda>h.
     and_then (transaction_body_serialize L (\<not> ALLOW_CROSS_ADDRESS_BIT) tx) (\<lambda>b. Ok (h @ b)))"

text \<open>\<open>zcash_serialized_size\<close> expects that serialization does not fail.\<close>

definition zcash_serialized_size :: "'a writer \<Rightarrow> 'a \<Rightarrow> (nat, 'e) outcome" where
  "zcash_serialized_size ser x = and_then (expect_ok (ser x)) (\<lambda>b. Ok (length b))"

subsection \<open>Reading\<close>

definition inputs_deserialize :: "script_lib \<Rightarrow> input list reader" where
  "inputs_deserialize L = vec_deserialize input_max_allocation (input_deserialize L)"

definition outputs_deserialize :: "tx_output list reader" where
  "outputs_deserialize = vec_deserialize output_max_allocation output_deserialize"

definition expect_u32 :: "nat \<Rightarrow> string \<Rightarrow> unit reader" where
  "expect_u32 k message bs =
     and_then (read_u32 bs) (\<lambda>(n, bs). if n \<noteq> k then Err (Parse message) else Ok ((), bs))"

definition branch_id_deserialize :: "network_upgrade \<Rightarrow> string \<Rightarrow> network_upgrade reader" where
  "branch_id_deserialize lowest message bs =
     and_then (read_u32 bs) (\<lambda>(n, bs).
       case upgrade_try_from_branch_id (of_nat n) of
         None \<Rightarrow> Err (Parse ''invalid consensus branch id'')
       | Some nu \<Rightarrow> if nu < lowest then Err (Parse message) else Ok (nu, bs))"

definition v1_deserialize :: "script_lib \<Rightarrow> transaction reader" where
  "v1_deserialize L bs =
     and_then (inputs_deserialize L bs) (\<lambda>(ins, bs).
     and_then (outputs_deserialize bs) (\<lambda>(outs, bs).
     and_then (lock_time_deserialize bs) (\<lambda>(lock_time, bs). Ok (V1 ins outs lock_time, bs))))"

definition v2_deserialize :: "script_lib \<Rightarrow> transaction reader" where
  "v2_deserialize L bs =
     and_then (inputs_deserialize L bs) (\<lambda>(ins, bs).
     and_then (outputs_deserialize bs) (\<lambda>(outs, bs).
     and_then (lock_time_deserialize bs) (\<lambda>(lock_time, bs).
     and_then (joinsplit_data_deserialize BCTV14_PROOF_SIZE bs) (\<lambda>(jsd, bs). Ok (V2 ins outs lock_time jsd, bs)))))"

definition v3_deserialize :: "script_lib \<Rightarrow> transaction reader" where
  "v3_deserialize L bs =
     and_then (expect_u32 OVERWINTER_VERSION_GROUP_ID ''expected OVERWINTER_VERSION_GROUP_ID'' bs) (\<lambda>(_, bs).
     and_then (inputs_deserialize L bs) (\<lambda>(ins, bs).
     and_then (outputs_deserialize bs) (\<lambda>(outs, bs).
     and_then (lock_time_deserialize bs) (\<lambda>(lock_time, bs).
     and_then (read_u32 bs) (\<lambda>(expiry, bs).
     and_then (joinsplit_data_deserialize BCTV14_PROOF_SIZE bs) (\<lambda>(jsd, bs).
       Ok (V3 ins outs lock_time expiry jsd, bs)))))))"

definition v4_deserialize :: "script_lib \<Rightarrow> crypto_lib \<Rightarrow> transaction reader" where
  "v4_deserialize L C bs =
     and_then (expect_u32 SAPLING_VERSION_GROUP_ID ''expected SAPLING_VERSION_GROUP_ID'' bs) (\<lambda>(_, bs).
     and_then (inputs_deserialize L bs) (\<lambda>(ins, bs).
     and_then (outputs_deserialize bs) (\<lambda>(outs, bs).
     and_then (lock_time_deserialize bs) (\<lambda>(lock_time, bs).
     and_then (read_u32 bs) (\<lambda>(expiry, bs).
     and_then (negative_allowed_deserialize bs) (\<lambda>(value_balance, bs).
     and_then (and_then (compact_size_message_deserialize bs) (\<lambda>(n, bs).
         if inputs_are_coinbase ins \<and> n > 0
         then Err (Parse ''coinbase transaction must not have Sapling spends'')
         else zcash_deserialize_external_count spend_v4_max_allocation (spend_v4_deserialize C) n bs))
       (\<lambda>(spends, bs).
     and_then (vec_deserialize sapling_output_max_allocation (output_v4_deserialize C) bs) (\<lambda>(souts, bs).
     and_then (joinsplit_data_deserialize GROTH16_PROOF_SIZE bs) (\<lambda>(jsd, bs).
     if spends \<noteq> [] then
       and_then (read_exact 64 bs) (\<lambda>(sig, bs).
         Ok (V4 ins outs lock_time expiry jsd (Some \<lparr>sd_value_balance = value_balance,
               sd_transfers = SpendsAndMaybeOutputs () spends souts, sd_binding_sig = sig\<rparr>), bs))
     else if souts \<noteq> [] then
       and_then (read_exact 64 bs) (\<lambda>(sig, bs).
         Ok (V4 ins outs lock_time expiry jsd (Some \<lparr>sd_value_balance = value_balance,
               sd_transfers = JustOutputs souts, sd_binding_sig = sig\<rparr>), bs))
     else if value_balance \<noteq> 0 then Err BadTransactionBalance
     else Ok (V4 ins outs lock_time expiry jsd None, bs))))))))))"

definition v5_deserialize :: "script_lib \<Rightarrow> crypto_lib \<Rightarrow> transaction reader" where
  "v5_deserialize L C bs =
     and_then (expect_u32 TX_V5_VERSION_GROUP_ID ''expected TX_V5_VERSION_GROUP_ID'' bs) (\<lambda>(_, bs).
     and_then (branch_id_deserialize Nu5 ''v5 transaction must have NU5 or later consensus branch ID'' bs) (\<lambda>(nu, bs).
     and_then (lock_time_deserialize bs) (\<lambda>(lock_time, bs).
     and_then (read_u32 bs) (\<lambda>(expiry, bs).
     and_then (inputs_deserialize L bs) (\<lambda>(ins, bs).
     and_then (outputs_deserialize bs) (\<lambda>(outs, bs).
     and_then (deserialize_v5_sapling_shielded_data C (inputs_are_coinbase ins) bs) (\<lambda>(sapling, bs).
     and_then (deserialize_orchard_shielded_data_with_flags C (\<not> ALLOW_CROSS_ADDRESS_BIT) bs) (\<lambda>(orchard, bs).
       Ok (V5 nu lock_time expiry ins outs sapling orchard, bs)))))))))"

definition v6_deserialize :: "script_lib \<Rightarrow> crypto_lib \<Rightarrow> transaction reader" where
  "v6_deserialize L C bs =
     and_then (expect_u32 TX_V6_VERSION_GROUP_ID ''expected TX_V6_VERSION_GROUP_ID'' bs) (\<lambda>(_, bs).
     and_then (branch_id_deserialize Nu6_3 ''v6 transaction must have a NU6.3 or later consensus branch ID'' bs)
       (\<lambda>(nu, bs).
     and_then (lock_time_deserialize bs) (\<lambda>(lock_time, bs).
     and_then (read_u32 bs) (\<lambda>(expiry, bs).
     and_then (inputs_deserialize L bs) (\<lambda>(ins, bs).
     and_then (outputs_deserialize bs) (\<lambda>(outs, bs).
     and_then (deserialize_v5_sapling_shielded_data C (inputs_are_coinbase ins) bs) (\<lambda>(sapling, bs).
     and_then (deserialize_orchard_shielded_data_with_flags C ALLOW_CROSS_ADDRESS_BIT bs) (\<lambda>(orchard, bs).
     and_then (deserialize_orchard_shielded_data_with_flags C ALLOW_CROSS_ADDRESS_BIT bs) (\<lambda>(ironwood, bs).
       Ok (V6 nu lock_time expiry ins outs sapling orchard ironwood, bs))))))))))"

definition transaction_body_deserialize :: "script_lib \<Rightarrow> crypto_lib \<Rightarrow> nat \<Rightarrow> transaction reader" where
  "transaction_body_deserialize L C header =
     (let version = header mod 2 ^ 31; overwintered = (header div 2 ^ 31 \<noteq> 0) in
      if version = 1 \<and> \<not> overwintered then v1_deserialize L
      else if version = 2 \<and> \<not> overwintered then v2_deserialize L
      else if version = 3 \<and> overwintered then v3_deserialize L
      else if version = 4 \<and> overwintered then v4_deserialize L C
      else if version = 5 \<and> overwintered then v5_deserialize L C
      else if version = 6 \<and> overwintered then v6_deserialize L C
      else (\<lambda>bs. Err (Parse ''bad tx header'')))"

definition transaction_deserialize :: "script_lib \<Rightarrow> crypto_lib \<Rightarrow> transaction reader" where
  "transaction_deserialize L C =
     read_limited MAX_BLOCK_BYTES (\<lambda>bs.
       and_then (read_u32 bs) (\<lambda>(header, bs). transaction_body_deserialize L C header bs))"

subsection \<open>Blocks\<close>

definition MIN_TRANSPARENT_TX_SIZE :: nat where
  "MIN_TRANSPARENT_TX_SIZE = MIN_TRANSPARENT_INPUT_SIZE + 4 + MIN_TRANSPARENT_OUTPUT_SIZE"

definition transaction_max_allocation :: nat where
  "transaction_max_allocation = MAX_BLOCK_BYTES div MIN_TRANSPARENT_TX_SIZE"

definition block_serialize :: "script_lib \<Rightarrow> block writer" where
  "block_serialize L b =
     and_then (header_serialize (bk_header b)) (\<lambda>h.
     and_then (vec_serialize (transaction_serialize L) (bk_transactions b)) (\<lambda>txs. Ok (h @ txs)))"

definition block_deserialize :: "script_lib \<Rightarrow> crypto_lib \<Rightarrow> block reader" where
  "block_deserialize L C =
     read_limited MAX_BLOCK_BYTES (\<lambda>bs.
       and_then (header_deserialize bs) (\<lambda>(h, bs).
       and_then (vec_deserialize transaction_max_allocation (transaction_deserialize L C) bs) (\<lambda>(txs, bs).
         Ok (\<lparr>bk_header = h, bk_transactions = txs\<rparr>, bs))))"

subsection \<open>Valid transactions\<close>

definition valid_lock_time :: "lock_time \<Rightarrow> bool" where
  "valid_lock_time l =
     (case l of LockHeight h \<Rightarrow> int h < MIN_TIMESTAMP | LockTimestamp t \<Rightarrow> MIN_TIMESTAMP \<le> t \<and> t \<le> u32_max)"

definition valid_inputs :: "input list \<Rightarrow> bool" where
  "valid_inputs ins \<longleftrightarrow> length ins \<le> input_max_allocation \<and> (\<forall>i \<in> set ins. valid_input i)"

definition valid_outputs :: "tx_output list \<Rightarrow> bool" where
  "valid_outputs outs \<longleftrightarrow> length outs \<le> output_max_allocation \<and> (\<forall>out \<in> set outs. valid_output out)"

definition valid_sapling_v4 :: "crypto_lib \<Rightarrow> bool \<Rightarrow> sapling_v4 option \<Rightarrow> bool" where
  "valid_sapling_v4 C coinbase d \<longleftrightarrow>
     (case d of None \<Rightarrow> True
      | Some d \<Rightarrow>
          contains (valid_range NegativeAllowed) (sd_value_balance d) \<and> length (sd_binding_sig d) = 64 \<and>
          length (td_spends (sd_transfers d)) \<le> spend_v4_max_allocation \<and>
          length (td_outputs (sd_transfers d)) \<le> sapling_output_max_allocation \<and>
          (\<forall>s \<in> set (td_spends (sd_transfers d)). valid_spend_v4 C s) \<and>
          (\<forall>out \<in> set (td_outputs (sd_transfers d)). valid_sapling_output C out) \<and>
          (case sd_transfers d of
             SpendsAndMaybeOutputs a spends outs \<Rightarrow> \<not> coinbase \<and> spends \<noteq> []
           | JustOutputs outs \<Rightarrow> outs \<noteq> []))"

definition valid_upgrade :: "network_upgrade \<Rightarrow> network_upgrade \<Rightarrow> bool" where
  "valid_upgrade lowest nu \<longleftrightarrow> branch_id nu \<noteq> None \<and> \<not> nu < lowest"

fun valid_transaction_body :: "crypto_lib \<Rightarrow> transaction \<Rightarrow> bool" where
  "valid_transaction_body C (V1 ins outs l) \<longleftrightarrow> valid_inputs ins \<and> valid_outputs outs \<and> valid_lock_time l"
| "valid_transaction_body C (V2 ins outs l jsd) \<longleftrightarrow>
     valid_inputs ins \<and> valid_outputs outs \<and> valid_lock_time l \<and> valid_joinsplit_data BCTV14_PROOF_SIZE jsd"
| "valid_transaction_body C (V3 ins outs l e jsd) \<longleftrightarrow>
     valid_inputs ins \<and> valid_outputs outs \<and> valid_lock_time l \<and> e < 2 ^ 32 \<and>
     valid_joinsplit_data BCTV14_PROOF_SIZE jsd"
| "valid_transaction_body C (V4 ins outs l e jsd sapling) \<longleftrightarrow>
     valid_inputs ins \<and> valid_outputs outs \<and> valid_lock_time l \<and> e < 2 ^ 32 \<and>
     valid_joinsplit_data GROTH16_PROOF_SIZE jsd \<and> valid_sapling_v4 C (inputs_are_coinbase ins) sapling"
| "valid_transaction_body C (V5 nu l e ins outs sapling orchard) \<longleftrightarrow>
     valid_upgrade Nu5 nu \<and> valid_lock_time l \<and> e < 2 ^ 32 \<and> valid_inputs ins \<and> valid_outputs outs \<and>
     valid_sapling_v5 C (inputs_are_coinbase ins) sapling \<and> valid_orchard_data C orchard"
| "valid_transaction_body C (V6 nu l e ins outs sapling orchard ironwood) \<longleftrightarrow>
     valid_upgrade Nu6_3 nu \<and> valid_lock_time l \<and> e < 2 ^ 32 \<and> valid_inputs ins \<and> valid_outputs outs \<and>
     valid_sapling_v5 C (inputs_are_coinbase ins) sapling \<and> valid_orchard_data C orchard \<and>
     valid_orchard_data C ironwood"

text \<open>A version 5 transaction whose Orchard flags have the cross-address bit.\<close>

definition v5_cross_address :: "transaction \<Rightarrow> bool" where
  "v5_cross_address tx =
     (case tx of V5 _ _ _ _ _ _ (Some d) \<Rightarrow> flags_contain (od_flags d) ENABLE_CROSS_ADDRESS | _ \<Rightarrow> False)"

text \<open>The encoding of transactions and blocks that allows this bit.\<close>

definition transaction_encoding :: "script_lib \<Rightarrow> transaction writer" where
  "transaction_encoding L tx =
     and_then (write_u32 (header_word tx)) (\<lambda>h. and_then (transaction_body_serialize L True tx) (\<lambda>b. Ok (h @ b)))"

definition block_encoding :: "script_lib \<Rightarrow> block writer" where
  "block_encoding L b =
     and_then (header_serialize (bk_header b)) (\<lambda>h.
     and_then (vec_serialize (transaction_encoding L) (bk_transactions b)) (\<lambda>txs. Ok (h @ txs)))"

definition valid_transaction :: "script_lib \<Rightarrow> crypto_lib \<Rightarrow> transaction \<Rightarrow> bool" where
  "valid_transaction L C tx \<longleftrightarrow> valid_transaction_body C tx \<and>
     (case transaction_encoding L tx of Ok b \<Rightarrow> length b \<le> MAX_BLOCK_BYTES | _ \<Rightarrow> False)"

definition valid_block :: "script_lib \<Rightarrow> crypto_lib \<Rightarrow> block \<Rightarrow> bool" where
  "valid_block L C b \<longleftrightarrow>
     valid_header (bk_header b) \<and> length (bk_transactions b) \<le> transaction_max_allocation \<and>
     (\<forall>tx \<in> set (bk_transactions b). valid_transaction L C tx) \<and>
     (case block_encoding L b of Ok bs \<Rightarrow> length bs \<le> MAX_BLOCK_BYTES | _ \<Rightarrow> False)"

subsection \<open>The codecs of the parts\<close>

lemma lock_time_codec: "zcash_codec lock_time_serialize lock_time_deserialize valid_lock_time"
proof (rule codec_iso[OF u32c.zcash_codec_axioms, where f = "\<lambda>l. case l of LockHeight h \<Rightarrow> h | LockTimestamp t \<Rightarrow> nat t"
      and g = "\<lambda>n. if int n < MIN_TIMESTAMP then LockHeight n else LockTimestamp (int n)"
      and h = "\<lambda>n r. Ok (if int n < MIN_TIMESTAMP then LockHeight n else LockTimestamp (int n), r)"], goal_cases)
qed (auto simp: lock_time_serialize_def lock_time_deserialize_def valid_lock_time_def MIN_TIMESTAMP_def
      write_u32_def read_u32_def int_bounds checked_def split: lock_time.splits if_splits)

lemma outputs_codec: "zcash_codec (vec_serialize output_serialize) outputs_deserialize valid_outputs"
proof -
  have v: "valid_outputs = (\<lambda>xs. length xs \<le> output_max_allocation \<and> length xs \<le> MAX_PROTOCOL_MESSAGE_LEN \<and>
      (\<forall>x \<in> set xs. valid_output x))"
    by (auto simp: fun_eq_iff valid_outputs_def output_max_allocation_def MAX_BLOCK_BYTES_def alloc_defs
        MIN_TRANSPARENT_OUTPUT_SIZE_def)
  show ?thesis
    unfolding outputs_deserialize_def v by (rule vector_codec[OF outputc.zcash_codec_axioms])
qed

lemma expect_u32_codec:
  "k < 2 ^ 32 \<Longrightarrow> zcash_codec (\<lambda>_. write_u32 k) (expect_u32 k message) (\<lambda>_. True)"
  using u32c.ser_Ok[of k] u32c.de_ser[of k] u32c.de_no_panic
  by unfold_locales (auto simp: expect_u32_def rust_simps split: if_splits dest!: u32c.de_canonical)

lemma branch_id_codec:
  "zcash_codec branch_id_serialize (branch_id_deserialize lowest message) (valid_upgrade lowest)"
proof
  {
    fix nu assume v: "valid_upgrade lowest nu"
    then obtain b where b: "branch_id nu = Some b" by (auto simp: valid_upgrade_def)
    have u: "unat b < 2 ^ 32" using unsigned_less[of b, where ?'a = nat] by simp
    with u32c.ser_Ok show "\<exists>enc. branch_id_serialize nu = Ok enc" by (auto simp: branch_id_serialize_def b)
    fix enc rest assume "branch_id_serialize nu = Ok enc"
    then have "read_u32 (enc @ rest) = Ok (unat b, rest)"
      using u by (intro u32c.de_ser) (auto simp: branch_id_serialize_def b)
    with v b branch_id_roundtrip show "branch_id_deserialize lowest message (enc @ rest) = Ok (nu, rest)"
      by (simp add: branch_id_deserialize_def valid_upgrade_def)
  next
    fix bs nu rest assume "branch_id_deserialize lowest message bs = Ok (nu, rest)"
    then obtain n where n: "read_u32 bs = Ok (n, rest)" "upgrade_try_from_branch_id (of_nat n) = Some nu"
      "\<not> nu < lowest"
      by (auto simp: branch_id_deserialize_def rust_simps split: option.splits if_splits)
    from u32c.de_canonical[OF n(1)] obtain enc where
      c: "n < 2 ^ 32" "write_u32 n = Ok enc" "bs = enc @ rest" by blast
    from c(1) have "unat (of_nat n :: u32) = n" by (simp add: unsigned_of_nat take_bit_nat_eq_self)
    moreover have "branch_id nu = Some (of_nat n)" using n(2) branch_id_roundtrip by blast
    ultimately show "valid_upgrade lowest nu \<and> (\<exists>b. branch_id_serialize nu = Ok b \<and> bs = b @ rest)"
      using n c by (auto simp: valid_upgrade_def branch_id_serialize_def)
  next
    fix bs show "branch_id_deserialize lowest message bs \<noteq> Panic"
      using u32c.de_no_panic by (auto simp: branch_id_deserialize_def rust_simps split: option.splits if_splits)
  }
qed

text \<open>The Sapling fields of version 4 that come before the JoinSplits.\<close>

type_synonym sapling_v4_parts = "amount \<times> bytes spend list \<times> sapling_output list"

definition sapling_v4_parts_deserialize :: "crypto_lib \<Rightarrow> bool \<Rightarrow> sapling_v4_parts reader" where
  "sapling_v4_parts_deserialize C coinbase =
     pair_deserialize negative_allowed_deserialize (pair_deserialize
      (\<lambda>bs. and_then (compact_size_message_deserialize bs) (\<lambda>(n, bs).
         if coinbase \<and> n > 0
         then Err (Parse ''coinbase transaction must not have Sapling spends'')
         else zcash_deserialize_external_count spend_v4_max_allocation (spend_v4_deserialize C) n bs))
      (vec_deserialize sapling_output_max_allocation (output_v4_deserialize C)))"

definition valid_sapling_v4_parts :: "crypto_lib \<Rightarrow> bool \<Rightarrow> sapling_v4_parts \<Rightarrow> bool" where
  "valid_sapling_v4_parts C coinbase = (\<lambda>p. contains (valid_range NegativeAllowed) (fst p) \<and>
      ((length (fst (snd p)) \<le> spend_v4_max_allocation \<and> length (fst (snd p)) \<le> MAX_PROTOCOL_MESSAGE_LEN \<and>
        (\<forall>s \<in> set (fst (snd p)). valid_spend_v4 C s)) \<and> (coinbase \<longrightarrow> fst (snd p) = [])) \<and>
      (length (snd (snd p)) \<le> sapling_output_max_allocation \<and> length (snd (snd p)) \<le> MAX_PROTOCOL_MESSAGE_LEN \<and>
        (\<forall>out \<in> set (snd (snd p)). valid_sapling_output C out)))"

context redjubjub_keys
begin

lemma sapling_v4_parts_codec:
  "zcash_codec
    (pair_serialize negative_allowed_serialize (pair_serialize (vec_serialize spend_v4_serialize)
      (vec_serialize output_v4_serialize)))
    (sapling_v4_parts_deserialize C coinbase) (valid_sapling_v4_parts C coinbase)"
  unfolding sapling_v4_parts_deserialize_def valid_sapling_v4_parts_def
  by (intro pair_codec na.zcash_codec_axioms coinbase_free_codec spend_v4_codec vector_codec output_v4_codec)

end

subsection \<open>The codec of each version\<close>

text \<open>A check after the parts it is about.\<close>

lemma rejecting_codec:
  assumes "zcash_codec s d v"
  shows "zcash_codec s (\<lambda>bs. and_then (d bs) (\<lambda>(x, r). if reject x then Err e else Ok (x, r)))
    (\<lambda>x. v x \<and> \<not> reject x)"
proof -
  note c = zcash_codec.ser_Ok[OF assms] zcash_codec.de_ser[OF assms]
    zcash_codec.de_canonical[OF assms] zcash_codec.de_no_panic[OF assms]
  show ?thesis
    by unfold_locales (auto simp: c(1,2,4) rust_simps split: if_splits dest!: c(3))
qed

abbreviation body_codec :: "script_lib \<Rightarrow> crypto_lib \<Rightarrow> nat \<Rightarrow> transaction reader \<Rightarrow> bool" where
  "body_codec L C n de \<equiv> zcash_codec (transaction_body_serialize L True) de
     (\<lambda>tx. version tx = n \<and> valid_transaction_body C tx)"

lemma group_ids:
  "OVERWINTER_VERSION_GROUP_ID < 2 ^ 32" "SAPLING_VERSION_GROUP_ID < 2 ^ 32"
  "TX_V5_VERSION_GROUP_ID < 2 ^ 32" "TX_V6_VERSION_GROUP_ID < 2 ^ 32"
  by (simp_all add: OVERWINTER_VERSION_GROUP_ID_def SAPLING_VERSION_GROUP_ID_def TX_V5_VERSION_GROUP_ID_def
      TX_V6_VERSION_GROUP_ID_def)

lemmas body_simps = transfers_serialize_def v5_fields_serialize_def codec_defs and_then_assoc split_def

definition header_words :: "nat set" where
  "header_words = {1, 2, 2 ^ 31 + 3, 2 ^ 31 + 4, 2 ^ 31 + 5, 2 ^ 31 + 6}"

lemma header_word_version:
  "header_word tx = (if version tx \<le> 2 then version tx else 2 ^ 31 + version tx)"
  by (cases tx) (simp_all add: header_word_def)

lemma header_word_words: "header_word tx \<in> header_words"
  by (cases tx) (simp_all add: header_word_version header_words_def)

lemma header_word_iff:
  "header_word tx = 1 \<longleftrightarrow> version tx = 1" "header_word tx = 2 \<longleftrightarrow> version tx = 2"
  "header_word tx = 2 ^ 31 + 3 \<longleftrightarrow> version tx = 3" "header_word tx = 2 ^ 31 + 4 \<longleftrightarrow> version tx = 4"
  "header_word tx = 2 ^ 31 + 5 \<longleftrightarrow> version tx = 5" "header_word tx = 2 ^ 31 + 6 \<longleftrightarrow> version tx = 6"
  by (cases tx; simp add: header_word_version)+

lemma body_reader:
  "transaction_body_deserialize L C 1 = v1_deserialize L" "transaction_body_deserialize L C 2 = v2_deserialize L"
  "transaction_body_deserialize L C (2 ^ 31 + 3) = v3_deserialize L"
  "transaction_body_deserialize L C (2 ^ 31 + 4) = v4_deserialize L C"
  "transaction_body_deserialize L C (2 ^ 31 + 5) = v5_deserialize L C"
  "transaction_body_deserialize L C (2 ^ 31 + 6) = v6_deserialize L C"
  by (simp_all add: transaction_body_deserialize_def)

lemma unknown_header:
  assumes "w < 2 ^ 32" "w \<notin> header_words"
  shows "w div 2 ^ 31 = 0 \<Longrightarrow> w mod 2 ^ 31 \<noteq> 1 \<and> w mod 2 ^ 31 \<noteq> 2"
    and "w div 2 ^ 31 \<noteq> 0 \<Longrightarrow> w mod 2 ^ 31 \<noteq> 3 \<and> w mod 2 ^ 31 \<noteq> 4 \<and> w mod 2 ^ 31 \<noteq> 5 \<and> w mod 2 ^ 31 \<noteq> 6"
proof -
  have w: "w = w div 2 ^ 31 * 2 ^ 31 + w mod 2 ^ 31" by simp
  show "w div 2 ^ 31 = 0 \<Longrightarrow> w mod 2 ^ 31 \<noteq> 1 \<and> w mod 2 ^ 31 \<noteq> 2"
    using w assms(2) unfolding header_words_def by auto
  assume "w div 2 ^ 31 \<noteq> 0"
  moreover have "w div 2 ^ 31 < 2" using assms(1) by simp
  ultimately have "w div 2 ^ 31 = 1" by linarith
  from div_mult_mod_eq[of w "2 ^ 31", unfolded this] have "w = 2 ^ 31 + w mod 2 ^ 31" by linarith
  with assms(2) show "w mod 2 ^ 31 \<noteq> 3 \<and> w mod 2 ^ 31 \<noteq> 4 \<and> w mod 2 ^ 31 \<noteq> 5 \<and> w mod 2 ^ 31 \<noteq> 6"
    unfolding header_words_def by (metis insertCI)
qed

text \<open>The third-party libraries that the readers of transactions rely on.\<close>

locale transaction_libs = coinbase_scripts L + redjubjub_keys C for L C
begin

lemma inputs_codec: "zcash_codec (vec_serialize (input_serialize L)) (inputs_deserialize L) valid_inputs"
proof -
  have v: "valid_inputs = (\<lambda>xs. length xs \<le> input_max_allocation \<and> length xs \<le> MAX_PROTOCOL_MESSAGE_LEN \<and>
      (\<forall>x \<in> set xs. valid_input x))"
    by (auto simp: fun_eq_iff valid_inputs_def input_max_allocation_def MAX_BLOCK_BYTES_def alloc_defs
        MIN_TRANSPARENT_INPUT_SIZE_def)
  show ?thesis
    unfolding inputs_deserialize_def v by (rule vector_codec[OF inputc.zcash_codec_axioms])
qed

lemmas transfer_codecs = pair_codec[OF inputs_codec pair_codec[OF outputs_codec lock_time_codec]]

lemma v1_codec: "body_codec L C 1 (v1_deserialize L)"
proof (rule codec_iso[OF transfer_codecs,
      where f = "\<lambda>tx. case tx of V1 i out l \<Rightarrow> (i, out, l)" and g = "\<lambda>(i, out, l). V1 i out l"
        and h = "\<lambda>(i, out, l) r. Ok (V1 i out l, r)"], goal_cases)
  case (1 tx) then show ?case by (cases tx) auto
next
  case (3 tx) then show ?case by (cases tx) (auto simp: body_simps)
qed (auto simp: v1_deserialize_def body_simps)

lemma v2_codec: "body_codec L C 2 (v2_deserialize L)"
proof (rule codec_iso[OF pair_codec[OF transfer_codecs joinsplit_data_codec[of BCTV14_PROOF_SIZE]],
      where f = "\<lambda>tx. case tx of V2 i out l j \<Rightarrow> ((i, out, l), j)" and g = "\<lambda>((i, out, l), j). V2 i out l j"
        and h = "\<lambda>((i, out, l), j) r. Ok (V2 i out l j, r)"], goal_cases)
  case (1 tx) then show ?case by (cases tx) auto
next
  case (3 tx) then show ?case by (cases tx) (auto simp: body_simps)
qed (auto simp: v2_deserialize_def body_simps)

lemma v3_codec: "body_codec L C 3 (v3_deserialize L)"
proof (rule codec_iso[OF pair_codec[OF expect_u32_codec[OF group_ids(1), of "''expected OVERWINTER_VERSION_GROUP_ID''"]
        pair_codec[OF transfer_codecs pair_codec[OF u32c.zcash_codec_axioms joinsplit_data_codec[of BCTV14_PROOF_SIZE]]]],
      where f = "\<lambda>tx. case tx of V3 i out l e j \<Rightarrow> ((), (i, out, l), e, j)"
        and g = "\<lambda>(_, (i, out, l), e, j). V3 i out l e j"
        and h = "\<lambda>(_, (i, out, l), e, j) r. Ok (V3 i out l e j, r)"], goal_cases)
  case (1 tx) then show ?case by (cases tx) auto
next
  case (3 tx) then show ?case by (cases tx) (auto simp: body_simps)
qed (auto simp: v3_deserialize_def body_simps)

lemma v4_codec: "body_codec L C 4 (v4_deserialize L C)"
proof -
  note head = dep_codec[where tail_ser = "\<lambda>_. pair_serialize negative_allowed_serialize (pair_serialize (vec_serialize spend_v4_serialize)
      (vec_serialize output_v4_serialize))"
      and tail_de = "\<lambda>h. sapling_v4_parts_deserialize C (inputs_are_coinbase (fst (fst (snd h))))"
      and tail_ok = "\<lambda>h. valid_sapling_v4_parts C (inputs_are_coinbase (fst (fst (snd h))))",
      OF pair_codec[OF expect_u32_codec[OF group_ids(2), of "''expected SAPLING_VERSION_GROUP_ID''"]
        pair_codec[OF transfer_codecs u32c.zcash_codec_axioms]]
      sapling_v4_parts_codec]
  note base = dep_when_codec[where present = "\<lambda>p. fst (snd (snd (fst p))) \<noteq> [] \<or> snd (snd (snd (fst p))) \<noteq> []"
      and part_ok = "\<lambda>_ b. length b = 64" and part_de = "\<lambda>_. read_exact 64",
      OF rejecting_codec[where reject = "\<lambda>p. fst (snd (snd (fst p))) = [] \<and> snd (snd (snd (fst p))) = [] \<and> fst (snd (fst p)) \<noteq> 0"
           and e = BadTransactionBalance,
          OF pair_codec[OF head joinsplit_data_codec[of GROTH16_PROOF_SIZE]]] array_codec]
  let ?g = "\<lambda>((((_, (i, out, l), e), vb, sp, so), j), sig).
     V4 i out l e j (case sig of None \<Rightarrow> None | Some sig \<Rightarrow> Some \<lparr>sd_value_balance = vb,
        sd_transfers = (if sp \<noteq> [] then SpendsAndMaybeOutputs () sp so else JustOutputs so), sd_binding_sig = sig\<rparr>)"
  show ?thesis
  proof (rule codec_iso[OF base, where g = ?g and h = "\<lambda>y r. Ok (?g y, r)"
     and f = "\<lambda>tx. case tx of V4 i out l e j s \<Rightarrow> ((((() , (i, out, l), e), (case s of None \<Rightarrow> (0, [], [])
        | Some d \<Rightarrow> (sd_value_balance d, td_spends (sd_transfers d), td_outputs (sd_transfers d)))), j),
        map_option sd_binding_sig s)"], goal_cases)
    case (1 tx)
    then obtain i out l e j s where tx: "tx = V4 i out l e j s" by (cases tx) auto
    show ?case
      using 1 max_allocation_small[of _ "SHARED_ANCHOR_SPEND_SIZE + 32"] max_allocation_small[of _ OUTPUT_SIZE] unfolding tx
      by (cases s; cases "sd_transfers (the s)")
        (auto simp: valid_sapling_v4_def valid_sapling_v4_parts_def when_valid_def contains_def MAX_MONEY_def COIN_def
          spend_v4_max_allocation_def sapling_output_max_allocation_def)
  next
    case (2 y)
    obtain u i out l e vb sp so j sig where y: "y = ((((u, (i, out, l), e), vb, sp, so), j), sig)"
      by (metis surj_pair)
    show ?case
      using 2 unfolding y
      by (cases sig) (auto simp: when_valid_def valid_sapling_v4_def valid_sapling_v4_parts_def)
  next
    case (3 tx)
    then obtain i out l e j s where tx: "tx = V4 i out l e j s" by (cases tx) auto
    show ?case
      unfolding tx by (cases s) (auto simp: sapling_v4_serialize_def body_simps)
  next
    case (4 bs)
    show ?case
      unfolding v4_deserialize_def sapling_v4_parts_deserialize_def codec_defs
      by (auto simp: and_then_assoc intro!: and_then_cong)
  qed simp
qed

lemmas v5_head_codecs = pair_codec[OF lock_time_codec pair_codec[OF u32c.zcash_codec_axioms
  pair_codec[OF inputs_codec outputs_codec]]]

lemma v5_codec: "body_codec L C 5 (v5_deserialize L C)"
proof -
  note base = dep_codec[where tail_ser = "\<lambda>_. pair_serialize sapling_v5_serialize
        (serialize_optional_orchard_shielded_data_with_flags True)"
      and tail_de = "\<lambda>h. pair_deserialize
        (deserialize_v5_sapling_shielded_data C (inputs_are_coinbase (fst (snd (snd (snd (snd h)))))))
        (deserialize_orchard_shielded_data_with_flags C (\<not> ALLOW_CROSS_ADDRESS_BIT))"
      and tail_ok = "\<lambda>h p. valid_sapling_v5 C (inputs_are_coinbase (fst (snd (snd (snd (snd h)))))) (fst p) \<and>
        valid_orchard_data C (snd p)",
      OF pair_codec[OF expect_u32_codec[OF group_ids(3), of "''expected TX_V5_VERSION_GROUP_ID''"]
        pair_codec[OF branch_id_codec[of Nu5 "''v5 transaction must have NU5 or later consensus branch ID''"] v5_head_codecs]]
      pair_codec[OF sapling_v5_codec orchard_data_codec]]
  show ?thesis
  proof (rule codec_iso[OF base,
      where f = "\<lambda>tx. case tx of V5 nu l e i out s orch \<Rightarrow> (((), nu, l, e, i, out), s, orch)"
        and g = "\<lambda>((_, nu, l, e, i, out), s, orch). V5 nu l e i out s orch"
        and h = "\<lambda>((_, nu, l, e, i, out), s, orch) r. Ok (V5 nu l e i out s orch, r)"], goal_cases)
    case (1 tx) then show ?case by (cases tx) auto
  next
    case (3 tx) then show ?case by (cases tx) (auto simp: body_simps)
  qed (auto simp: v5_deserialize_def body_simps)
qed

lemma v6_codec: "body_codec L C 6 (v6_deserialize L C)"
proof -
  note base = dep_codec[where tail_ser = "\<lambda>_. pair_serialize sapling_v5_serialize
        (pair_serialize (serialize_optional_orchard_shielded_data_with_flags True)
          (serialize_optional_orchard_shielded_data_with_flags True))"
      and tail_de = "\<lambda>h. pair_deserialize
        (deserialize_v5_sapling_shielded_data C (inputs_are_coinbase (fst (snd (snd (snd (snd h)))))))
        (pair_deserialize (deserialize_orchard_shielded_data_with_flags C ALLOW_CROSS_ADDRESS_BIT)
          (deserialize_orchard_shielded_data_with_flags C ALLOW_CROSS_ADDRESS_BIT))"
      and tail_ok = "\<lambda>h p. valid_sapling_v5 C (inputs_are_coinbase (fst (snd (snd (snd (snd h)))))) (fst p) \<and>
        valid_orchard_data C (fst (snd p)) \<and> valid_orchard_data C (snd (snd p))",
      OF pair_codec[OF expect_u32_codec[OF group_ids(4), of "''expected TX_V6_VERSION_GROUP_ID''"]
        pair_codec[OF branch_id_codec[of Nu6_3 "''v6 transaction must have a NU6.3 or later consensus branch ID''"] v5_head_codecs]]
      pair_codec[OF sapling_v5_codec pair_codec[OF orchard_data_codec orchard_data_codec]]]
  show ?thesis
  proof (rule codec_iso[OF base,
      where f = "\<lambda>tx. case tx of V6 nu l e i out s orch iron \<Rightarrow> (((), nu, l, e, i, out), s, orch, iron)"
        and g = "\<lambda>((_, nu, l, e, i, out), s, orch, iron). V6 nu l e i out s orch iron"
        and h = "\<lambda>((_, nu, l, e, i, out), s, orch, iron) r. Ok (V6 nu l e i out s orch iron, r)"], goal_cases)
    case (1 tx) then show ?case by (cases tx) auto
  next
    case (3 tx) then show ?case
      by (cases tx) (auto simp: body_simps valid_upgrade_def ALLOW_CROSS_ADDRESS_BIT_def)
  qed (auto simp: v6_deserialize_def body_simps)
qed

lemma body_reader_codec:
  assumes w: "w < 2 ^ 32"
  shows "zcash_codec (transaction_body_serialize L True) (transaction_body_deserialize L C w)
     (\<lambda>tx. header_word tx = w \<and> valid_transaction_body C tx)"
proof (cases "w \<in> header_words")
  case True
  then consider "w = 1" | "w = 2" | "w = 2 ^ 31 + 3" | "w = 2 ^ 31 + 4" | "w = 2 ^ 31 + 5" | "w = 2 ^ 31 + 6"
    unfolding header_words_def by blast
  then show ?thesis
  proof cases
    case 1 show ?thesis unfolding 1 header_word_iff body_reader by (rule v1_codec)
  next
    case 2 show ?thesis unfolding 2 header_word_iff body_reader by (rule v2_codec)
  next
    case 3 show ?thesis unfolding 3 header_word_iff body_reader by (rule v3_codec)
  next
    case 4 show ?thesis unfolding 4 header_word_iff body_reader by (rule v4_codec)
  next
    case 5 show ?thesis unfolding 5 header_word_iff body_reader by (rule v5_codec)
  next
    case 6 show ?thesis unfolding 6 header_word_iff body_reader by (rule v6_codec)
  qed
next
  case False
  then have "\<And>tx. header_word tx \<noteq> w" using header_word_words by blast
  moreover have "transaction_body_deserialize L C w = (\<lambda>bs. Err (Parse ''bad tx header''))"
    unfolding transaction_body_deserialize_def Let_def
    using unknown_header[OF w False] by (cases "w div 2 ^ 31 = 0") (simp_all only: refl if_False simp_thms)
  ultimately show ?thesis by (auto intro!: zcash_codec.intro)
qed

text \<open>
  The reader inverts the writer that also allows the cross-address flag in version 5 transactions.
\<close>

lemma transaction_codec:
  "zcash_codec (transaction_encoding L) (transaction_deserialize L C) (valid_transaction L C)"
proof -
  have header: "header_word tx < 2 ^ 32" for tx
    using header_word_words[of tx] by (auto simp: header_words_def)
  have inner: "zcash_codec (transaction_encoding L)
      (\<lambda>bs. and_then (read_u32 bs) (\<lambda>(header, bs). transaction_body_deserialize L C header bs))
      (valid_transaction_body C)"
    by (rule codec_iso[OF dep_codec[OF u32c.zcash_codec_axioms body_reader_codec],
          where f = "\<lambda>tx. (header_word tx, tx)" and g = snd and h = "\<lambda>y r. Ok (snd y, r)"])
      (auto simp: header[simplified] transaction_encoding_def codec_defs and_then_assoc split_def)
  have v: "valid_transaction L C = (\<lambda>tx. valid_transaction_body C tx \<and>
      (\<exists>b. transaction_encoding L tx = Ok b \<and> length b \<le> MAX_BLOCK_BYTES))"
    by (auto simp: fun_eq_iff valid_transaction_def split: outcome.splits)
  show ?thesis unfolding transaction_deserialize_def v by (rule limited_codec[OF inner])
qed

lemma blocks_codec:
  "zcash_codec (block_encoding L) (block_deserialize L C) (valid_block L C)"
proof -
  note txs = vector_codec[OF transaction_codec, of transaction_max_allocation]
  have v: "valid_block L C = (\<lambda>b. (valid_header (bk_header b) \<and> length (bk_transactions b) \<le> transaction_max_allocation \<and>
      (\<forall>tx \<in> set (bk_transactions b). valid_transaction L C tx)) \<and>
      (\<exists>bs. block_encoding L b = Ok bs \<and> length bs \<le> MAX_BLOCK_BYTES))"
    by (auto simp: fun_eq_iff valid_block_def split: outcome.splits)
  have small: "n \<le> transaction_max_allocation \<Longrightarrow> n \<le> MAX_PROTOCOL_MESSAGE_LEN" for n
    by (simp add: transaction_max_allocation_def MIN_TRANSPARENT_TX_SIZE_def MIN_TRANSPARENT_INPUT_SIZE_def
        MIN_TRANSPARENT_OUTPUT_SIZE_def MAX_BLOCK_BYTES_def alloc_defs)
  have inner: "zcash_codec (block_encoding L)
     (\<lambda>bs. and_then (header_deserialize bs) (\<lambda>(h, bs).
       and_then (vec_deserialize transaction_max_allocation (transaction_deserialize L C) bs) (\<lambda>(txs, bs).
         Ok (\<lparr>bk_header = h, bk_transactions = txs\<rparr>, bs))))
     (\<lambda>b. valid_header (bk_header b) \<and> length (bk_transactions b) \<le> transaction_max_allocation \<and>
      (\<forall>tx \<in> set (bk_transactions b). valid_transaction L C tx))"
    by (rule codec_record[OF pair_codec[OF headerc.zcash_codec_axioms txs],
          where f = "\<lambda>b. (bk_header b, bk_transactions b)"
            and g = "\<lambda>(h, txs). \<lparr>bk_header = h, bk_transactions = txs\<rparr>"])
      (auto simp: block_encoding_def pair_serialize_def pair_deserialize_def and_then_assoc split_def small)
  show ?thesis
    unfolding block_deserialize_def v by (rule limited_codec[OF inner])
qed

end

subsection \<open>The cross-address bit\<close>

lemma three_bits:
  assumes "(f :: u8) AND 7 = f"
  shows "f \<in> {0, 1, 2, 3, 4, 5, 6, 7}"
proof -
  have m: "mask 3 = (7 :: u8)" unfolding mask_eq_exp_minus_1 by simp
  have "take_bit 3 f = f" unfolding take_bit_eq_mask m by (rule assms)
  then have "unat f = take_bit 3 (unat f)" by (metis unsigned_take_bit_eq)
  then have "unat f < 2 ^ 3" using take_bit_nat_less_exp[of 3 "unat f"] by presburger
  then have "unat f \<in> {0, 1, 2, 3, 4, 5, 6, 7}" by auto
  then have "of_nat (unat f) \<in> (of_nat :: nat \<Rightarrow> u8) ` {0, 1, 2, 3, 4, 5, 6, 7}" by (rule imageI)
  then show ?thesis by simp
qed

lemma flags_strict:
  assumes "flags_from_bits f = Some f"
  shows "serialize_orchard_flags False f =
    (if flags_contain f ENABLE_CROSS_ADDRESS then Err Io else serialize_orchard_flags True f)"
proof -
  have "f AND 7 = f"
    using assms by (simp add: flags_from_bits_def ENABLE_SPENDS_def ENABLE_OUTPUTS_def ENABLE_CROSS_ADDRESS_def
        split: if_splits)
  from three_bits[OF this] show ?thesis
    by (elim insertE emptyE) (simp_all add: serialize_orchard_flags_def flags_contain_def
        ENABLE_CROSS_ADDRESS_def ORCHARD_SPEND_OUTPUT_FLAG_BITS_def)
qed

lemma orchard_strict:
  assumes "valid_orchard_data C d"
  shows "serialize_optional_orchard_shielded_data_with_flags False d =
    (if \<exists>x. d = Some x \<and> flags_contain (od_flags x) ENABLE_CROSS_ADDRESS then Err Io
     else serialize_optional_orchard_shielded_data_with_flags True d)"
proof (cases d)
  case (Some x)
  obtain b where "vec_serialize action_serialize (map aa_action (od_actions x)) = Ok b"
    using zcash_codec.ser_Ok[OF vector_codec[OF action_codec[of C], of action_max_allocation],
        of "map aa_action (od_actions x)"] assms max_allocation_small[of _ AUTHORIZED_ACTION_SIZE]
    by (auto simp: Some valid_orchard_data_def action_max_allocation_def)
  moreover have "flags_from_bits (od_flags x) = Some (od_flags x)" using assms by (simp add: Some valid_orchard_data_def)
  ultimately show ?thesis
    by (simp add: Some serialize_optional_orchard_shielded_data_with_flags_def
        serialize_orchard_shielded_data_with_flags_def flags_strict)
qed (simp add: serialize_optional_orchard_shielded_data_with_flags_def)

context transaction_libs
begin

lemma v5_head_Ok:
  assumes "valid_transaction_body C (V5 nu l e ins outs sapling orchard)"
  shows "\<exists>g f s. write_u32 TX_V5_VERSION_GROUP_ID = Ok g \<and>
    v5_fields_serialize L (nu, l, e, ins, outs) = Ok f \<and> sapling_v5_serialize sapling = Ok s"
proof -
  from assms have v: "valid_upgrade Nu5 nu" "valid_lock_time l" "e < 2 ^ 32" "valid_inputs ins" "valid_outputs outs"
    "valid_sapling_v5 C (inputs_are_coinbase ins) sapling" by simp_all
  from zcash_codec.ser_Ok[OF branch_id_codec v(1)] zcash_codec.ser_Ok[OF lock_time_codec v(2)]
    u32c.ser_Ok[OF v(3)] zcash_codec.ser_Ok[OF inputs_codec v(4)] zcash_codec.ser_Ok[OF outputs_codec v(5)]
    zcash_codec.ser_Ok[OF sapling_v5_codec v(6)] u32c.ser_Ok[OF group_ids(3)]
  show ?thesis by (auto simp: v5_fields_serialize_def)
qed

lemma transaction_strict:
  assumes "valid_transaction_body C tx"
  shows "transaction_serialize L tx = (if v5_cross_address tx then Err Io else transaction_encoding L tx)"
proof (cases "version tx = 5")
  case True
  then obtain nu l e ins outs sapling orchard where tx: "tx = V5 nu l e ins outs sapling orchard" by (cases tx) auto
  have "header_word tx < 2 ^ 32" by (simp add: tx header_word_version)
  with u32c.ser_Ok obtain h where h: "write_u32 (header_word tx) = Ok h" by blast
  from v5_head_Ok[OF assms[unfolded tx]] obtain g f s where
    ok: "write_u32 TX_V5_VERSION_GROUP_ID = Ok g" "v5_fields_serialize L (nu, l, e, ins, outs) = Ok f"
      "sapling_v5_serialize sapling = Ok s" by blast
  have cross: "v5_cross_address tx \<longleftrightarrow> (\<exists>x. orchard = Some x \<and> flags_contain (od_flags x) ENABLE_CROSS_ADDRESS)"
    by (cases orchard) (simp_all add: tx v5_cross_address_def)
  have "valid_orchard_data C orchard" using assms by (simp add: tx)
  from orchard_strict[OF this, folded cross] show ?thesis
    unfolding transaction_serialize_def transaction_encoding_def h
    by (simp add: tx ALLOW_CROSS_ADDRESS_BIT_def ok)
next
  case False
  then show ?thesis
    by (cases tx) (simp_all add: transaction_serialize_def transaction_encoding_def v5_cross_address_def)
qed

end

lemma external_count_cong:
  "\<forall>x \<in> set xs. s x = s' x \<Longrightarrow> zcash_serialize_external_count s xs = zcash_serialize_external_count s' xs"
  by (induction xs) auto

subsection \<open>Keys that are no points\<close>

lemma point_keys_bundles [simp]:
  "valid_sapling_v4 (point_keys C) = valid_sapling_v4 C" "valid_sapling_v5 (point_keys C) = valid_sapling_v5 C"
  "valid_orchard_data (point_keys C) = valid_orchard_data C"
  unfolding valid_sapling_v4_def[abs_def] valid_sapling_v5_def[abs_def] valid_spend_v5_def[abs_def] valid_orchard_data_def[abs_def]
    point_keys_valid point_keys_unchanged by (rule refl)+

lemma point_keys_body [simp]: "valid_transaction_body (point_keys C) tx = valid_transaction_body C tx"
  by (cases tx) simp_all

lemma point_keys_transaction [simp]: "valid_transaction L (point_keys C) = valid_transaction L C"
  by (simp add: fun_eq_iff valid_transaction_def)

lemma point_keys_block [simp]: "valid_block L (point_keys C) = valid_block L C"
  by (simp add: fun_eq_iff valid_block_def)

lemma point_keys_versions [agree_intros]:
  "agree (v4_deserialize L (point_keys C) bs) (v4_deserialize L C bs)"
  "agree (v5_deserialize L (point_keys C) bs) (v5_deserialize L C bs)"
  "agree (v6_deserialize L (point_keys C) bs) (v6_deserialize L C bs)"
  unfolding v4_deserialize_def v5_deserialize_def v6_deserialize_def point_keys_readers point_keys_orchard
  by (intro agree_intros)+

lemma point_keys_body_reader [agree_intros]:
  "agree (transaction_body_deserialize L (point_keys C) w bs) (transaction_body_deserialize L C w bs)"
  unfolding transaction_body_deserialize_def Let_def by (simp add: agree_intros)

lemma point_keys_reader [agree_intros]:
  "agree (transaction_deserialize L (point_keys C) bs) (transaction_deserialize L C bs)"
  unfolding transaction_deserialize_def by (intro agree_intros)

lemma point_keys_block_reader: "agree (block_deserialize L (point_keys C) bs) (block_deserialize L C bs)"
  unfolding block_deserialize_def by (intro agree_intros)

lemma point_libs: "coinbase_scripts L \<Longrightarrow> transaction_libs L (point_keys C)"
  by (rule transaction_libs.intro[OF _ point_keys])

lemmas transaction_codec_of = agreeing_codec[OF transaction_libs.transaction_codec[OF point_libs] point_keys_reader,
    unfolded point_keys_transaction]
lemmas block_codec_of = agreeing_codec[OF transaction_libs.blocks_codec[OF point_libs] point_keys_block_reader,
    unfolded point_keys_block]

lemma transaction_strict_of:
  assumes "coinbase_scripts L" "valid_transaction L C tx"
  shows "transaction_serialize L tx = (if v5_cross_address tx then Err Io else transaction_encoding L tx)"
  using transaction_libs.transaction_strict[OF point_libs[OF assms(1)], of C tx] assms(2) by (simp add: valid_transaction_def)

lemma block_strict:
  assumes "coinbase_scripts L" "valid_block L C b" "\<forall>tx \<in> set (bk_transactions b). \<not> v5_cross_address tx"
  shows "block_serialize L b = block_encoding L b"
proof -
  have "\<forall>tx \<in> set (bk_transactions b). transaction_serialize L tx = transaction_encoding L tx"
    using assms transaction_strict_of[OF assms(1)] by (auto simp: valid_block_def)
  from external_count_cong[OF this] show ?thesis
    by (simp add: block_serialize_def block_encoding_def vec_serialize_def)
qed

subsection \<open>Properties\<close>

text \<open>
  C24. Transactions have exactly one accepted encoding, given a script library that encodes heights as
  documented, except for version 5 transactions with the cross-address bit. A valid transaction without
  that exception is written and read back unchanged. Whatever the reader accepts is a valid transaction;
  if it is not the exception, writing it gives the bytes that were read, at most \<open>MAX_BLOCK_BYTES\<close>, and
  if it is, writing it fails. The reader never panics, given that the keys \<open>redjubjub\<close> accepts are points.
\<close>

theorem transaction_encoding_canonical:
  assumes "coinbase_scripts L"
  shows "(\<forall>tx rest. valid_transaction L C tx \<and> \<not> v5_cross_address tx \<longrightarrow>
       (\<exists>b. transaction_serialize L tx = Ok b \<and> transaction_deserialize L C (b @ rest) = Ok (tx, rest))) \<and>
    (\<forall>bs tx rest. transaction_deserialize L C bs = Ok (tx, rest) \<longrightarrow>
       valid_transaction L C tx \<and>
       (if v5_cross_address tx then transaction_serialize L tx = Err Io
        else \<exists>b. transaction_serialize L tx = Ok b \<and> bs = b @ rest \<and> length b \<le> MAX_BLOCK_BYTES)) \<and>
    (redjubjub_keys C \<longrightarrow> (\<forall>bs. transaction_deserialize L C bs \<noteq> Panic))"
proof (intro conjI allI impI)
  note codec = transaction_codec_of[OF assms, of C] and strict = transaction_strict_of[OF assms, of C]
  {
    fix tx rest assume "valid_transaction L C tx \<and> \<not> v5_cross_address tx"
    then show "\<exists>b. transaction_serialize L tx = Ok b \<and> transaction_deserialize L C (b @ rest) = Ok (tx, rest)"
      using strict codec(1,2) by metis
  next
    fix bs tx rest assume de: "transaction_deserialize L C bs = Ok (tx, rest)"
    from codec(3)[OF de]
    show "valid_transaction L C tx"
      and "if v5_cross_address tx then transaction_serialize L tx = Err Io
        else \<exists>b. transaction_serialize L tx = Ok b \<and> bs = b @ rest \<and> length b \<le> MAX_BLOCK_BYTES"
      using strict by (auto simp: valid_transaction_def)
  next
    fix bs assume "redjubjub_keys C"
    from transaction_libs.transaction_codec[OF transaction_libs.intro[OF assms this]]
    show "transaction_deserialize L C bs \<noteq> Panic" by (rule zcash_codec.de_no_panic)
  }
qed

definition permissive_curves :: crypto_lib where
  "permissive_curves = \<lparr>jubjub_base_ok = \<lambda>_. True, redjubjub_key_ok = \<lambda>_. True, jubjub_small_order = \<lambda>_. Some False,
     pallas_base_ok = \<lambda>_. True, pallas_point_ok = \<lambda>_. True, pallas_identity = \<lambda>_. False\<rparr>"

interpretation permissive: redjubjub_keys permissive_curves
  by unfold_locales (simp add: permissive_curves_def)

interpretation documented_libs: transaction_libs documented_scripts permissive_curves
  by unfold_locales

definition sample_tx :: transaction where
  "sample_tx = V4 [] [] (LockHeight 7) 9 None None"

lemma sample_tx_valid:
  "valid_transaction documented_scripts permissive_curves sample_tx" "\<not> v5_cross_address sample_tx"
  "\<exists>b. transaction_encoding documented_scripts sample_tx = Ok b \<and> length b \<le> 1000"
  by (simp_all add: sample_tx_def valid_transaction_def valid_inputs_def valid_outputs_def valid_lock_time_def
      MIN_TIMESTAMP_def valid_joinsplit_data_def valid_sapling_v4_def transaction_encoding_def transfers_serialize_def
      lock_time_serialize_def sapling_v4_serialize_def joinsplit_data_serialize_def header_word_def
      write_u32_def negative_allowed_serialize_def zcash_serialize_empty_list_def
      compact_size_message_serialize_def compact_size64_serialize_def alloc_defs MAX_BLOCK_BYTES_def
      SAPLING_VERSION_GROUP_ID_def v5_cross_address_def)

theorem transaction_encoding_canonical_witness:
  "coinbase_scripts documented_scripts \<and>
   (\<exists>b. transaction_serialize documented_scripts sample_tx = Ok b \<and>
      transaction_deserialize documented_scripts permissive_curves (b @ [1]) = Ok (sample_tx, [1])) \<and>
   transaction_deserialize documented_scripts permissive_curves [1] \<noteq> Panic"
  using transaction_encoding_canonical[OF documented.coinbase_scripts_axioms] sample_tx_valid
    documented.coinbase_scripts_axioms permissive.redjubjub_keys_axioms by blast

text \<open>
  C25. Blocks without version 5 transactions that have the cross-address bit have exactly one accepted
  encoding, of at most \<open>MAX_BLOCK_BYTES\<close>: valid blocks are written and read back unchanged, writing a
  block that was read gives the bytes that were read, and the reader never panics, given that the keys
  \<open>redjubjub\<close> accepts are points.
\<close>

theorem block_encoding_canonical:
  assumes "coinbase_scripts L"
  shows "(\<forall>b rest. valid_block L C b \<and> \<not> (\<exists>tx \<in> set (bk_transactions b). v5_cross_address tx) \<longrightarrow>
       (\<exists>bs. block_serialize L b = Ok bs \<and> block_deserialize L C (bs @ rest) = Ok (b, rest))) \<and>
    (\<forall>bs b rest. block_deserialize L C bs = Ok (b, rest) \<longrightarrow>
       valid_block L C b \<and>
       ((\<exists>tx \<in> set (bk_transactions b). v5_cross_address tx) \<or>
        (\<exists>e. block_serialize L b = Ok e \<and> bs = e @ rest \<and> length e \<le> MAX_BLOCK_BYTES))) \<and>
    (redjubjub_keys C \<longrightarrow> (\<forall>bs. block_deserialize L C bs \<noteq> Panic))"
proof (intro conjI allI impI)
  note codec = block_codec_of[OF assms, of C]
  have strict: "block_serialize L b = block_encoding L b"
    if "valid_block L C b" "\<not> (\<exists>tx \<in> set (bk_transactions b). v5_cross_address tx)" for b
    using that block_strict[OF assms] by blast
  {
    fix b rest assume "valid_block L C b \<and> \<not> (\<exists>tx \<in> set (bk_transactions b). v5_cross_address tx)"
    then show "\<exists>bs. block_serialize L b = Ok bs \<and> block_deserialize L C (bs @ rest) = Ok (b, rest)"
      using strict codec(1,2) by metis
  next
    fix bs b rest assume de: "block_deserialize L C bs = Ok (b, rest)"
    from codec(3)[OF de]
    show v: "valid_block L C b"
      and "(\<exists>tx \<in> set (bk_transactions b). v5_cross_address tx) \<or>
        (\<exists>e. block_serialize L b = Ok e \<and> bs = e @ rest \<and> length e \<le> MAX_BLOCK_BYTES)"
      using strict[of b] by (auto simp: valid_block_def)
  next
    fix bs assume "redjubjub_keys C"
    from transaction_libs.blocks_codec[OF transaction_libs.intro[OF assms this]]
    show "block_deserialize L C bs \<noteq> Panic" by (rule zcash_codec.de_no_panic)
  }
qed

definition sample_block :: block where
  "sample_block =
     \<lparr>bk_header = \<lparr>hd_version = 4, hd_previous_block_hash = replicate 32 0, hd_merkle_root = replicate 32 0,
        hd_commitment_bytes = replicate 32 0, hd_time = 1, hd_difficulty_threshold = 0, hd_nonce = replicate 32 0,
        hd_solution = RegtestSolution (replicate 36 0)\<rparr>,
      bk_transactions = [sample_tx]\<rparr>"

theorem block_encoding_canonical_witness:
  "coinbase_scripts documented_scripts \<and>
   (\<exists>bs. block_serialize documented_scripts sample_block = Ok bs \<and>
      block_deserialize documented_scripts permissive_curves (bs @ [1]) = Ok (sample_block, [1]))"
proof
  show c: "coinbase_scripts documented_scripts" by (rule documented.coinbase_scripts_axioms)
  have h: "valid_header (bk_header sample_block)"
    by (simp add: sample_block_def valid_header_def ZCASH_BLOCK_VERSION_def valid_solution_def REGTEST_SOLUTION_SIZE_def)
  have "\<exists>s. header_serialize (bk_header sample_block) = Ok s \<and> length s \<le> 1000"
    unfolding header_serialize_eq[OF h]
    by (simp add: sample_block_def solution_serialize_def zcash_serialize_bytes_def compact_size_message_try_from_def
        zcash_serialize_bytes_external_count_def compact_size_message_serialize_def compact_size64_serialize_def alloc_defs)
  then have "valid_block documented_scripts permissive_curves sample_block"
    using h sample_tx_valid(1,3)
    by (auto simp: valid_block_def sample_block_def block_encoding_def vec_serialize_def alloc_defs
        compact_size_message_try_from_def compact_size_message_serialize_def compact_size64_serialize_def
        transaction_max_allocation_def MIN_TRANSPARENT_TX_SIZE_def MIN_TRANSPARENT_INPUT_SIZE_def
        MIN_TRANSPARENT_OUTPUT_SIZE_def MAX_BLOCK_BYTES_def)
  moreover have "\<not> (\<exists>tx \<in> set (bk_transactions sample_block). v5_cross_address tx)"
    by (simp add: sample_block_def sample_tx_valid(2))
  ultimately show "\<exists>bs. block_serialize documented_scripts sample_block = Ok bs \<and>
      block_deserialize documented_scripts permissive_curves (bs @ [1]) = Ok (sample_block, [1])"
    using block_encoding_canonical[OF c] by blast
qed

subsection \<open>Version 5 transactions with the cross-address bit\<close>

definition cross_address_tx :: "flags \<Rightarrow> action \<Rightarrow> bytes \<Rightarrow> bytes \<Rightarrow> transaction" where
  "cross_address_tx f a sig anchor =
     V5 Nu5 (LockHeight 0) 0 [] [] None
       (Some \<lparr>od_flags = f, od_value_balance = 0, od_shared_anchor = anchor, od_proof = [],
              od_actions = [\<lparr>aa_action = a, aa_spend_auth_sig = sig\<rparr>], od_binding_sig = sig\<rparr>)"

lemma cross_address_tx_valid:
  assumes "valid_action C a" "length sig = 64" "length anchor = 32" "orchard_root_problem C anchor = None"
    "flags_from_bits f = Some f"
  shows "valid_transaction L C (cross_address_tx f a sig anchor)"
proof -
  have a: "length (ac_cv a @ ac_nullifier a @ ac_rk a @ ac_cm_x a @ ac_ephemeral_key a @ ac_enc_ciphertext a @
      ac_out_ciphertext a) = 820" using assms(1) by (simp add: valid_action_def)
  have f: "serialize_orchard_flags True f = Ok [f]"
    using assms(5) unfolding flag_bits by (simp add: serialize_orchard_flags_def split: if_splits)
  have b: "branch_id Nu5 \<noteq> None" "\<exists>b. branch_id Nu5 = Some b" by (simp_all add: branch_id_def CONSENSUS_BRANCH_IDS_def)
  then have "valid_transaction_body C (cross_address_tx f a sig anchor)"
    using assms by (simp add: cross_address_tx_def valid_upgrade_def valid_lock_time_def MIN_TIMESTAMP_def
        valid_inputs_def valid_outputs_def valid_sapling_v5_def valid_orchard_data_def contains_def MAX_MONEY_def
        COIN_def alloc_defs action_max_allocation_def AUTHORIZED_ACTION_SIZE_def MAX_BLOCK_BYTES_def)
  moreover obtain enc where "transaction_encoding L (cross_address_tx f a sig anchor) = Ok enc" "length enc \<le> 2000"
    using b(2) a assms(2,3)
    by (auto simp: transaction_encoding_def cross_address_tx_def v5_fields_serialize_def sapling_v5_serialize_def
      branch_id_serialize_def lock_time_serialize_def header_word_def write_u32_def zcash_serialize_empty_list_def
      serialize_optional_orchard_shielded_data_with_flags_def serialize_orchard_shielded_data_with_flags_def f
      action_serialize_def negative_allowed_serialize_def zcash_serialize_bytes_def
      zcash_serialize_bytes_external_count_def compact_size_message_serialize_def compact_size64_serialize_def
      compact_size_message_try_from_def vec_serialize_def alloc_defs TX_V5_VERSION_GROUP_ID_def)
  ultimately show ?thesis by (simp add: valid_transaction_def MAX_BLOCK_BYTES_def)
qed

text \<open>
  C26. The version 5 reader accepts Orchard flags with the cross-address bit, which is reserved in
  version 5. Every well-formed action and anchor give such a transaction: it is read from some bytes,
  but it cannot be written, and asking for its serialized size panics. With the bit cleared, the
  transaction is written.
\<close>

theorem v5_reader_accepts_reserved_flag:
  assumes "coinbase_scripts L" "valid_action C a" "length sig = 64" "length anchor = 32"
    "orchard_root_problem C anchor = None"
  shows "(\<exists>bs. transaction_deserialize L C bs = Ok (cross_address_tx 7 a sig anchor, [])) \<and>
    transaction_serialize L (cross_address_tx 7 a sig anchor) = Err Io \<and>
    zcash_serialized_size (transaction_serialize L) (cross_address_tx 7 a sig anchor) = Panic \<and>
    (\<exists>b. transaction_serialize L (cross_address_tx 3 a sig anchor) = Ok b \<and>
       zcash_serialized_size (transaction_serialize L) (cross_address_tx 3 a sig anchor) = Ok (length b))"
proof -
  have f: "flags_from_bits 7 = Some 7" "flags_from_bits 3 = Some 3"
    by (simp_all add: flags_from_bits_def ENABLE_SPENDS_def ENABLE_OUTPUTS_def ENABLE_CROSS_ADDRESS_def)
  note codec = transaction_codec_of[OF assms(1), of C] and strict = transaction_strict_of[OF assms(1), of C]
  note valid = cross_address_tx_valid[OF assms(2-5) f(1), of L] cross_address_tx_valid[OF assms(2-5) f(2), of L]
  have cross: "v5_cross_address (cross_address_tx 7 a sig anchor)" "\<not> v5_cross_address (cross_address_tx 3 a sig anchor)"
    by (simp_all add: v5_cross_address_def cross_address_tx_def flags_contain_def ENABLE_CROSS_ADDRESS_def)
  from codec(1,2)[OF valid(1)]
  have "\<exists>bs. transaction_deserialize L C bs = Ok (cross_address_tx 7 a sig anchor, [])" by (metis append_Nil2)
  moreover have err: "transaction_serialize L (cross_address_tx 7 a sig anchor) = Err Io"
    using strict[OF valid(1)] cross(1) by simp
  moreover obtain b where "transaction_serialize L (cross_address_tx 3 a sig anchor) = Ok b"
    using strict[OF valid(2)] cross(2) codec(1)[OF valid(2)] by auto
  ultimately show ?thesis by (simp add: zcash_serialized_size_def)
qed

definition sample_action :: action where
  "sample_action = \<lparr>ac_cv = replicate 32 1, ac_nullifier = replicate 32 1, ac_rk = replicate 32 1,
     ac_cm_x = replicate 32 1, ac_ephemeral_key = replicate 32 1, ac_enc_ciphertext = replicate 580 1,
     ac_out_ciphertext = replicate 80 1\<rparr>"

theorem v5_reader_accepts_reserved_flag_witness:
  "coinbase_scripts documented_scripts \<and> valid_action permissive_curves sample_action \<and>
   orchard_root_problem permissive_curves (replicate 32 1) = None \<and>
   (\<exists>bs. transaction_deserialize documented_scripts permissive_curves bs =
      Ok (cross_address_tx 7 sample_action (replicate 64 1) (replicate 32 1), []))"
proof -
  have rk: "replicate 32 (1 :: u8) \<noteq> replicate 32 0" by (metis one_neq_zero replicate_eq_replicate zero_neq_numeral)
  have a: "valid_action permissive_curves sample_action" and r: "orchard_root_problem permissive_curves (replicate 32 1) = None"
    by (simp_all add: valid_action_def sample_action_def permissive_curves_def orchard_cv_problem_def
        orchard_nullifier_problem_def orchard_rk_problem_def pallas_base_problem_def orchard_epk_problem_def
        orchard_root_problem_def rk)
  from v5_reader_accepts_reserved_flag[OF documented.coinbase_scripts_axioms a length_replicate length_replicate r, of 1]
  show ?thesis using documented.coinbase_scripts_axioms a r by blast
qed

end
