(* ===== verification/Unmined.thy ===== *)
theory Unmined
  imports Tx_Codec
begin

section \<open>Unmined transactions and their fees (transaction/unmined.rs, unmined/zip317.rs)\<close>

text \<open>
  The identifiers of transactions outside blocks, the transactions with their cached size and
  conventional fee, the fee rules of ZIP-317 and the costs of ZIP-401. Transaction ids and authorizing
  digests are computed by a third-party library, the record \<open>tx_digests\<close>. The fee weight ratio, a
  floating-point number that no modelled function reads, is left out.
\<close>

record tx_digests =
  txid :: "transaction \<Rightarrow> tx_hash"
  txauth :: "transaction \<Rightarrow> bytes"

record wtx_id =
  wt_id :: tx_hash
  wt_auth_digest :: bytes

datatype unmined_tx_id = Legacy tx_hash | Witnessed wtx_id

definition unmined_tx_id_from :: "tx_digests \<Rightarrow> transaction \<Rightarrow> unmined_tx_id" where
  "unmined_tx_id_from D tx =
     (case tx of
        V5 _ _ _ _ _ _ _ \<Rightarrow> Witnessed \<lparr>wt_id = txid D tx, wt_auth_digest = txauth D tx\<rparr>
      | V6 _ _ _ _ _ _ _ _ \<Rightarrow> Witnessed \<lparr>wt_id = txid D tx, wt_auth_digest = txauth D tx\<rparr>
      | _ \<Rightarrow> Legacy (txid D tx))"

fun mined_id :: "unmined_tx_id \<Rightarrow> tx_hash" where
  "mined_id (Legacy h) = h"
| "mined_id (Witnessed w) = wt_id w"

fun unmined_auth_digest :: "unmined_tx_id \<Rightarrow> bytes option" where
  "unmined_auth_digest (Legacy h) = None"
| "unmined_auth_digest (Witnessed w) = Some (wt_auth_digest w)"

subsection \<open>Conventional fees (unmined/zip317.rs)\<close>

definition MARGINAL_FEE :: int where "MARGINAL_FEE = 5000"
definition GRACE_ACTIONS :: nat where "GRACE_ACTIONS = 2"
definition P2PKH_STANDARD_INPUT_SIZE :: nat where "P2PKH_STANDARD_INPUT_SIZE = 150"
definition P2PKH_STANDARD_OUTPUT_SIZE :: nat where "P2PKH_STANDARD_OUTPUT_SIZE = 34"
definition BLOCK_UNPAID_ACTION_LIMIT :: nat where "BLOCK_UNPAID_ACTION_LIMIT = 0"
definition MIN_MEMPOOL_TX_FEE_RATE :: nat where "MIN_MEMPOOL_TX_FEE_RATE = 100"
definition MEMPOOL_TX_FEE_REQUIREMENT_CAP :: nat where "MEMPOOL_TX_FEE_REQUIREMENT_CAP = 1000"

lemmas fee_constants = MARGINAL_FEE_def GRACE_ACTIONS_def BLOCK_UNPAID_ACTION_LIMIT_def
  MIN_MEMPOOL_TX_FEE_RATE_def MEMPOOL_TX_FEE_REQUIREMENT_CAP_def

datatype zip317_error = UnpaidActions | FeeBelowMinimumRate | InvalidMinFee

text \<open>Rounding division is a function of a third-party crate, the argument \<open>div_ceil\<close>.\<close>

definition logical_actions :: "(nat \<Rightarrow> nat \<Rightarrow> nat) \<Rightarrow> nat \<Rightarrow> nat \<Rightarrow> transaction \<Rightarrow> nat" where
  "logical_actions div_ceil tx_in_total_size tx_out_total_size tx =
     max (div_ceil tx_in_total_size P2PKH_STANDARD_INPUT_SIZE)
         (div_ceil tx_out_total_size P2PKH_STANDARD_OUTPUT_SIZE)
     + 2 * joinsplit_count tx
     + max (length (sapling_spends_per_anchor tx)) (length (sapling_outputs tx))
     + length (orchard_actions tx)
     + length (ironwood_actions tx)"

definition conventional_actions :: "(nat \<Rightarrow> nat \<Rightarrow> nat) \<Rightarrow> script_lib \<Rightarrow> transaction \<Rightarrow> (nat, zip317_error) outcome" where
  "conventional_actions div_ceil L tx =
     and_then (try_map (zcash_serialized_size (input_serialize L)) (inputs tx)) (\<lambda>in_sizes.
     and_then (try_map (zcash_serialized_size output_serialize) (outputs tx)) (\<lambda>out_sizes.
     and_then (expect (checked 0 u32_max (int (logical_actions div_ceil (sum_list in_sizes) (sum_list out_sizes) tx)))) (\<lambda>n.
       Ok (max GRACE_ACTIONS (nat n)))))"

definition conventional_fee :: "(nat \<Rightarrow> nat \<Rightarrow> nat) \<Rightarrow> script_lib \<Rightarrow> transaction \<Rightarrow> (amount, zip317_error) outcome" where
  "conventional_fee div_ceil L tx =
     and_then (expect_ok (try_from_u64 (valid_range NonNegative) MARGINAL_FEE)) (\<lambda>marginal_fee.
     and_then (conventional_actions div_ceil L tx) (\<lambda>n.
       expect_ok (amount_mul (valid_range NonNegative) marginal_fee (int n))))"

record unmined_tx =
  um_transaction :: transaction
  um_id :: unmined_tx_id
  um_size :: nat
  um_conventional_fee :: amount

definition unmined_tx_from :: "(nat \<Rightarrow> nat \<Rightarrow> nat) \<Rightarrow> script_lib \<Rightarrow> tx_digests \<Rightarrow> transaction \<Rightarrow> (unmined_tx, zip317_error) outcome" where
  "unmined_tx_from div_ceil L D tx =
     and_then (zcash_serialized_size (transaction_serialize L) tx) (\<lambda>size.
     and_then (conventional_fee div_ceil L tx) (\<lambda>fee.
       Ok \<lparr>um_transaction = tx, um_id = unmined_tx_id_from D tx, um_size = size, um_conventional_fee = fee\<rparr>))"

definition unpaid_actions :: "(nat \<Rightarrow> nat \<Rightarrow> nat) \<Rightarrow> script_lib \<Rightarrow> unmined_tx \<Rightarrow> amount \<Rightarrow> (nat, zip317_error) outcome" where
  "unpaid_actions div_ceil L um miner_fee =
     and_then (conventional_actions div_ceil L (um_transaction um)) (\<lambda>n.
     and_then (expect_ok (amount_div (valid_range NonNegative) miner_fee MARGINAL_FEE)) (\<lambda>ratio.
       Ok (case checked 0 u32_max (int n - ratio) of Some u \<Rightarrow> nat u | None \<Rightarrow> 0)))"

definition mempool_checks :: "nat \<Rightarrow> amount \<Rightarrow> nat \<Rightarrow> (unit, zip317_error) outcome" where
  "mempool_checks unpaid miner_fee transaction_size =
     (if unpaid > BLOCK_UNPAID_ACTION_LIMIT then Err UnpaidActions
      else
        let min_fee = max MIN_MEMPOOL_TX_FEE_RATE
              (min MEMPOOL_TX_FEE_REQUIREMENT_CAP (MIN_MEMPOOL_TX_FEE_RATE * transaction_size div 1000)) in
        and_then (map_err (\<lambda>_. InvalidMinFee) (try_from_u64 (valid_range NonNegative) (int min_fee))) (\<lambda>min_fee.
          if miner_fee < min_fee then Err FeeBelowMinimumRate else Ok ()))"

subsection \<open>Verified unmined transactions (transaction/unmined.rs)\<close>

definition MEMPOOL_TRANSACTION_COST_THRESHOLD :: nat where "MEMPOOL_TRANSACTION_COST_THRESHOLD = 10000"
definition MEMPOOL_TRANSACTION_LOW_FEE_PENALTY :: nat where "MEMPOOL_TRANSACTION_LOW_FEE_PENALTY = 40000"

record verified_unmined_tx =
  vu_transaction :: unmined_tx
  vu_miner_fee :: amount
  vu_legacy_sigop_count :: nat
  vu_p2sh_sigop_count :: nat
  vu_conventional_actions :: nat
  vu_unpaid_actions :: nat
  vu_time :: "int option"
  vu_height :: "height option"
  vu_spent_outputs :: "tx_output list"

definition verified_unmined_tx_new ::
  "(nat \<Rightarrow> nat \<Rightarrow> nat) \<Rightarrow> script_lib \<Rightarrow> unmined_tx \<Rightarrow> amount \<Rightarrow> nat \<Rightarrow> nat \<Rightarrow> tx_output list \<Rightarrow>
   (verified_unmined_tx, zip317_error) outcome" where
  "verified_unmined_tx_new div_ceil L um miner_fee legacy_sigops p2sh_sigops spent_outputs =
     and_then (conventional_actions div_ceil L (um_transaction um)) (\<lambda>actions.
     and_then (unpaid_actions div_ceil L um miner_fee) (\<lambda>unpaid.
     and_then (mempool_checks unpaid miner_fee (um_size um)) (\<lambda>_.
       Ok \<lparr>vu_transaction = um, vu_miner_fee = miner_fee, vu_legacy_sigop_count = legacy_sigops,
           vu_p2sh_sigop_count = p2sh_sigops, vu_conventional_actions = actions,
           vu_unpaid_actions = unpaid, vu_time = None, vu_height = None, vu_spent_outputs = spent_outputs\<rparr>)))"

definition block_sigop_count :: "verified_unmined_tx \<Rightarrow> nat" where
  "block_sigop_count v = nat (saturate 0 u32_max (int (vu_legacy_sigop_count v) + int (vu_p2sh_sigop_count v)))"

definition pays_conventional_fee :: "verified_unmined_tx \<Rightarrow> bool" where
  "pays_conventional_fee v \<longleftrightarrow> vu_miner_fee v \<ge> um_conventional_fee (vu_transaction v)"

definition cost :: "verified_unmined_tx \<Rightarrow> nat" where
  "cost v = max (um_size (vu_transaction v)) MEMPOOL_TRANSACTION_COST_THRESHOLD"

definition eviction_weight :: "verified_unmined_tx \<Rightarrow> nat" where
  "eviction_weight v =
     (if pays_conventional_fee v then cost v else cost v + MEMPOOL_TRANSACTION_LOW_FEE_PENALTY)"

lemma eviction_weight_pos: "0 < eviction_weight v"
  by (simp add: eviction_weight_def cost_def MEMPOOL_TRANSACTION_COST_THRESHOLD_def less_max_iff_disj)

subsection \<open>The fee rule\<close>

lemma conventional_actions_bounds:
  assumes "conventional_actions div_ceil L tx = Ok n"
  shows "2 \<le> n \<and> int n \<le> 4294967295"
  using assms by (auto simp: conventional_actions_def GRACE_ACTIONS_def rust_simps u32_max_def)

lemma conventional_fee_eq:
  assumes "conventional_actions div_ceil L tx = Ok n"
  shows "conventional_fee div_ceil L tx = Ok (5000 * int n)"
proof -
  note n = conventional_actions_bounds[OF assms]
  then have "amount_mul (valid_range NonNegative) 5000 (int n) = Ok (5000 * int n)"
    by (simp add: amount_mul_def try_from_i128_def validate_def contains_def checked_def money_defs int_bounds)
  then show ?thesis
    by (simp add: conventional_fee_def assms MARGINAL_FEE_def try_from_u64_def validate_def contains_def
        checked_def money_defs int_bounds)
qed

lemma unpaid_actions_eq:
  assumes "conventional_actions div_ceil L (um_transaction um) = Ok n" "contains (valid_range NonNegative) fee"
  shows "unpaid_actions div_ceil L um fee = Ok (n - nat (fee div 5000))"
proof -
  note n = conventional_actions_bounds[OF assms(1)]
  have fee: "0 \<le> fee" "fee \<le> MAX_MONEY" using assms(2) by (auto simp: contains_def)
  then have d: "0 \<le> fee div 5000" "fee div 5000 \<le> fee" by linarith+
  have "trunc_div fee 5000 = fee div 5000" using fee by (simp add: trunc_div_def)
  then have "amount_div (valid_range NonNegative) fee 5000 = Ok (fee div 5000)"
    using d fee by (simp add: amount_div_def try_from_i128_def validate_def contains_def checked_def money_defs int_bounds)
  then show ?thesis
    using n d by (auto simp: unpaid_actions_def assms(1) MARGINAL_FEE_def checked_def u32_max_def)
qed

lemma unpaid_iff:
  assumes "(0 :: int) \<le> fee"
  shows "n - nat (fee div 5000) = 0 \<longleftrightarrow> 5000 * int n \<le> fee"
proof -
  have "n - nat (fee div 5000) = 0 \<longleftrightarrow> int n \<le> fee div 5000" using assms by (simp add: pos_imp_zdiv_nonneg_iff nat_le_iff) linarith
  then show ?thesis by linarith
qed

lemma mempool_checks_eq:
  assumes "2 \<le> n" "unpaid = n - nat (fee div 5000)" "0 \<le> fee"
  shows "mempool_checks unpaid fee len = (if fee \<ge> 5000 * int n then Ok () else Err UnpaidActions)"
proof (cases "5000 * int n \<le> fee")
  case True
  then have "unpaid = 0" using unpaid_iff assms by simp
  moreover have "10000 \<le> fee" using True assms(1) by linarith
  ultimately show ?thesis
    using True by (auto simp: mempool_checks_def fee_constants Let_def try_from_u64_def validate_def contains_def checked_def
        money_defs int_bounds max_def min_def)
next
  case False
  then have "unpaid > 0" using unpaid_iff[of fee n] assms by simp
  then show ?thesis using False by (simp add: mempool_checks_def fee_constants)
qed

subsection \<open>Properties\<close>

text \<open>
  C27. For a transaction prepared by \<open>UnminedTx::from\<close> and a valid fee, the check that admits it to the
  mempool is equivalent to paying the conventional fee: the limit on unpaid actions rejects exactly
  the lower fees, and the legacy minimum fee rate never rejects. So every admitted transaction has no
  unpaid actions, and the eviction weight of an admitted transaction is its cost: the low fee penalty
  never applies.
\<close>

theorem admitted_iff_conventional_fee:
  assumes "unmined_tx_from div_ceil L D tx = Ok um" "contains (valid_range NonNegative) fee"
  shows "\<exists>n. conventional_actions div_ceil L tx = Ok n \<and> um_conventional_fee um = MARGINAL_FEE * int n \<and>
    verified_unmined_tx_new div_ceil L um fee legacy p2sh spent =
      (if fee \<ge> um_conventional_fee um
       then Ok \<lparr>vu_transaction = um, vu_miner_fee = fee, vu_legacy_sigop_count = legacy,
           vu_p2sh_sigop_count = p2sh, vu_conventional_actions = n, vu_unpaid_actions = 0,
           vu_time = None, vu_height = None, vu_spent_outputs = spent\<rparr>
       else Err UnpaidActions) \<and>
    (\<forall>v. verified_unmined_tx_new div_ceil L um fee legacy p2sh spent = Ok v \<longrightarrow> eviction_weight v = cost v)"
proof -
  from assms(1) obtain f where f: "conventional_fee div_ceil L tx = Ok f" and um: "um_transaction um = tx" "um_conventional_fee um = f"
    by (auto simp: unmined_tx_from_def rust_simps)
  from f obtain n where n: "conventional_actions div_ceil L tx = Ok n" by (auto simp: conventional_fee_def rust_simps)
  have fee: "um_conventional_fee um = 5000 * int n" using conventional_fee_eq[OF n] f um(2) by simp
  have "0 \<le> fee" using assms(2) by (simp add: contains_def)
  note checks = mempool_checks_eq[OF conjunct1[OF conventional_actions_bounds[OF n]] refl this]
  have new: "verified_unmined_tx_new div_ceil L um fee legacy p2sh spent =
      (if fee \<ge> um_conventional_fee um
       then Ok \<lparr>vu_transaction = um, vu_miner_fee = fee, vu_legacy_sigop_count = legacy,
           vu_p2sh_sigop_count = p2sh, vu_conventional_actions = n, vu_unpaid_actions = 0,
           vu_time = None, vu_height = None, vu_spent_outputs = spent\<rparr>
       else Err UnpaidActions)"
    using unpaid_iff[OF \<open>0 \<le> fee\<close>, of n]
    by (simp add: verified_unmined_tx_new_def um(1) n unpaid_actions_eq[OF _ assms(2)] checks fee)
  then have "\<forall>v. verified_unmined_tx_new div_ceil L um fee legacy p2sh spent = Ok v \<longrightarrow> eviction_weight v = cost v"
    by (auto simp: eviction_weight_def pays_conventional_fee_def split: if_splits)
  with n fee new show ?thesis by (auto simp: MARGINAL_FEE_def)
qed

definition sample_digests :: tx_digests where
  "sample_digests = \<lparr>txid = \<lambda>_. replicate 32 0, txauth = \<lambda>_. []\<rparr>"

definition sample_div_ceil :: "nat \<Rightarrow> nat \<Rightarrow> nat" where
  "sample_div_ceil a b = (a + b - 1) div b"

lemma sample_conventional_fee:
  "conventional_actions sample_div_ceil documented_scripts sample_tx = Ok 2" "conventional_fee sample_div_ceil documented_scripts sample_tx = Ok 10000"
proof -
  show n: "conventional_actions sample_div_ceil documented_scripts sample_tx = Ok 2"
    by (simp add: conventional_actions_def sample_tx_def logical_actions_def sample_div_ceil_def joinsplit_count_def
        of_bundle_def orchard_actions_def ironwood_actions_def GRACE_ACTIONS_def checked_def int_bounds
        P2PKH_STANDARD_INPUT_SIZE_def P2PKH_STANDARD_OUTPUT_SIZE_def)
  show "conventional_fee sample_div_ceil documented_scripts sample_tx = Ok 10000" using conventional_fee_eq[OF n] by simp
qed

theorem admitted_iff_conventional_fee_witness:
  "\<exists>um. unmined_tx_from sample_div_ceil documented_scripts sample_digests sample_tx = Ok um \<and>
     verified_unmined_tx_new sample_div_ceil documented_scripts um 9999 0 0 [] = Err UnpaidActions \<and>
     (\<exists>v. verified_unmined_tx_new sample_div_ceil documented_scripts um 10000 0 0 [] = Ok v \<and> eviction_weight v = cost v)"
proof -
  from sample_tx_valid(3) obtain b where "transaction_serialize documented_scripts sample_tx = Ok b"
    using transaction_strict_of[OF documented.coinbase_scripts_axioms sample_tx_valid(1)] sample_tx_valid(2) by auto
  then obtain um where um: "unmined_tx_from sample_div_ceil documented_scripts sample_digests sample_tx = Ok um" "um_conventional_fee um = 10000"
    by (auto simp: unmined_tx_from_def zcash_serialized_size_def sample_conventional_fee)
  have fees: "contains (valid_range NonNegative) 9999" "contains (valid_range NonNegative) 10000"
    by (simp_all add: contains_def money_defs)
  from admitted_iff_conventional_fee[OF um(1) fees(1), of 0 0 "[]"] admitted_iff_conventional_fee[OF um(1) fees(2), of 0 0 "[]"]
  show ?thesis using um by auto
qed

end
