(* ===== verification/Hash_Collections.thy ===== *)
theory Hash_Collections
  imports Rust_Prelude "HOL-Library.FSet" "HOL-Library.Finite_Map" "HOL-Library.List_Lexorder"
begin

section \<open>Hash sets and hash maps\<close>

text \<open>
  \<open>HashSet<T>\<close> is a finite set and \<open>HashMap<K, V>\<close> a finite map. The order in which the standard
  library iterates over them is not specified: it is an argument \<open>order\<close> of the operations that
  iterate, and the locale \<open>hash_order\<close> states the only thing it promises, that every element comes
  exactly once. Sorted iteration is an instance.
\<close>

type_synonym 'a hash_set = "'a fset"
type_synonym ('k, 'v) hash_map = "('k, 'v) fmap"

locale hash_order =
  fixes order :: "'a hash_set \<Rightarrow> 'a list"
  assumes set_order [simp]: "set (order A) = fset A"
    and distinct_order [simp]: "distinct (order A)"
begin

lemma order_eq_Nil_iff [simp]: "order A = [] \<longleftrightarrow> A = {||}"
  using set_order[of A] by (metis bot_fset.rep_eq fset_cong set_empty)

lemma order_singleton: "order {|x|} = [x]"
proof (cases "order {|x|}")
  case (Cons y ys)
  then show ?thesis using set_order[of "{|x|}"] distinct_order[of "{|x|}"] by (cases ys) auto
qed simp

lemma order_empty [simp]: "order {||} = []"
  by simp

end

interpretation sorted_order: hash_order "sorted_list_of_fset :: ('a :: linorder) fset \<Rightarrow> 'a list"
  by unfold_locales (simp_all add: sorted_list_of_fset.rep_eq)

subsection \<open>Maps to sets\<close>

text \<open>\<open>unwrap_or_default\<close> of a set, \<open>entry(k).or_default().insert(x)\<close>, and the removal of an element
  followed by the removal of the entry when its set became empty.\<close>

definition or_empty :: "'a hash_set option \<Rightarrow> 'a hash_set" where
  "or_empty s = (case s of None \<Rightarrow> {||} | Some s \<Rightarrow> s)"

definition entry_insert :: "'k \<Rightarrow> 'a \<Rightarrow> ('k, 'a hash_set) hash_map \<Rightarrow> ('k, 'a hash_set) hash_map" where
  "entry_insert k x m = fmupd k (finsert x (or_empty (fmlookup m k))) m"

definition entry_remove :: "'a \<Rightarrow> 'k \<Rightarrow> ('k, 'a hash_set) hash_map \<Rightarrow> ('k, 'a hash_set) hash_map" where
  "entry_remove x k m =
     (case fmlookup m k of
        None \<Rightarrow> m
      | Some s \<Rightarrow> let s = s |-| {|x|} in if s = {||} then fmdrop k m else fmupd k s m)"

text \<open>The pairs of a map to sets; maps without empty sets are determined by them.\<close>

definition edges :: "('k, 'a hash_set) hash_map \<Rightarrow> ('k \<times> 'a) set" where
  "edges m = {(k, x). x |\<in>| or_empty (fmlookup m k)}"

definition no_empty :: "('k, 'a hash_set) hash_map \<Rightarrow> bool" where
  "no_empty m \<longleftrightarrow> (\<forall>k. fmlookup m k \<noteq> Some {||})"

lemma or_empty_simps [simp]: "or_empty None = {||}" "or_empty (Some s) = s"
  by (simp_all add: or_empty_def)

lemma in_edges [simp]: "(k, x) \<in> edges m \<longleftrightarrow> x |\<in>| or_empty (fmlookup m k)"
  by (simp add: edges_def)

lemma edges_empty [simp]: "edges fmempty = {}" "no_empty fmempty"
  by (auto simp: edges_def no_empty_def)

lemma edges_entry_insert [simp]: "edges (entry_insert k x m) = insert (k, x) (edges m)"
  by (auto simp: entry_insert_def split: if_splits)

lemma no_empty_entry_insert [simp]: "no_empty m \<Longrightarrow> no_empty (entry_insert k x m)"
  by (auto simp: entry_insert_def no_empty_def)

lemma edges_entry_remove [simp]: "edges (entry_remove x k m) = edges m - {(k, x)}"
  by (auto simp: entry_remove_def Let_def split: option.splits if_splits)

lemma no_empty_entry_remove [simp]: "no_empty m \<Longrightarrow> no_empty (entry_remove x k m)"
  by (auto simp: entry_remove_def no_empty_def Let_def split: option.splits)

lemma edges_fmdrop [simp]: "edges (fmdrop k m) = {(a, b) \<in> edges m. a \<noteq> k}"
  by (auto simp: edges_def split: if_splits)

lemma no_empty_fmdrop [simp]: "no_empty m \<Longrightarrow> no_empty (fmdrop k m)"
  by (auto simp: no_empty_def)

lemma edges_fmupd [simp]: "edges (fmupd k s m) = {(a, b) \<in> edges m. a \<noteq> k} \<union> Pair k ` fset s"
  by (auto simp: edges_def split: if_splits)

lemma no_empty_fmupd [simp]: "no_empty m \<Longrightarrow> s \<noteq> {||} \<Longrightarrow> no_empty (fmupd k s m)"
  by (auto simp: no_empty_def)

lemma fmdom_entry_remove: "fmdom (entry_remove x k m) |\<subseteq>| fmdom m"
  by (auto simp: entry_remove_def Let_def fmlookup_dom_iff split: option.splits)

lemma edges_fold_entry_remove:
  "edges (fold (entry_remove x) ks m) = edges m - {(k, x) | k. k \<in> set ks}"
  by (induction ks arbitrary: m) auto

lemma no_empty_fold_entry_remove: "no_empty m \<Longrightarrow> no_empty (fold (entry_remove x) ks m)"
  by (induction ks arbitrary: m) auto

lemma fmdom_fold_entry_remove: "fmdom (fold (entry_remove x) ks m) |\<subseteq>| fmdom m"
proof (induction ks arbitrary: m)
  case (Cons k ks)
  from Cons[of "entry_remove x k m"] fmdom_entry_remove[of x k m] show ?case by simp
qed simp

subsection \<open>Iteration over maps\<close>

definition hm_iter :: "('k hash_set \<Rightarrow> 'k list) \<Rightarrow> ('k, 'v) hash_map \<Rightarrow> ('k \<times> 'v) list" where
  "hm_iter order m = List.map_filter (\<lambda>k. map_option (Pair k) (fmlookup m k)) (order (fmdom m))"

context hash_order
begin

lemma set_hm_iter: "set (hm_iter order m) = {(k, v). fmlookup m k = Some v}"
proof -
  have "(k, v) \<in> set (List.map_filter (\<lambda>k. map_option (Pair k) (fmlookup m k)) ks) \<longleftrightarrow> k \<in> set ks \<and> fmlookup m k = Some v" for k v ks
    by (induction ks) (auto simp: map_filter_simps split: option.splits)
  then show ?thesis by (auto simp: hm_iter_def intro: fmdomI)
qed

lemma keys_hm_iter: "map fst (hm_iter order m) = order (fmdom m)"
proof -
  have "map fst (List.map_filter (\<lambda>k. map_option (Pair k) (fmlookup m k)) ks) = ks" if "set ks \<subseteq> fset (fmdom m)" for ks
    using that by (induction ks) (auto simp: map_filter_simps fmlookup_dom_iff)
  then show ?thesis by (simp add: hm_iter_def)
qed

lemma distinct_hm_iter: "distinct (map fst (hm_iter order m))"
  by (simp add: keys_hm_iter)

end

end
