(* ===== verification/Mempool_Dependencies.thy ===== *)
theory Mempool_Dependencies
  imports Hash_Collections Transparent
begin

section \<open>Dependencies between mempool transactions (zebra-node-services/src/mempool/transaction_dependencies.rs)\<close>

text \<open>
  Which transactions of the mempool spend outputs of which others, kept in both directions. The
  invariant says that the two maps are inverse to each other and hold no empty sets.
\<close>

record transaction_dependencies =
  td_dependencies :: "(tx_hash, tx_hash hash_set) hash_map"
  td_dependents :: "(tx_hash, tx_hash hash_set) hash_map"

subsection \<open>Operations\<close>

definition td_default :: transaction_dependencies where
  "td_default = \<lparr>td_dependencies = fmempty, td_dependents = fmempty\<rparr>"

definition td_add :: "tx_hash \<Rightarrow> outpoint list \<Rightarrow> transaction_dependencies \<Rightarrow> transaction_dependencies" where
  "td_add dependent spent_mempool_outpoints d =
     d\<lparr>td_dependents := fold (\<lambda>p. entry_insert (op_hash p) dependent) spent_mempool_outpoints (td_dependents d),
       td_dependencies :=
         (if spent_mempool_outpoints = [] then td_dependencies d
          else fmupd dependent (fset_of_list (map op_hash spent_mempool_outpoints)) (td_dependencies d))\<rparr>"

text \<open>One mined transaction: its entry is removed, and it is removed from what depends on it.\<close>

definition clear_mined ::
  "(tx_hash hash_set \<Rightarrow> tx_hash list) \<Rightarrow> tx_hash \<Rightarrow> transaction_dependencies \<Rightarrow> transaction_dependencies" where
  "clear_mined order mined_tx_id d =
     d\<lparr>td_dependents := fmdrop mined_tx_id (td_dependents d),
       td_dependencies :=
         fold (entry_remove mined_tx_id) (order (or_empty (fmlookup (td_dependents d) mined_tx_id)))
           (td_dependencies d)\<rparr>"

definition clear_mined_dependencies ::
  "(tx_hash hash_set \<Rightarrow> tx_hash list) \<Rightarrow> tx_hash hash_set \<Rightarrow> transaction_dependencies \<Rightarrow> transaction_dependencies" where
  "clear_mined_dependencies order mined_ids d = fold (clear_mined order) (order mined_ids) d"

text \<open>The closure of the loop body: the dependents of one transaction, which leaves both maps.\<close>

definition remove_one ::
  "(tx_hash hash_set \<Rightarrow> tx_hash list) \<Rightarrow> tx_hash \<Rightarrow> transaction_dependencies \<Rightarrow>
   tx_hash hash_set \<times> transaction_dependencies" where
  "remove_one order dependent d =
     (let dependents = fold (entry_remove dependent) (order (or_empty (fmlookup (td_dependencies d) dependent)))
            (td_dependents d) in
      (or_empty (fmlookup dependents dependent),
       d\<lparr>td_dependencies := fmdrop dependent (td_dependencies d), td_dependents := fmdrop dependent dependents\<rparr>))"

fun remove_level ::
  "(tx_hash hash_set \<Rightarrow> tx_hash list) \<Rightarrow> tx_hash list \<Rightarrow> transaction_dependencies \<Rightarrow>
   tx_hash hash_set \<times> transaction_dependencies" where
  "remove_level order [] d = ({||}, d)"
| "remove_level order (x # xs) d =
     (let (found, d) = remove_one order x d; (rest, d) = remove_level order xs d in (found |\<union>| rest, d))"

lemma remove_one_dom:
  assumes "remove_one order x d = (found, d')"
  shows "fmdom (td_dependents d') |\<subseteq>| fmdom (td_dependents d)"
    and "found \<noteq> {||} \<Longrightarrow> fmdom (td_dependents d') |\<subset>| fmdom (td_dependents d)"
proof -
  let ?m = "fold (entry_remove x) (order (or_empty (fmlookup (td_dependencies d) x))) (td_dependents d)"
  have m: "fmdom ?m |\<subseteq>| fmdom (td_dependents d)" by (rule fmdom_fold_entry_remove)
  have d': "td_dependents d' = fmdrop x ?m" "found = or_empty (fmlookup ?m x)"
    using assms by (auto simp: remove_one_def Let_def)
  show "fmdom (td_dependents d') |\<subseteq>| fmdom (td_dependents d)" using m d' by auto
  assume "found \<noteq> {||}"
  then have "x |\<in>| fmdom ?m" using d' by (cases "fmlookup ?m x") (auto intro: fmdomI)
  with m d' show "fmdom (td_dependents d') |\<subset>| fmdom (td_dependents d)" by auto
qed

lemma remove_level_dom:
  assumes "remove_level order xs d = (found, d')"
  shows "fmdom (td_dependents d') |\<subseteq>| fmdom (td_dependents d)"
    and "found \<noteq> {||} \<Longrightarrow> fmdom (td_dependents d') |\<subset>| fmdom (td_dependents d)"
proof -
  have "fmdom (td_dependents d') |\<subseteq>| fmdom (td_dependents d) \<and>
    (found \<noteq> {||} \<longrightarrow> fmdom (td_dependents d') |\<subset>| fmdom (td_dependents d))"
    using assms
  proof (induction xs arbitrary: d found)
    case (Cons x xs)
    obtain f1 d1 where one: "remove_one order x d = (f1, d1)" by fastforce
    from Cons.prems obtain f2 where rest: "remove_level order xs d1 = (f2, d')" "found = f1 |\<union>| f2"
      by (auto simp: one split: prod.splits)
    with remove_one_dom[OF one] Cons.IH[OF rest(1)] show ?case by auto
  qed simp
  then show "fmdom (td_dependents d') |\<subseteq>| fmdom (td_dependents d)"
    and "found \<noteq> {||} \<Longrightarrow> fmdom (td_dependents d') |\<subset>| fmdom (td_dependents d)" by auto
qed

text \<open>
  The loop over the levels of dependents. A level that finds dependents removes an entry, so the loop
  ends after at most one more round than there are entries, whatever the maps hold.
\<close>

function remove_levels ::
  "(tx_hash hash_set \<Rightarrow> tx_hash list) \<Rightarrow> tx_hash hash_set \<Rightarrow> tx_hash hash_set \<Rightarrow> transaction_dependencies \<Rightarrow>
   tx_hash hash_set \<times> transaction_dependencies" where
  "remove_levels order level all_dependents d =
     (if level = {||} then (all_dependents, d)
      else
        let (found, d') = remove_level order (order level) d in
        remove_levels order found (all_dependents |\<union>| found) d')"
  by pat_completeness auto
termination
proof (relation "measures [\<lambda>(order, level, all, d). fcard (fmdom (td_dependents d)),
    \<lambda>(order, level, all, d). if level = {||} then 0 else 1]", goal_cases)
  case (2 order level all d p found d')
  then have l: "remove_level order (order level) d = (found, d')" by simp
  show ?case
  proof (cases "found = {||}")
    case True
    have "fcard (fmdom (td_dependents d')) \<le> fcard (fmdom (td_dependents d))"
      by (rule fcard_mono[OF remove_level_dom(1)[OF l]])
    with True 2(1) show ?thesis by auto
  next
    case False
    from pfsubset_fcard_mono[OF remove_level_dom(2)[OF l False]] show ?thesis by simp
  qed
qed simp

declare remove_levels.simps [simp del]

definition remove_all ::
  "(tx_hash hash_set \<Rightarrow> tx_hash list) \<Rightarrow> tx_hash \<Rightarrow> transaction_dependencies \<Rightarrow>
   tx_hash hash_set \<times> transaction_dependencies" where
  "remove_all order tx_hash d = remove_levels order {|tx_hash|} {||} d"

definition direct_dependents :: "tx_hash \<Rightarrow> transaction_dependencies \<Rightarrow> tx_hash hash_set" where
  "direct_dependents h d = or_empty (fmlookup (td_dependents d) h)"

definition direct_dependencies :: "tx_hash \<Rightarrow> transaction_dependencies \<Rightarrow> tx_hash hash_set" where
  "direct_dependencies h d = or_empty (fmlookup (td_dependencies d) h)"

definition td_clear :: "transaction_dependencies \<Rightarrow> transaction_dependencies" where
  "td_clear d = d\<lparr>td_dependencies := fmempty, td_dependents := fmempty\<rparr>"

subsection \<open>The dependency relation\<close>

definition depends :: "transaction_dependencies \<Rightarrow> tx_hash rel" where
  "depends d = edges (td_dependents d)"

definition td_inv :: "transaction_dependencies \<Rightarrow> bool" where
  "td_inv d \<longleftrightarrow> edges (td_dependencies d) = (depends d)\<inverse> \<and> no_empty (td_dependencies d) \<and> no_empty (td_dependents d)"

lemma dependency_iff: "td_inv d \<Longrightarrow> a |\<in>| or_empty (fmlookup (td_dependencies d) b) \<longleftrightarrow> (a, b) \<in> depends d"
  by (metis converse_iff in_edges td_inv_def)

lemma dependent_iff: "b |\<in>| or_empty (fmlookup (td_dependents d) a) \<longleftrightarrow> (a, b) \<in> depends d"
  by (simp add: depends_def)

text \<open>The relation without the nodes of a set.\<close>

definition without :: "'a rel \<Rightarrow> 'a set \<Rightarrow> 'a rel" where
  "without R S = {(a, b) \<in> R. a \<notin> S \<and> b \<notin> S}"

lemma without_without [simp]: "without (without R S) T = without R (S \<union> T)"
  by (auto simp: without_def)

lemma without_empty [simp]: "without R {} = R"
  by (auto simp: without_def)

lemma closure_step:
  assumes "R `` level - level \<subseteq> next" "next \<subseteq> R `` level"
  shows "R\<^sup>* `` level = level \<union> (without R level)\<^sup>* `` next"
proof
  show "R\<^sup>* `` level \<subseteq> level \<union> (without R level)\<^sup>* `` next"
  proof
    fix b assume "b \<in> R\<^sup>* `` level"
    then obtain a where "a \<in> level" "(a, b) \<in> R\<^sup>*" by blast
    from this(2,1) show "b \<in> level \<union> (without R level)\<^sup>* `` next"
    proof (induction rule: rtrancl_induct)
      case (step b c)
      show ?case
      proof (cases "c \<in> level \<or> b \<in> level")
        case True
        then show ?thesis using assms(1) step(2) by auto
      next
        case False
        then have "(b, c) \<in> without R level" using step(2) by (simp add: without_def)
        then show ?thesis using False step.IH[OF step.prems] by (auto intro: rtrancl_into_rtrancl)
      qed
    qed simp
  qed
  have "without R level \<subseteq> R" by (auto simp: without_def)
  note mono = rtrancl_mono[OF this]
  have "(without R level)\<^sup>* `` next \<subseteq> R\<^sup>* `` level"
  proof
    fix b assume "b \<in> (without R level)\<^sup>* `` next"
    then obtain x where "x \<in> next" "(x, b) \<in> R\<^sup>*" using mono by blast
    moreover from this(1) assms(2) obtain a where "a \<in> level" "(a, x) \<in> R" by blast
    ultimately show "b \<in> R\<^sup>* `` level" by (meson ImageI converse_rtrancl_into_rtrancl)
  qed
  then show "level \<union> (without R level)\<^sup>* `` next \<subseteq> R\<^sup>* `` level" by auto
qed

subsection \<open>What the operations do to the relation\<close>

lemma td_inv_default: "td_inv td_default" "depends td_default = {}"
  by (auto simp: td_inv_def depends_def td_default_def)

lemma td_inv_clear: "td_inv (td_clear d)" "depends (td_clear d) = {}"
  by (auto simp: td_inv_def depends_def td_clear_def)

lemma fold_entry_insert:
  "edges (fold (\<lambda>p. entry_insert (op_hash p) x) ps m) = (\<lambda>p. (op_hash p, x)) ` set ps \<union> edges m"
  "no_empty m \<Longrightarrow> no_empty (fold (\<lambda>p. entry_insert (op_hash p) x) ps m)"
  by (induction ps arbitrary: m) auto

lemma td_add_spec:
  assumes "td_inv d" "fmlookup (td_dependencies d) x = None"
  shows "depends (td_add x ps d) = depends d \<union> (\<lambda>p. (op_hash p, x)) ` set ps" "td_inv (td_add x ps d)"
proof -
  show rel: "depends (td_add x ps d) = depends d \<union> (\<lambda>p. (op_hash p, x)) ` set ps"
    by (auto simp: depends_def td_add_def fold_entry_insert)
  have no: "(a, x) \<notin> depends d" for a
    using assms(2) dependency_iff[OF assms(1), of a x] by simp
  have "fset_of_list (map op_hash ps) \<noteq> {||}" if "ps \<noteq> []"
    using that by (cases ps) auto
  then have "edges (td_dependencies (td_add x ps d)) = (depends (td_add x ps d))\<inverse>"
    using assms(1) no unfolding rel
    by (auto simp: td_inv_def td_add_def fset_of_list.rep_eq split: if_splits)
  then show "td_inv (td_add x ps d)"
    using assms(1) by (auto simp: td_inv_def td_add_def fold_entry_insert(2) neq_Nil_conv)
qed

lemma clear_mined_spec:
  assumes "hash_order order" "td_inv d"
  shows "depends (clear_mined order x d) = {(a, b) \<in> depends d. a \<noteq> x}" "td_inv (clear_mined order x d)"
proof -
  show rel: "depends (clear_mined order x d) = {(a, b) \<in> depends d. a \<noteq> x}"
    by (auto simp: depends_def clear_mined_def)
  have "edges (td_dependencies (clear_mined order x d)) = (depends (clear_mined order x d))\<inverse>"
    using assms(2) unfolding rel
    by (auto simp: td_inv_def depends_def clear_mined_def edges_fold_entry_remove hash_order.set_order[OF assms(1)])
  then show "td_inv (clear_mined order x d)"
    using assms(2) by (auto simp: td_inv_def clear_mined_def no_empty_fold_entry_remove)
qed

lemma clear_mined_dependencies_spec:
  assumes "hash_order order" "td_inv d"
  shows "depends (clear_mined_dependencies order mined d) = {(a, b) \<in> depends d. a |\<notin>| mined}"
    "td_inv (clear_mined_dependencies order mined d)"
proof -
  have "depends (fold (clear_mined order) xs d) = {(a, b) \<in> depends d. a \<notin> set xs} \<and>
    td_inv (fold (clear_mined order) xs d)" for xs
    using assms(2)
  proof (induction xs arbitrary: d)
    case (Cons x xs)
    show ?case
      using Cons.IH[OF clear_mined_spec(2)[OF assms(1) Cons.prems]] clear_mined_spec(1)[OF assms(1) Cons.prems] by auto
  qed auto
  from this[of "order mined"] show "depends (clear_mined_dependencies order mined d) = {(a, b) \<in> depends d. a |\<notin>| mined}"
    "td_inv (clear_mined_dependencies order mined d)"
    by (auto simp: clear_mined_dependencies_def hash_order.set_order[OF assms(1)])
qed

text \<open>
  While the levels are removed, the dependencies of the transactions of the next level still name
  removed transactions; everywhere else the maps stay inverse to each other.
\<close>

definition td_pending :: "transaction_dependencies \<Rightarrow> tx_hash set \<Rightarrow> bool" where
  "td_pending d pending \<longleftrightarrow>
     (\<forall>a b. (a, b) \<in> depends d \<longrightarrow> (b, a) \<in> edges (td_dependencies d)) \<and>
     (\<forall>a b. (b, a) \<in> edges (td_dependencies d) \<longrightarrow> (a, b) \<in> depends d \<or> b \<in> pending) \<and>
     no_empty (td_dependencies d) \<and> no_empty (td_dependents d)"

lemma td_pending_empty: "td_pending d {} \<longleftrightarrow> td_inv d"
  unfolding td_pending_def td_inv_def by (auto simp del: in_edges)

lemma remove_one_spec:
  assumes "hash_order order" "td_pending d P" "remove_one order x d = (found, d')"
  shows "depends d' = without (depends d) {x}" "fset found = depends d `` {x} - {x}"
    "td_pending d' ((P - {x}) \<union> fset found)"
proof -
  let ?m = "fold (entry_remove x) (order (or_empty (fmlookup (td_dependencies d) x))) (td_dependents d)"
  have d': "td_dependents d' = fmdrop x ?m" "td_dependencies d' = fmdrop x (td_dependencies d)"
    "found = or_empty (fmlookup ?m x)"
    using assms(3) by (auto simp: remove_one_def Let_def)
  have "edges ?m = depends d - {(k, x) | k. (x, k) \<in> edges (td_dependencies d)}"
    by (simp add: edges_fold_entry_remove hash_order.set_order[OF assms(1)] depends_def)
  then have m: "edges ?m = {(a, b) \<in> depends d. b \<noteq> x}"
    using assms(2) unfolding td_pending_def by blast
  show rel: "depends d' = without (depends d) {x}" using m by (auto simp: depends_def d'(1) without_def)
  show found: "fset found = depends d `` {x} - {x}"
    using m unfolding d'(3) set_eq_iff by (auto simp del: in_edges simp: in_edges[symmetric])
  have "(b, a) \<in> edges (td_dependencies d')" if "(a, b) \<in> depends d'" for a b
    using that assms(2) unfolding rel d'(2) edges_fmdrop td_pending_def by (auto simp: without_def simp del: in_edges)
  moreover have "(a, b) \<in> depends d' \<or> b \<in> (P - {x}) \<union> fset found" if "(b, a) \<in> edges (td_dependencies d')" for a b
    using that assms(2) unfolding rel found d'(2) edges_fmdrop td_pending_def by (auto simp: without_def simp del: in_edges)
  moreover have "no_empty (td_dependencies d')" "no_empty (td_dependents d')"
    using assms(2) by (auto simp: td_pending_def d' no_empty_fold_entry_remove)
  ultimately show "td_pending d' ((P - {x}) \<union> fset found)" unfolding td_pending_def by blast
qed

lemma remove_level_spec:
  assumes "hash_order order" "td_pending d P" "remove_level order xs d = (found, d')"
  shows "depends d' = without (depends d) (set xs) \<and> fset found \<subseteq> depends d `` set xs \<and>
    depends d `` set xs - set xs \<subseteq> fset found \<and> td_pending d' ((P - set xs) \<union> fset found)"
  using assms(2,3)
proof (induction xs arbitrary: d P found)
  case (Cons x xs)
  obtain f1 d1 where one: "remove_one order x d = (f1, d1)" by fastforce
  from Cons.prems(2) obtain f2 where rest: "remove_level order xs d1 = (f2, d')" "found = f1 |\<union>| f2"
    by (auto simp: one split: prod.splits)
  note o = remove_one_spec[OF assms(1) Cons.prems(1) one]
  note IH = Cons.IH[OF o(3) rest(1)]
  have "depends d' = without (depends d) (set (x # xs))" using IH o(1) by simp
  moreover have "fset found \<subseteq> depends d `` set (x # xs)" "depends d `` set (x # xs) - set (x # xs) \<subseteq> fset found"
    using IH o(1,2) unfolding rest(2) by (auto simp: without_def)
  moreover have "td_pending d' ((P - set (x # xs)) \<union> fset found)"
  proof -
    have "(P - {x} \<union> fset f1 - set xs) \<union> fset f2 \<subseteq> (P - set (x # xs)) \<union> fset found"
      unfolding rest(2) by auto
    with IH show ?thesis unfolding td_pending_def by blast
  qed
  ultimately show ?case by blast
qed (auto simp: td_pending_def)

lemma remove_levels_spec:
  assumes "hash_order order" "td_pending d (fset level)" "remove_levels order level all d = (found, d')"
  shows "depends d' = without (depends d) ((depends d)\<^sup>* `` fset level) \<and> td_inv d' \<and>
    (\<exists>X. fset found = fset all \<union> X \<and> (depends d)\<^sup>* `` fset level - fset level \<subseteq> X \<and>
      X \<subseteq> (depends d)\<^sup>+ `` fset level)"
  using assms
proof (induction order level all d arbitrary: found rule: remove_levels.induct)
  case (1 order level all d)
  show ?case
  proof (cases "level = {||}")
    case True
    then show ?thesis using "1.prems" by (auto simp: remove_levels.simps td_pending_empty)
  next
    case False
    obtain f d1 where l: "remove_level order (order level) d = (f, d1)" by fastforce
    have ls: "set (order level) = fset level" using "1.prems"(1) by (rule hash_order.set_order)
    note lv = remove_level_spec[OF "1.prems"(1,2) l, unfolded ls]
    from lv have pend: "td_pending d1 (fset f)" by simp
    have rest: "remove_levels order f (all |\<union>| f) d1 = (found, d')"
      using "1.prems"(3) False by (simp add: remove_levels.simps[of order level] l)
    from "1.IH"[OF False l[symmetric] refl "1.prems"(1) pend rest] obtain X where
      X: "depends d' = without (depends d1) ((depends d1)\<^sup>* `` fset f)" "td_inv d'"
        "fset found = fset (all |\<union>| f) \<union> X" "(depends d1)\<^sup>* `` fset f - fset f \<subseteq> X"
        "X \<subseteq> (depends d1)\<^sup>+ `` fset f" by blast
    have d1: "depends d1 = without (depends d) (fset level)" using lv by blast
    have cl: "(depends d)\<^sup>* `` fset level = fset level \<union> (depends d1)\<^sup>* `` fset f"
      unfolding d1 by (rule closure_step) (use lv in auto)
    have "(depends d1)\<^sup>+ `` fset f \<subseteq> (depends d)\<^sup>+ `` fset level"
    proof
      fix b assume "b \<in> (depends d1)\<^sup>+ `` fset f"
      then obtain a c where "c \<in> fset level" "(c, a) \<in> depends d" "(a, b) \<in> (depends d1)\<^sup>+" using lv by blast
      moreover have "depends d1 \<subseteq> depends d" by (auto simp: d1 without_def)
      ultimately show "b \<in> (depends d)\<^sup>+ `` fset level"
        by (meson ImageI trancl_into_trancl2 trancl_mono)
    qed
    moreover have "fset f \<subseteq> (depends d)\<^sup>+ `` fset level" using lv by blast
    ultimately have "fset f \<union> X \<subseteq> (depends d)\<^sup>+ `` fset level" using X(5) by blast
    moreover have "(depends d)\<^sup>* `` fset level - fset level \<subseteq> fset f \<union> X" using X(4) cl by blast
    moreover have "fset found = fset all \<union> (fset f \<union> X)" using X(3) by auto
    moreover have "depends d' = without (depends d) ((depends d)\<^sup>* `` fset level)"
      unfolding X(1) cl by (metis d1 without_without)
    ultimately show ?thesis using X(2) by blast
  qed
qed

text \<open>Removing a transaction finds exactly the other transactions that depend on it, directly or not.\<close>

lemma remove_all_spec:
  assumes "hash_order order" "td_inv d" "remove_all order x d = (found, d')"
  shows "fset found = (depends d)\<^sup>+ `` {x} - {x}" "depends d' = without (depends d) (insert x (fset found))" "td_inv d'"
proof -
  obtain f d1 where l: "remove_level order (order {|x|}) d = (f, d1)" by fastforce
  have "order {|x|} = [x]" by (rule hash_order.order_singleton[OF assms(1)])
  then have one: "remove_one order x d = (f, d1)" using l by (auto split: prod.splits)
  note o = remove_one_spec[OF assms(1) assms(2)[folded td_pending_empty] one]
  have rest: "remove_levels order f f d1 = (found, d')"
    using assms(3) l by (simp add: remove_all_def remove_levels.simps[of order "{|x|}"])
  have "td_pending d1 (fset f)" using o(3) by simp
  from remove_levels_spec[OF assms(1) this rest] obtain X where
    X: "depends d' = without (depends d1) ((depends d1)\<^sup>* `` fset f)" "td_inv d'"
      "fset found = fset f \<union> X" "(depends d1)\<^sup>* `` fset f - fset f \<subseteq> X" "X \<subseteq> (depends d1)\<^sup>+ `` fset f" by blast
  have "(depends d1)\<^sup>+ `` fset f \<subseteq> (depends d1)\<^sup>* `` fset f" by (auto intro: trancl_into_rtrancl)
  then have found: "fset found = (depends d1)\<^sup>* `` fset f"
    using X(3-5) by blast
  have cl: "(depends d)\<^sup>* `` {x} = {x} \<union> (depends d1)\<^sup>* `` fset f"
    unfolding o(1) by (rule closure_step) (use o(2) in auto)
  have nx: "x \<notin> (depends d1)\<^sup>* `` fset f"
  proof
    assume "x \<in> (depends d1)\<^sup>* `` fset f"
    then obtain a where "a \<in> fset f" "(a, x) \<in> (depends d1)\<^sup>*" by blast
    then show False using o(1,2) by (auto elim: rtranclE simp: without_def)
  qed
  have "(depends d)\<^sup>+ `` {x} - {x} = (depends d)\<^sup>* `` {x} - {x}"
    by (auto simp: rtrancl_eq_or_trancl)
  with cl nx found show f: "fset found = (depends d)\<^sup>+ `` {x} - {x}" by auto
  show "td_inv d'" by (rule X(2))
  show "depends d' = without (depends d) (insert x (fset found))"
    unfolding X(1) found o(1) by simp
qed

subsection \<open>Properties\<close>

text \<open>
  C28. Removing a transaction from the dependencies finds exactly the transactions that depend on it,
  directly or through others, whatever the order of iteration and also when the recorded dependencies
  have cycles. Afterwards exactly the pairs that mention the removed transactions are gone, from both
  maps.
\<close>

theorem remove_all_is_closure:
  assumes "hash_order order" "td_inv d"
  shows "\<exists>found d'. remove_all order x d = (found, d') \<and> fset found = (depends d)\<^sup>+ `` {x} - {x} \<and>
    depends d' = {(a, b) \<in> depends d. a \<noteq> x \<and> b \<noteq> x \<and> a |\<notin>| found \<and> b |\<notin>| found} \<and> td_inv d'"
proof -
  obtain found d' where r: "remove_all order x d = (found, d')" by fastforce
  from remove_all_spec[OF assms r] show ?thesis
    by (intro exI[of _ found] exI[of _ d']) (auto simp: r without_def)
qed

definition sample_dependencies :: transaction_dependencies where
  "sample_dependencies = td_add [3] [\<lparr>op_hash = [2], op_index = 0\<rparr>] (td_add [2] [\<lparr>op_hash = [1], op_index = 5\<rparr>] td_default)"

lemma sample_dependencies_inv:
  "td_inv sample_dependencies" "depends sample_dependencies = {([1], [2]), ([2], [3])}"
proof -
  let ?d = "td_add [2] [\<lparr>op_hash = [1], op_index = 5\<rparr>] td_default"
  have d: "depends ?d = {([1], [2])}" "td_inv ?d"
    using td_add_spec[OF td_inv_default(1), of "[2]"] by (simp_all add: td_inv_default) (simp_all add: td_default_def)
  have "fmlookup (td_dependencies ?d) [3] = None" by (simp add: td_add_def td_default_def)
  from td_add_spec[OF d(2) this] d show "td_inv sample_dependencies" "depends sample_dependencies = {([1], [2]), ([2], [3])}"
    by (auto simp: sample_dependencies_def)
qed

theorem remove_all_is_closure_witness:
  "\<exists>found d'. remove_all sorted_list_of_fset [1] sample_dependencies = (found, d') \<and>
     fset found = {[2], [3]} \<and> depends d' = {}"
proof -
  have "([1] :: bytes, x) \<in> {([1], [2]), ([2], [3])}\<^sup>+ \<longleftrightarrow> x = [2] \<or> x = [3]" for x
  proof
    assume "([1], x) \<in> {([1], [2]), ([2], [3])}\<^sup>+" then show "x = [2] \<or> x = [3]" by (induction rule: trancl_induct) auto
  next
    assume "x = [2] \<or> x = [3]" then show "([1], x) \<in> {([1], [2]), ([2], [3])}\<^sup>+"
      by (auto intro: trancl_into_trancl2)
  qed
  then have "{([1] :: bytes, [2]), ([2], [3])}\<^sup>+ `` {[1]} - {[1]} = {[2], [3]}" by auto
  with remove_all_is_closure[OF sorted_order.hash_order_axioms sample_dependencies_inv(1), of "[1]"]
  show ?thesis unfolding sample_dependencies_inv(2) by fastforce
qed

end
