(* ===== verification/Pending_Outputs.thy ===== *)
theory Pending_Outputs
  imports Hash_Collections Transparent
begin

section \<open>Pending output requests (zebrad/src/components/mempool/pending_outputs.rs)\<close>

text \<open>
  Requests that wait for an output of a mempool transaction, one broadcast channel for each outpoint.
  The channels are third-party code: the record \<open>broadcast\<close> has the operations that are used, the locale
  \<open>broadcast_channel\<close> what their documentation promises. Receivers are named by request numbers;
  \<open>bc_drop\<close> is what a requester does that stops waiting. A channel that is its set of receivers is an
  instance.
\<close>

type_synonym deliveries = "(nat \<times> tx_output) hash_set"

record 'ch broadcast =
  bc_channel :: 'ch
  bc_subscribe :: "nat \<Rightarrow> 'ch \<Rightarrow> 'ch"
  bc_drop :: "nat \<Rightarrow> 'ch \<Rightarrow> 'ch"
  bc_receivers :: "'ch \<Rightarrow> nat hash_set"
  bc_receiver_count :: "'ch \<Rightarrow> nat"
  bc_send :: "tx_output \<Rightarrow> 'ch \<Rightarrow> deliveries"

type_synonym 'ch pending_outputs = "(outpoint, 'ch) hash_map"

locale broadcast_channel =
  fixes B :: "'ch broadcast"
  assumes receivers_channel [simp]: "bc_receivers B (bc_channel B) = {||}"
    and receivers_subscribe [simp]: "bc_receivers B (bc_subscribe B r ch) = finsert r (bc_receivers B ch)"
    and receivers_drop [simp]: "bc_receivers B (bc_drop B r ch) = bc_receivers B ch |-| {|r|}"
    and receiver_count [simp]: "bc_receiver_count B ch = fcard (bc_receivers B ch)"
    and send_to_receivers [simp]: "bc_send B v ch = (\<lambda>r. (r, v)) |`| bc_receivers B ch"

subsection \<open>Operations\<close>

definition po_queue :: "'ch broadcast \<Rightarrow> nat \<Rightarrow> outpoint \<Rightarrow> 'ch pending_outputs \<Rightarrow> 'ch pending_outputs" where
  "po_queue B request outpoint po =
     (let sender = (case fmlookup po outpoint of Some sender \<Rightarrow> sender | None \<Rightarrow> bc_channel B) in
      fmupd outpoint (bc_subscribe B request sender) po)"

definition po_respond ::
  "'ch broadcast \<Rightarrow> outpoint \<Rightarrow> tx_output \<Rightarrow> 'ch pending_outputs \<Rightarrow> deliveries \<times> 'ch pending_outputs" where
  "po_respond B outpoint output po =
     (case fmlookup po outpoint of
        Some sender \<Rightarrow> (bc_send B output sender, fmdrop outpoint po)
      | None \<Rightarrow> ({||}, po))"

definition po_prune :: "'ch broadcast \<Rightarrow> 'ch pending_outputs \<Rightarrow> 'ch pending_outputs" where
  "po_prune B po = fmfilter (\<lambda>p. case fmlookup po p of Some chan \<Rightarrow> bc_receiver_count B chan > 0 | None \<Rightarrow> False) po"

definition po_clear :: "'ch pending_outputs \<Rightarrow> 'ch pending_outputs" where
  "po_clear po = fmempty"

text \<open>A requester that stops waiting.\<close>

definition po_abandon :: "'ch broadcast \<Rightarrow> nat \<Rightarrow> outpoint \<Rightarrow> 'ch pending_outputs \<Rightarrow> 'ch pending_outputs" where
  "po_abandon B request outpoint po =
     (case fmlookup po outpoint of Some sender \<Rightarrow> fmupd outpoint (bc_drop B request sender) po | None \<Rightarrow> po)"

subsection \<open>Waiting requests\<close>

definition waiting :: "'ch broadcast \<Rightarrow> 'ch pending_outputs \<Rightarrow> (outpoint \<times> nat) set" where
  "waiting B po = {(p, r). \<exists>ch. fmlookup po p = Some ch \<and> r |\<in>| bc_receivers B ch}"

context broadcast_channel
begin

lemma waiting_queue: "waiting B (po_queue B r p po) = insert (p, r) (waiting B po)"
  by (auto simp: waiting_def po_queue_def Let_def split: option.splits if_splits)

lemma waiting_respond:
  assumes "po_respond B p out po = (sent, po')"
  shows "fset sent = {(r, out) | r. (p, r) \<in> waiting B po}" "waiting B po' = {(q, r) \<in> waiting B po. q \<noteq> p}"
    "fmlookup po' p = None" "fmdom po' |\<subseteq>| fmdom po"
  using assms by (auto simp: po_respond_def waiting_def split: option.splits if_splits)

lemma waiting_prune: "waiting B (po_prune B po) = waiting B po"
proof -
  have "0 < fcard A" if "r |\<in>| A" for r :: nat and A using that by (metis bot_nat_0.not_eq_extremum fcard_0_eq fempty_iff)
  then show ?thesis by (auto simp: waiting_def po_prune_def split: option.splits if_splits)
qed

lemma pruned: "fmlookup (po_prune B po) p = Some ch \<Longrightarrow> \<exists>r. (p, r) \<in> waiting B po"
  by (cases "bc_receivers B ch = {||}") (auto simp: waiting_def po_prune_def fcard.rep_eq fset_eq_iff split: if_splits option.splits)

lemma waiting_abandon: "waiting B (po_abandon B r p po) = waiting B po - {(p, r)}"
  by (auto simp: waiting_def po_abandon_def split: option.splits if_splits)

end

lemma waiting_clear: "waiting B (po_clear po) = {}"
  by (simp add: waiting_def po_clear_def)

definition set_channel :: "nat hash_set broadcast" where
  "set_channel = \<lparr>bc_channel = {||}, bc_subscribe = finsert, bc_drop = (\<lambda>r ch. ch |-| {|r|}), bc_receivers = (\<lambda>ch. ch),
     bc_receiver_count = fcard, bc_send = (\<lambda>v ch. (\<lambda>r. (r, v)) |`| ch)\<rparr>"

interpretation set_channels: broadcast_channel set_channel
  by unfold_locales (simp_all add: set_channel_def)

end
