(* ===== verification/Verified_Set.thy ===== *)
theory Verified_Set
  imports Unmined Mempool_Dependencies Pending_Outputs
begin

section \<open>The verified transactions of the mempool (zebrad/src/components/mempool/storage/verified_set.rs)\<close>

text \<open>
  The transactions of the mempool with the caches kept beside them: dependencies, created outputs,
  spent outpoints, revealed nullifiers, and the total size and cost, which are 64-bit integers that wrap
  around. Metrics are not modelled. The random choice of the transaction to evict is made by a third-party
  library, the argument \<open>sample\<close>, which gets the weights and returns an index; it returns nothing when
  the library refuses the weights.
\<close>

record verified_set =
  vs_transactions :: "(tx_hash, verified_unmined_tx) hash_map"
  vs_transaction_dependencies :: transaction_dependencies
  vs_created_outputs :: "(outpoint, tx_output) hash_map"
  vs_transactions_serialized_size :: u64
  vs_total_cost :: u64
  vs_spent_outpoints :: "outpoint hash_set"
  vs_sprout_nullifiers :: "bytes hash_set"
  vs_sapling_nullifiers :: "bytes hash_set"
  vs_orchard_nullifiers :: "bytes hash_set"
  vs_ironwood_nullifiers :: "bytes hash_set"

datatype same_effects_tip_rejection_error = SpendConflict | MissingOutput

abbreviation vu_tx :: "verified_unmined_tx \<Rightarrow> transaction" where
  "vu_tx v \<equiv> um_transaction (vu_transaction v)"

abbreviation vu_id :: "verified_unmined_tx \<Rightarrow> tx_hash" where
  "vu_id v \<equiv> mined_id (um_id (vu_transaction v))"

subsection \<open>Operations\<close>

definition verified_set_default :: verified_set where
  "verified_set_default =
     \<lparr>vs_transactions = fmempty, vs_transaction_dependencies = td_default, vs_created_outputs = fmempty,
      vs_transactions_serialized_size = 0, vs_total_cost = 0, vs_spent_outpoints = {||}, vs_sprout_nullifiers = {||},
      vs_sapling_nullifiers = {||}, vs_orchard_nullifiers = {||}, vs_ironwood_nullifiers = {||}\<rparr>"

definition vs_created_output :: "verified_set \<Rightarrow> outpoint \<Rightarrow> tx_output option" where
  "vs_created_output vs p = fmlookup (vs_created_outputs vs) p"

definition vs_has_spent_outpoint :: "verified_set \<Rightarrow> outpoint \<Rightarrow> bool" where
  "vs_has_spent_outpoint vs p \<longleftrightarrow> p |\<in>| vs_spent_outpoints vs"

definition vs_transaction_count :: "verified_set \<Rightarrow> nat" where
  "vs_transaction_count vs = fcard (fmdom (vs_transactions vs))"

definition vs_contains :: "verified_set \<Rightarrow> tx_hash \<Rightarrow> bool" where
  "vs_contains vs h \<longleftrightarrow> h |\<in>| fmdom (vs_transactions vs)"

definition vs_clear :: "verified_set \<Rightarrow> verified_set" where
  "vs_clear vs =
     vs\<lparr>vs_transactions := fmempty, vs_transaction_dependencies := td_clear (vs_transaction_dependencies vs),
        vs_spent_outpoints := {||}, vs_sprout_nullifiers := {||}, vs_sapling_nullifiers := {||},
        vs_orchard_nullifiers := {||}, vs_ironwood_nullifiers := {||}, vs_created_outputs := fmempty,
        vs_transactions_serialized_size := 0, vs_total_cost := 0\<rparr>"

definition has_conflicts :: "'a hash_set \<Rightarrow> 'a list \<Rightarrow> bool" where
  "has_conflicts s items \<longleftrightarrow> (\<exists>x \<in> set items. x |\<in>| s)"

definition has_spend_conflicts :: "verified_set \<Rightarrow> unmined_tx \<Rightarrow> bool" where
  "has_spend_conflicts vs um =
     (let tx = um_transaction um in
      has_conflicts (vs_spent_outpoints vs) (spent_outpoints tx) \<or>
      has_conflicts (vs_sprout_nullifiers vs) (sprout_nullifiers tx) \<or>
      has_conflicts (vs_sapling_nullifiers vs) (sapling_nullifiers tx) \<or>
      has_conflicts (vs_orchard_nullifiers vs) (orchard_nullifiers tx) \<or>
      has_conflicts (vs_ironwood_nullifiers vs) (ironwood_nullifiers tx))"

text \<open>The loop over the outputs of an inserted transaction: each is created, and requests for it are answered.\<close>

fun create_outputs ::
  "'ch broadcast \<Rightarrow> (outpoint \<times> tx_output) list \<Rightarrow> (outpoint, tx_output) hash_map \<Rightarrow> 'ch pending_outputs \<Rightarrow>
   (outpoint, tx_output) hash_map \<times> 'ch pending_outputs \<times> deliveries" where
  "create_outputs B [] created pending = (created, pending, {||})"
| "create_outputs B ((p, out) # rest) created pending =
     (let (sent, pending) = po_respond B p out pending;
          (created, pending, later) = create_outputs B rest (fmupd p out created) pending in
      (created, pending, sent |\<union>| later))"

definition tx_outpoints :: "tx_hash \<Rightarrow> transaction \<Rightarrow> (outpoint list, 'e) outcome" where
  "tx_outpoints h tx = try_map (outpoint_from_usize h) [0 ..< length (outputs tx)]"

definition vs_insert ::
  "'ch broadcast \<Rightarrow> int \<Rightarrow> verified_unmined_tx \<Rightarrow> outpoint list \<Rightarrow> 'ch pending_outputs \<Rightarrow> height option \<Rightarrow> verified_set \<Rightarrow>
   (verified_set \<times> 'ch pending_outputs \<times> deliveries, same_effects_tip_rejection_error) outcome" where
  "vs_insert B utc v spent_mempool_outpoints pending height vs =
     (if has_spend_conflicts vs (vu_transaction v) then Err SpendConflict
      else if \<exists>p \<in> set spent_mempool_outpoints. p |\<notin>| fmdom (vs_created_outputs vs) then Err MissingOutput
      else
        let tx_id = vu_id v; tx = vu_tx v in
        and_then (tx_outpoints tx_id tx) (\<lambda>points.
        let (created, pending, sent) = create_outputs B (zip points (outputs tx)) (vs_created_outputs vs) pending in
        Ok (vs\<lparr>vs_transaction_dependencies := td_add tx_id spent_mempool_outpoints (vs_transaction_dependencies vs),
               vs_created_outputs := created,
               vs_spent_outpoints := vs_spent_outpoints vs |\<union>| fset_of_list (spent_outpoints tx),
               vs_sprout_nullifiers := vs_sprout_nullifiers vs |\<union>| fset_of_list (sprout_nullifiers tx),
               vs_sapling_nullifiers := vs_sapling_nullifiers vs |\<union>| fset_of_list (sapling_nullifiers tx),
               vs_orchard_nullifiers := vs_orchard_nullifiers vs |\<union>| fset_of_list (orchard_nullifiers tx),
               vs_ironwood_nullifiers := vs_ironwood_nullifiers vs |\<union>| fset_of_list (ironwood_nullifiers tx),
               vs_transactions_serialized_size := vs_transactions_serialized_size vs + of_nat (um_size (vu_transaction v)),
               vs_total_cost := vs_total_cost vs + of_nat (cost v),
               vs_transactions := fmupd tx_id (v\<lparr>vu_time := Some utc, vu_height := height\<rparr>) (vs_transactions vs)\<rparr>,
            pending, sent)))"

definition remove_outputs :: "unmined_tx \<Rightarrow> verified_set \<Rightarrow> (verified_set, 'e) outcome" where
  "remove_outputs um vs =
     (let tx = um_transaction um in
      and_then (tx_outpoints (mined_id (um_id um)) tx) (\<lambda>points.
        Ok (vs\<lparr>vs_created_outputs := fold fmdrop points (vs_created_outputs vs),
               vs_spent_outpoints := vs_spent_outpoints vs |-| fset_of_list (spent_outpoints tx),
               vs_sprout_nullifiers := vs_sprout_nullifiers vs |-| fset_of_list (sprout_nullifiers tx),
               vs_sapling_nullifiers := vs_sapling_nullifiers vs |-| fset_of_list (sapling_nullifiers tx),
               vs_orchard_nullifiers := vs_orchard_nullifiers vs |-| fset_of_list (orchard_nullifiers tx),
               vs_ironwood_nullifiers := vs_ironwood_nullifiers vs |-| fset_of_list (ironwood_nullifiers tx)\<rparr>)))"

text \<open>The closure that removes one key; unknown keys are skipped.\<close>

definition remove_key :: "tx_hash \<Rightarrow> verified_set \<Rightarrow> (verified_unmined_tx list \<times> verified_set, 'e) outcome" where
  "remove_key key vs =
     (case fmlookup (vs_transactions vs) key of
        None \<Rightarrow> Ok ([], vs)
      | Some removed_tx \<Rightarrow>
          and_then (remove_outputs (vu_transaction removed_tx)
            (vs\<lparr>vs_transactions := fmdrop key (vs_transactions vs),
                vs_transactions_serialized_size :=
                  vs_transactions_serialized_size vs - of_nat (um_size (vu_transaction removed_tx)),
                vs_total_cost := vs_total_cost vs - of_nat (cost removed_tx)\<rparr>))
            (\<lambda>vs. Ok ([removed_tx], vs)))"

fun remove_keys :: "tx_hash list \<Rightarrow> verified_set \<Rightarrow> (verified_unmined_tx list \<times> verified_set, 'e) outcome" where
  "remove_keys [] vs = Ok ([], vs)"
| "remove_keys (k # ks) vs =
     and_then (remove_key k vs) (\<lambda>(removed, vs).
     and_then (remove_keys ks vs) (\<lambda>(later, vs). Ok (removed @ later, vs)))"

definition vs_remove ::
  "(tx_hash hash_set \<Rightarrow> tx_hash list) \<Rightarrow> tx_hash \<Rightarrow> verified_set \<Rightarrow>
   (verified_unmined_tx list \<times> verified_set, 'e) outcome" where
  "vs_remove order key_to_remove vs =
     (let (found, dependencies) = remove_all order key_to_remove (vs_transaction_dependencies vs) in
      remove_keys (order found @ [key_to_remove]) (vs\<lparr>vs_transaction_dependencies := dependencies\<rparr>))"

definition evict_one ::
  "(tx_hash hash_set \<Rightarrow> tx_hash list) \<Rightarrow> (nat list \<Rightarrow> nat option) \<Rightarrow> verified_set \<Rightarrow>
   (verified_unmined_tx option \<times> verified_set, 'e) outcome" where
  "evict_one order sample vs =
     (let entries = hm_iter order (vs_transactions vs);
          keys = map fst entries; weights = map (\<lambda>(_, tx). eviction_weight tx) entries in
      and_then (expect (sample weights)) (\<lambda>i.
      and_then (expect (list_get keys i)) (\<lambda>key_to_remove.
      and_then (vs_remove order key_to_remove vs) (\<lambda>(removed, vs).
        Ok (if removed = [] then None else Some (last removed), vs)))))"

definition vs_clear_mined_dependencies ::
  "(tx_hash hash_set \<Rightarrow> tx_hash list) \<Rightarrow> tx_hash hash_set \<Rightarrow> verified_set \<Rightarrow> verified_set" where
  "vs_clear_mined_dependencies order mined_ids vs =
     vs\<lparr>vs_transaction_dependencies := clear_mined_dependencies order mined_ids (vs_transaction_dependencies vs)\<rparr>"

fun remove_matching ::
  "(tx_hash hash_set \<Rightarrow> tx_hash list) \<Rightarrow> tx_hash list \<Rightarrow> verified_set \<Rightarrow>
   (unmined_tx_id hash_set \<times> verified_set, 'e) outcome" where
  "remove_matching order [] vs = Ok ({||}, vs)"
| "remove_matching order (k # ks) vs =
     (if k |\<notin>| fmdom (vs_transactions vs) then remove_matching order ks vs
      else
        and_then (vs_remove order k vs) (\<lambda>(removed, vs).
        and_then (remove_matching order ks vs) (\<lambda>(later, vs).
          Ok (fset_of_list (map (\<lambda>v. um_id (vu_transaction v)) removed) |\<union>| later, vs))))"

definition remove_all_that ::
  "(tx_hash hash_set \<Rightarrow> tx_hash list) \<Rightarrow> (verified_unmined_tx \<Rightarrow> bool) \<Rightarrow> verified_set \<Rightarrow>
   (unmined_tx_id hash_set \<times> verified_set, 'e) outcome" where
  "remove_all_that order predicate vs =
     remove_matching order (map fst (filter (\<lambda>(_, tx). predicate tx) (hm_iter order (vs_transactions vs)))) vs"

subsection \<open>The invariant\<close>

text \<open>What a transaction spends or reveals, of all five kinds, and what the set has recorded.\<close>

datatype reveal = Spent outpoint | Sprout_Nf bytes | Sapling_Nf bytes | Orchard_Nf bytes | Ironwood_Nf bytes

definition tx_reveals :: "transaction \<Rightarrow> reveal set" where
  "tx_reveals tx =
     Spent ` set (spent_outpoints tx) \<union> Sprout_Nf ` set (sprout_nullifiers tx) \<union> Sapling_Nf ` set (sapling_nullifiers tx) \<union>
     Orchard_Nf ` set (orchard_nullifiers tx) \<union> Ironwood_Nf ` set (ironwood_nullifiers tx)"

definition vs_reveals :: "verified_set \<Rightarrow> reveal set" where
  "vs_reveals vs =
     Spent ` fset (vs_spent_outpoints vs) \<union> Sprout_Nf ` fset (vs_sprout_nullifiers vs) \<union>
     Sapling_Nf ` fset (vs_sapling_nullifiers vs) \<union> Orchard_Nf ` fset (vs_orchard_nullifiers vs) \<union>
     Ironwood_Nf ` fset (vs_ironwood_nullifiers vs)"

type_synonym pool = "(tx_hash, verified_unmined_tx) hash_map"

definition pool_sum :: "(verified_unmined_tx \<Rightarrow> nat) \<Rightarrow> pool \<Rightarrow> nat" where
  "pool_sum f T = (\<Sum>k \<in> fset (fmdom T). f (the (fmlookup T k)))"

definition pool_reveals :: "pool \<Rightarrow> reveal set" where
  "pool_reveals T = {r. \<exists>k v. fmlookup T k = Some v \<and> r \<in> tx_reveals (vu_tx v)}"

text \<open>Ids match their keys, output indexes fit 32 bits, and no two transactions reveal the same.\<close>

definition pool_ok :: "pool \<Rightarrow> bool" where
  "pool_ok T \<longleftrightarrow>
     (\<forall>k v. fmlookup T k = Some v \<longrightarrow> vu_id v = k \<and> length (outputs (vu_tx v)) \<le> 2 ^ 32) \<and>
     (\<forall>j k v w. fmlookup T j = Some v \<longrightarrow> fmlookup T k = Some w \<longrightarrow> j \<noteq> k \<longrightarrow> tx_reveals (vu_tx v) \<inter> tx_reveals (vu_tx w) = {})"

definition pool_output :: "pool \<Rightarrow> outpoint \<Rightarrow> tx_output option" where
  "pool_output T p = (case fmlookup T (op_hash p) of None \<Rightarrow> None | Some v \<Rightarrow> list_get (outputs (vu_tx v)) (op_index p))"

text \<open>The caches agree with the transactions.\<close>

definition vs_cached :: "verified_set \<Rightarrow> bool" where
  "vs_cached vs \<longleftrightarrow>
     pool_ok (vs_transactions vs) \<and>
     (\<forall>p. fmlookup (vs_created_outputs vs) p = pool_output (vs_transactions vs) p) \<and>
     vs_reveals vs = pool_reveals (vs_transactions vs) \<and>
     vs_total_cost vs = of_nat (pool_sum cost (vs_transactions vs)) \<and>
     vs_transactions_serialized_size vs = of_nat (pool_sum (\<lambda>v. um_size (vu_transaction v)) (vs_transactions vs))"

definition vs_inv :: "verified_set \<Rightarrow> bool" where
  "vs_inv vs \<longleftrightarrow> vs_cached vs \<and> td_inv (vs_transaction_dependencies vs) \<and>
     (\<forall>(a, b) \<in> depends (vs_transaction_dependencies vs). a |\<in>| fmdom (vs_transactions vs) \<and> b |\<in>| fmdom (vs_transactions vs))"

subsection \<open>Pools\<close>

lemma pool_sum_empty [simp]: "pool_sum f fmempty = 0"
  by (simp add: pool_sum_def)

lemma pool_sum_drop: "fmlookup T k = Some v \<Longrightarrow> pool_sum f T = f v + pool_sum f (fmdrop k T)"
proof -
  assume k: "fmlookup T k = Some v"
  then have "k \<in> fset (fmdom T)" by (auto intro: fmdomI)
  then have "pool_sum f T = f v + (\<Sum>j \<in> fset (fmdom T) - {k}. f (the (fmlookup T j)))"
    unfolding pool_sum_def using k by (simp add: sum.remove)
  also have "(\<Sum>j \<in> fset (fmdom T) - {k}. f (the (fmlookup T j))) = pool_sum f (fmdrop k T)"
    unfolding pool_sum_def by (rule sum.cong) auto
  finally show ?thesis .
qed

lemma pool_sum_upd: "k |\<notin>| fmdom T \<Longrightarrow> pool_sum f (fmupd k v T) = f v + pool_sum f T"
proof -
  assume "k |\<notin>| fmdom T"
  then have "fmdrop k (fmupd k v T) = T" by (intro fmap_ext) auto
  then show ?thesis using pool_sum_drop[of "fmupd k v T" k v f] by simp
qed

lemma pool_reveals_empty [simp]: "pool_reveals fmempty = {}"
  by (simp add: pool_reveals_def)

lemma pool_reveals_upd: "k |\<notin>| fmdom T \<Longrightarrow> pool_reveals (fmupd k v T) = tx_reveals (vu_tx v) \<union> pool_reveals T"
  by (auto simp: pool_reveals_def split: if_splits) (metis fmdomI)

lemma pool_reveals_drop:
  assumes "pool_ok T" "fmlookup T k = Some v"
  shows "pool_reveals (fmdrop k T) = pool_reveals T - tx_reveals (vu_tx v)"
proof -
  have "\<forall>j w. fmlookup T j = Some w \<longrightarrow> j \<noteq> k \<longrightarrow> tx_reveals (vu_tx w) \<inter> tx_reveals (vu_tx v) = {}"
    using assms unfolding pool_ok_def by blast
  then show ?thesis using assms(2) by (auto simp: pool_reveals_def)
qed

lemma pool_ok_drop: "pool_ok T \<Longrightarrow> pool_ok (fmdrop k T)"
  by (auto simp: pool_ok_def split: if_splits)

lemma pool_ok_upd:
  assumes "pool_ok T" "k |\<notin>| fmdom T" "vu_id v = k" "length (outputs (vu_tx v)) \<le> 2 ^ 32"
    "tx_reveals (vu_tx v) \<inter> pool_reveals T = {}"
  shows "pool_ok (fmupd k v T)"
  using assms unfolding pool_ok_def pool_reveals_def by auto

lemma has_spend_conflicts_iff: "has_spend_conflicts vs um \<longleftrightarrow> vs_reveals vs \<inter> tx_reveals (um_transaction um) \<noteq> {}"
  by (auto simp: has_spend_conflicts_def has_conflicts_def vs_reveals_def tx_reveals_def Let_def)

lemma tx_outpoints_eq:
  "length (outputs tx) \<le> 2 ^ 32 \<Longrightarrow>
   tx_outpoints h tx = Ok (map (\<lambda>i. \<lparr>op_hash = h, op_index = i\<rparr>) [0 ..< length (outputs tx)])"
  unfolding tx_outpoints_def by (auto simp: try_map_Ok_iff outpoint_from_usize_def list_all2_conv_all_nth)

abbreviation indexed_outputs :: "tx_hash \<Rightarrow> transaction \<Rightarrow> (outpoint \<times> tx_output) list" where
  "indexed_outputs h tx \<equiv> zip (map (\<lambda>i. \<lparr>op_hash = h, op_index = i\<rparr>) [0 ..< length (outputs tx)]) (outputs tx)"

lemma distinct_indexed: "distinct (map fst (indexed_outputs h tx))"
  by (auto simp: distinct_map inj_on_def)

lemma map_of_indexed: "map_of (indexed_outputs h tx) p = (if op_hash p = h then list_get (outputs tx) (op_index p) else None)"
proof (cases "op_hash p = h \<and> op_index p < length (outputs tx)")
  case True
  then have "(p, outputs tx ! op_index p) \<in> set (indexed_outputs h tx)"
    by (auto simp: in_set_zip intro!: exI[of _ "op_index p"])
  from map_of_is_SomeI[OF distinct_indexed this] show ?thesis using True by (simp add: list_get_def)
next
  case False
  then have "p \<notin> fst ` set (indexed_outputs h tx)" by (cases p) (auto dest!: set_zip_leftD)
  then have "map_of (indexed_outputs h tx) p = None" unfolding map_of_eq_None_iff .
  then show ?thesis using False by (auto simp: list_get_def)
qed

lemma created_by:
  assumes "create_outputs B xs created pending = (created', pending', sent)" "distinct (map fst xs)"
  shows "fmlookup created' p = (case map_of xs p of Some out \<Rightarrow> Some out | None \<Rightarrow> fmlookup created p)"
  using assms
proof (induction xs arbitrary: created pending sent)
  case (Cons x xs)
  obtain q out where x: "x = (q, out)" by fastforce
  obtain s1 p1 where r: "po_respond B q out pending = (s1, p1)" by fastforce
  from Cons.prems(1) obtain s2 where "create_outputs B xs (fmupd q out created) p1 = (created', pending', s2)"
    by (auto simp: x r split: prod.splits)
  from Cons.IH[OF this] Cons.prems(2) have "fmlookup created' p = (case map_of xs p of Some out \<Rightarrow> Some out | None \<Rightarrow> fmlookup (fmupd q out created) p)"
    by simp
  moreover have "map_of xs q = None" using Cons.prems(2) x by (simp add: map_of_eq_None_iff)
  ultimately show ?case by (auto simp: x split: option.splits)
qed simp

context broadcast_channel
begin

lemma answered_by:
  assumes "create_outputs B xs created pending = (created', pending', sent)" "distinct (map fst xs)"
  shows "fset sent = {(r, out) | p r out. (p, out) \<in> set xs \<and> (p, r) \<in> waiting B pending}"
    and "waiting B pending' = {(p, r) \<in> waiting B pending. p \<notin> fst ` set xs}"
    and "fmdom pending' |\<subseteq>| fmdom pending" and "\<forall>p \<in> fst ` set xs. fmlookup pending' p = None"
proof -
  have "fset sent = {(r, out) | p r out. (p, out) \<in> set xs \<and> (p, r) \<in> waiting B pending} \<and>
    waiting B pending' = {(p, r) \<in> waiting B pending. p \<notin> fst ` set xs} \<and>
    fmdom pending' |\<subseteq>| fmdom pending \<and> (\<forall>p \<in> fst ` set xs. fmlookup pending' p = None)"
    using assms
  proof (induction xs arbitrary: created pending sent)
    case (Cons x xs)
    obtain q out where x: "x = (q, out)" by fastforce
    obtain s1 p1 where r: "po_respond B q out pending = (s1, p1)" by fastforce
    from Cons.prems(1) obtain s2 where rest: "create_outputs B xs (fmupd q out created) p1 = (created', pending', s2)"
      and sent: "sent = s1 |\<union>| s2" by (auto simp: x r split: prod.splits)
    note one = waiting_respond[OF r]
    have q: "q \<notin> fst ` set xs" using Cons.prems(2) x by simp
    from Cons.IH[OF rest] Cons.prems(2) have IH: "fset s2 = {(r, out) | p r out. (p, out) \<in> set xs \<and> (p, r) \<in> waiting B p1}"
      "waiting B pending' = {(p, r) \<in> waiting B p1. p \<notin> fst ` set xs}" "fmdom pending' |\<subseteq>| fmdom p1"
      "\<forall>p \<in> fst ` set xs. fmlookup pending' p = None" by auto
    have "fmlookup pending' q = None" using IH(3) one(3) by (metis fmdom_notD fmdom_notI fsubsetD)
    moreover have "fset sent = {(r, o') | p r o'. (p, o') \<in> set (x # xs) \<and> (p, r) \<in> waiting B pending}"
    proof -
      have "(p, r) \<in> waiting B p1 \<longleftrightarrow> (p, r) \<in> waiting B pending" if "(p, o') \<in> set xs" for p r o'
        using that q one(2) by force
      then have "fset s2 = {(r, o') | p r o'. (p, o') \<in> set xs \<and> (p, r) \<in> waiting B pending}" unfolding IH(1) by blast
      then show ?thesis unfolding sent x union_fset one(1) by auto
    qed
    ultimately show ?case using IH(2-4) one(2,4) by (auto simp: x)
  qed (auto simp: )
  then show "fset sent = {(r, out) | p r out. (p, out) \<in> set xs \<and> (p, r) \<in> waiting B pending}"
    and "waiting B pending' = {(p, r) \<in> waiting B pending. p \<notin> fst ` set xs}"
    and "fmdom pending' |\<subseteq>| fmdom pending" and "\<forall>p \<in> fst ` set xs. fmlookup pending' p = None" by auto
qed

end

subsection \<open>The operations keep the invariant\<close>

lemma vs_inv_default: "vs_inv verified_set_default"
  by (simp add: vs_inv_def vs_cached_def verified_set_default_def pool_ok_def pool_output_def vs_reveals_def td_inv_default)

lemma vs_inv_clear: "vs_inv (vs_clear vs)"
  by (simp add: vs_inv_def vs_cached_def vs_clear_def pool_ok_def pool_output_def vs_reveals_def td_inv_clear)

lemma vs_inv_clear_mined:
  assumes "hash_order order" "vs_inv vs"
  shows "vs_inv (vs_clear_mined_dependencies order mined vs)"
  using assms clear_mined_dependencies_spec[OF assms(1), of "vs_transaction_dependencies vs" mined]
  by (auto simp: vs_inv_def vs_cached_def vs_clear_mined_dependencies_def vs_reveals_def)

text \<open>What a successful insertion does.\<close>

definition insertable :: "verified_set \<Rightarrow> verified_unmined_tx \<Rightarrow> outpoint list \<Rightarrow> bool" where
  "insertable vs v spent \<longleftrightarrow> tx_reveals (vu_tx v) \<inter> vs_reveals vs = {} \<and> set spent \<subseteq> fset (fmdom (vs_created_outputs vs))"

lemma vs_insert_Err: "\<not> insertable vs v spent \<Longrightarrow> \<exists>e. vs_insert B utc v spent pending h vs = Err e"
  by (auto simp: insertable_def vs_insert_def has_spend_conflicts_iff)

lemma vs_reveals_insert:
  "vs_reveals (vs\<lparr>vs_transaction_dependencies := d, vs_created_outputs := c,
       vs_spent_outpoints := vs_spent_outpoints vs |\<union>| fset_of_list (spent_outpoints tx),
       vs_sprout_nullifiers := vs_sprout_nullifiers vs |\<union>| fset_of_list (sprout_nullifiers tx),
       vs_sapling_nullifiers := vs_sapling_nullifiers vs |\<union>| fset_of_list (sapling_nullifiers tx),
       vs_orchard_nullifiers := vs_orchard_nullifiers vs |\<union>| fset_of_list (orchard_nullifiers tx),
       vs_ironwood_nullifiers := vs_ironwood_nullifiers vs |\<union>| fset_of_list (ironwood_nullifiers tx),
       vs_transactions_serialized_size := a, vs_total_cost := b, vs_transactions := T\<rparr>) = tx_reveals tx \<union> vs_reveals vs"
  by (auto simp: vs_reveals_def tx_reveals_def fset_of_list_elem)

lemma tx_reveals_refresh [simp]: "tx_reveals (vu_tx (v\<lparr>vu_time := t, vu_height := h\<rparr>)) = tx_reveals (vu_tx v)"
  by simp

lemma cost_refresh [simp]: "cost (v\<lparr>vu_time := t, vu_height := h\<rparr>) = cost v"
  by (simp add: cost_def)

lemma vs_insert_Ok:
  assumes "vs_inv vs" "insertable vs v spent" "vu_id v |\<notin>| fmdom (vs_transactions vs)" "length (outputs (vu_tx v)) \<le> 2 ^ 32"
  obtains vs' pending' sent created where "vs_insert B utc v spent pending h vs = Ok (vs', pending', sent)"
    "create_outputs B (indexed_outputs (vu_id v) (vu_tx v)) (vs_created_outputs vs) pending = (created, pending', sent)"
    "vs_transactions vs' = fmupd (vu_id v) (v\<lparr>vu_time := Some utc, vu_height := h\<rparr>) (vs_transactions vs)"
    "vs_created_outputs vs' = created" "vs_inv vs'"
    "depends (vs_transaction_dependencies vs') = depends (vs_transaction_dependencies vs) \<union> (\<lambda>p. (op_hash p, vu_id v)) ` set spent"
proof -
  let ?k = "vu_id v" and ?v = "v\<lparr>vu_time := Some utc, vu_height := h\<rparr>" and ?T = "vs_transactions vs"
  obtain created pending' sent where
    c: "create_outputs B (indexed_outputs ?k (vu_tx v)) (vs_created_outputs vs) pending = (created, pending', sent)"
    using prod_cases3 by blast
  from assms(2) have no: "\<not> has_spend_conflicts vs (vu_transaction v)" "\<not> (\<exists>p \<in> set spent. p |\<notin>| fmdom (vs_created_outputs vs))"
    unfolding has_spend_conflicts_iff insertable_def by auto
  obtain vs' where ins: "vs_insert B utc v spent pending h vs = Ok (vs', pending', sent)"
    and T: "vs_transactions vs' = fmupd ?k ?v ?T" and created: "vs_created_outputs vs' = created"
    and deps: "vs_transaction_dependencies vs' = td_add ?k spent (vs_transaction_dependencies vs)"
    and rev: "vs_reveals vs' = tx_reveals (vu_tx v) \<union> vs_reveals vs"
    and sums: "vs_total_cost vs' = vs_total_cost vs + of_nat (cost v)"
      "vs_transactions_serialized_size vs' = vs_transactions_serialized_size vs + of_nat (um_size (vu_transaction v))"
    using no c vs_reveals_insert by (simp add: vs_insert_def Let_def tx_outpoints_eq[OF assms(4)])
  from assms(1) have cached: "vs_cached vs" and td: "td_inv (vs_transaction_dependencies vs)"
    and dom: "\<forall>(a, b) \<in> depends (vs_transaction_dependencies vs). a |\<in>| fmdom ?T \<and> b |\<in>| fmdom ?T" by (auto simp: vs_inv_def)
  from cached have ok: "pool_ok ?T" and co: "\<And>p. fmlookup (vs_created_outputs vs) p = pool_output ?T p"
    and r: "vs_reveals vs = pool_reveals ?T" and s: "vs_total_cost vs = of_nat (pool_sum cost ?T)"
      "vs_transactions_serialized_size vs = of_nat (pool_sum (\<lambda>v. um_size (vu_transaction v)) ?T)" by (auto simp: vs_cached_def)
  have "pool_ok (fmupd ?k ?v ?T)"
    by (rule pool_ok_upd[OF ok assms(3)]) (use assms(2,4) r in \<open>auto simp: insertable_def\<close>)
  moreover have "fmlookup created p = pool_output (fmupd ?k ?v ?T) p" for p
    using created_by[OF c distinct_indexed, of p] assms(3) unfolding map_of_indexed co
    by (auto simp: pool_output_def split: option.splits)
  moreover have "vs_reveals vs' = pool_reveals (fmupd ?k ?v ?T)" using rev r pool_reveals_upd[OF assms(3), of ?v] by simp
  ultimately have "vs_cached vs'"
    unfolding vs_cached_def T created sums s pool_sum_upd[OF assms(3)] by simp
  moreover have "fmlookup (td_dependencies (vs_transaction_dependencies vs)) ?k = None"
  proof (rule ccontr)
    assume "\<not> ?thesis"
    then obtain S where S: "fmlookup (td_dependencies (vs_transaction_dependencies vs)) ?k = Some S" by auto
    then have "S \<noteq> {||}" using td by (auto simp: td_inv_def no_empty_def)
    then obtain a where "a |\<in>| S" by auto
    then have "(a, ?k) \<in> depends (vs_transaction_dependencies vs)" using dependency_iff[OF td, of a ?k] S by simp
    then show False using dom assms(3) by auto
  qed
  from td_add_spec[OF td this, of spent]
  have "td_inv (vs_transaction_dependencies vs')" and d: "depends (vs_transaction_dependencies vs') = depends (vs_transaction_dependencies vs) \<union> (\<lambda>p. (op_hash p, ?k)) ` set spent"
    unfolding deps by auto
  moreover have "op_hash p |\<in>| fmdom ?T" if "p \<in> set spent" for p
    using that assms(2) co[of p] unfolding insertable_def by (auto simp: pool_output_def fmlookup_dom_iff split: option.splits)
  ultimately have "vs_inv vs'" using dom by (auto simp: vs_inv_def T d)
  with ins c T created d that show ?thesis by blast
qed

subsection \<open>Removal\<close>

lemma fmlookup_fold_fmdrop: "fmlookup (fold fmdrop ps m) p = (if p \<in> set ps then None else fmlookup m p)"
  by (induction ps arbitrary: m) auto

lemma vs_reveals_remove:
  "vs_reveals (vs\<lparr>vs_transactions := T, vs_transactions_serialized_size := a, vs_total_cost := b, vs_created_outputs := c,
       vs_spent_outpoints := vs_spent_outpoints vs |-| fset_of_list (spent_outpoints tx),
       vs_sprout_nullifiers := vs_sprout_nullifiers vs |-| fset_of_list (sprout_nullifiers tx),
       vs_sapling_nullifiers := vs_sapling_nullifiers vs |-| fset_of_list (sapling_nullifiers tx),
       vs_orchard_nullifiers := vs_orchard_nullifiers vs |-| fset_of_list (orchard_nullifiers tx),
       vs_ironwood_nullifiers := vs_ironwood_nullifiers vs |-| fset_of_list (ironwood_nullifiers tx)\<rparr>) =
   vs_reveals vs - tx_reveals tx"
  by (auto simp: vs_reveals_def tx_reveals_def fset_of_list_elem)

lemma remove_key_Ok:
  assumes "vs_cached vs"
  obtains vs' where
    "(remove_key k vs :: (verified_unmined_tx list \<times> verified_set, 'e) outcome) = Ok (case fmlookup (vs_transactions vs) k of None \<Rightarrow> [] | Some v \<Rightarrow> [v], vs')"
    "vs_cached vs'" "vs_transactions vs' = fmdrop k (vs_transactions vs)"
    "vs_transaction_dependencies vs' = vs_transaction_dependencies vs"
proof (cases "fmlookup (vs_transactions vs) k")
  case None
  then have "fmdrop k (vs_transactions vs) = vs_transactions vs" by (intro fmap_ext) auto
  with None that[of vs] assms show ?thesis by (simp add: remove_key_def)
next
  case (Some v)
  let ?T = "vs_transactions vs"
  from assms have ok: "pool_ok ?T" and co: "\<And>p. fmlookup (vs_created_outputs vs) p = pool_output ?T p"
    and r: "vs_reveals vs = pool_reveals ?T" and s: "vs_total_cost vs = of_nat (pool_sum cost ?T)"
      "vs_transactions_serialized_size vs = of_nat (pool_sum (\<lambda>v. um_size (vu_transaction v)) ?T)" by (auto simp: vs_cached_def)
  from ok Some have id: "vu_id v = k" and len: "length (outputs (vu_tx v)) \<le> 2 ^ 32" by (auto simp: pool_ok_def)
  let ?ps = "map (\<lambda>i. \<lparr>op_hash = k, op_index = i\<rparr>) [0 ..< length (outputs (vu_tx v))]"
  obtain vs' where eq: "(remove_key k vs :: (verified_unmined_tx list \<times> verified_set, 'e) outcome) = Ok ([v], vs')"
    and T: "vs_transactions vs' = fmdrop k ?T" and created: "vs_created_outputs vs' = fold fmdrop ?ps (vs_created_outputs vs)"
    and deps: "vs_transaction_dependencies vs' = vs_transaction_dependencies vs"
    and rev: "vs_reveals vs' = vs_reveals vs - tx_reveals (vu_tx v)"
    and sums: "vs_total_cost vs' = vs_total_cost vs - of_nat (cost v)"
      "vs_transactions_serialized_size vs' = vs_transactions_serialized_size vs - of_nat (um_size (vu_transaction v))"
    using vs_reveals_remove by (simp add: remove_key_def remove_outputs_def Let_def Some id tx_outpoints_eq[OF len])
  have "fmlookup (vs_created_outputs vs') p = pool_output (fmdrop k ?T) p" for p
    using Some unfolding created fmlookup_fold_fmdrop co
    by (cases p) (auto simp: pool_output_def list_get_def)
  moreover have "vs_reveals vs' = pool_reveals (fmdrop k ?T)" unfolding rev r pool_reveals_drop[OF ok Some] ..
  ultimately have "vs_cached vs'"
    unfolding vs_cached_def T sums s using pool_ok_drop[OF ok] by (simp add: pool_sum_drop[OF Some])
  with that eq T deps Some show ?thesis by simp
qed

lemma map_filter_fmdrop: "k \<notin> set ks \<Longrightarrow> List.map_filter (fmlookup (fmdrop k m)) ks = List.map_filter (fmlookup m) ks"
  by (induction ks) (auto simp: map_filter_simps split: option.splits)

lemma map_filter_known:
  "set ks \<subseteq> fset (fmdom m) \<Longrightarrow> List.map_filter (fmlookup m) ks = map (\<lambda>k. the (fmlookup m k)) ks"
  by (induction ks) (auto simp: map_filter_simps fmlookup_dom_iff)

lemma remove_keys_Ok:
  assumes "vs_cached vs" "distinct ks"
  obtains vs' where
    "(remove_keys ks vs :: (verified_unmined_tx list \<times> verified_set, 'e) outcome) = Ok (List.map_filter (fmlookup (vs_transactions vs)) ks, vs')"
    "vs_cached vs'" "vs_transactions vs' = fmdrop_fset (fset_of_list ks) (vs_transactions vs)"
    "vs_transaction_dependencies vs' = vs_transaction_dependencies vs"
  using assms
proof (induction ks arbitrary: vs thesis)
  case Nil
  then show ?case by (simp add: map_filter_simps)
next
  case (Cons k ks)
  from remove_key_Ok[OF Cons.prems(2), of k, where ?'e = 'e] obtain v1 where
    one: "(remove_key k vs :: (verified_unmined_tx list \<times> verified_set, 'e) outcome) = Ok (case fmlookup (vs_transactions vs) k of None \<Rightarrow> [] | Some v \<Rightarrow> [v], v1)"
      "vs_cached v1" "vs_transactions v1 = fmdrop k (vs_transactions vs)"
      "vs_transaction_dependencies v1 = vs_transaction_dependencies vs" by blast
  from Cons.IH[OF _ one(2)] Cons.prems(3) obtain v2 where
    rest: "(remove_keys ks v1 :: (verified_unmined_tx list \<times> verified_set, 'e) outcome) = Ok (List.map_filter (fmlookup (vs_transactions v1)) ks, v2)"
      "vs_cached v2" "vs_transactions v2 = fmdrop_fset (fset_of_list ks) (vs_transactions v1)"
      "vs_transaction_dependencies v2 = vs_transaction_dependencies v1" by auto
  have "List.map_filter (fmlookup (fmdrop k (vs_transactions vs))) ks = List.map_filter (fmlookup (vs_transactions vs)) ks"
    by (rule map_filter_fmdrop) (use Cons.prems(3) in simp)
  moreover have "fmdrop_fset (fset_of_list ks) (fmdrop k (vs_transactions vs)) = fmdrop_fset (fset_of_list (k # ks)) (vs_transactions vs)"
    by (intro fmap_ext) (auto simp: fmfilter_alt_defs fset_of_list_elem)
  ultimately show ?case
    using one rest by (intro Cons.prems(1)[of v2]) (auto simp: map_filter_simps split: option.splits)
qed

lemma vs_remove_Ok:
  assumes "hash_order order" "vs_inv vs" "fmlookup (vs_transactions vs) k = Some v"
  obtains found vs' where
    "(vs_remove order k vs :: (verified_unmined_tx list \<times> verified_set, 'e) outcome) =
       Ok (map (\<lambda>j. the (fmlookup (vs_transactions vs) j)) (order found) @ [v], vs')"
    "fset found = (depends (vs_transaction_dependencies vs))\<^sup>+ `` {k} - {k}" "vs_inv vs'"
    "vs_transactions vs' = fmdrop_fset (finsert k found) (vs_transactions vs)"
    "depends (vs_transaction_dependencies vs') = without (depends (vs_transaction_dependencies vs)) (insert k (fset found))"
proof -
  let ?d = "vs_transaction_dependencies vs" and ?T = "vs_transactions vs"
  from assms(2) have cached: "vs_cached vs" and td: "td_inv ?d"
    and dom: "\<forall>(a, b) \<in> depends ?d. a |\<in>| fmdom ?T \<and> b |\<in>| fmdom ?T" by (auto simp: vs_inv_def)
  obtain found d' where r: "remove_all order k ?d = (found, d')" by fastforce
  note spec = remove_all_spec[OF assms(1) td r]
  have "b |\<in>| fmdom ?T" if "(a, b) \<in> (depends ?d)\<^sup>+" for a b using that dom by (cases rule: trancl.cases) auto
  then have found: "j |\<in>| fmdom ?T" if "j |\<in>| found" for j using that unfolding spec(1) by blast
  define w where "w = vs\<lparr>vs_transaction_dependencies := d'\<rparr>"
  have w: "vs_cached w" "vs_transactions w = ?T" "vs_transaction_dependencies w = d'"
    using cached by (simp_all add: vs_cached_def vs_reveals_def w_def)
  have dist: "distinct (order found @ [k])"
    using hash_order.distinct_order[OF assms(1)] hash_order.set_order[OF assms(1)] spec(1) by simp
  obtain vs' where
    "(remove_keys (order found @ [k]) w :: (verified_unmined_tx list \<times> verified_set, 'e) outcome) =
        Ok (List.map_filter (fmlookup (vs_transactions w)) (order found @ [k]), vs')"
      "vs_cached vs'" "vs_transactions vs' = fmdrop_fset (fset_of_list (order found @ [k])) (vs_transactions w)"
      "vs_transaction_dependencies vs' = vs_transaction_dependencies w"
    by (rule remove_keys_Ok[OF w(1) dist, where ?'e = 'e])
  note ks = this[unfolded w]
  have "set (order found @ [k]) \<subseteq> fset (fmdom ?T)"
    using found assms(3) hash_order.set_order[OF assms(1), of found] by (auto intro: fmdomI)
  from map_filter_known[OF this]
  have rem: "List.map_filter (fmlookup ?T) (order found @ [k]) = map (\<lambda>j. the (fmlookup ?T j)) (order found) @ [v]"
    using assms(3) by simp
  have set: "fset_of_list (order found @ [k]) = finsert k found"
    using hash_order.set_order[OF assms(1), of found] by (auto simp: fset_eq_iff fset_of_list_elem)
  note T' = ks(3)[unfolded set]
  have "vs_inv vs'"
    using ks(2) spec(2,3) dom by (auto simp: vs_inv_def T' ks(4) without_def)
  with that[of found vs'] spec(1,2) ks(1,4) T' rem r show ?thesis by (simp add: vs_remove_def w_def)
qed

subsection \<open>Eviction\<close>

text \<open>What is documented of the weighted choice: it accepts positive weights with a total of 64 bits.\<close>

locale weighted_index =
  fixes sample :: "nat list \<Rightarrow> nat option"
  assumes sample_index: "ws \<noteq> [] \<Longrightarrow> \<forall>w \<in> set ws. 0 < w \<Longrightarrow> sum_list ws < 2 ^ 64 \<Longrightarrow> \<exists>i < length ws. sample ws = Some i"

text \<open>The choice by cumulative weights from a random number \<open>r\<close>.\<close>

fun cumulative_index :: "nat \<Rightarrow> nat list \<Rightarrow> nat" where
  "cumulative_index r [] = 0"
| "cumulative_index r (w # ws) = (if r < w then 0 else Suc (cumulative_index (r - w) ws))"

definition cumulative_sample :: "nat \<Rightarrow> nat list \<Rightarrow> nat option" where
  "cumulative_sample r ws = (if sum_list ws = 0 then None else Some (cumulative_index (r mod sum_list ws) ws))"

lemma cumulative_index_bound: "r < sum_list ws \<Longrightarrow> cumulative_index r ws < length ws"
proof (induction ws arbitrary: r)
  case (Cons w ws)
  then show ?case by (cases "r < w") auto
qed simp

interpretation cumulative: weighted_index "cumulative_sample r" for r
proof unfold_locales
  fix ws :: "nat list" assume "ws \<noteq> []" "\<forall>w \<in> set ws. 0 < w" "sum_list ws < 2 ^ 64"
  then have "0 < sum_list ws" by (cases ws) auto
  then show "\<exists>i < length ws. cumulative_sample r ws = Some i"
    using cumulative_index_bound[of "r mod sum_list ws" ws] by (simp add: cumulative_sample_def del: sum_list_eq_0_iff)
qed

abbreviation vs_weights :: "(tx_hash hash_set \<Rightarrow> tx_hash list) \<Rightarrow> verified_set \<Rightarrow> nat list" where
  "vs_weights order vs \<equiv> map (\<lambda>(_, tx). eviction_weight tx) (hm_iter order (vs_transactions vs))"

lemma evict_one_at:
  assumes "hash_order order" "vs_inv vs" "sample (vs_weights order vs) = Some i"
    "i < length (hm_iter order (vs_transactions vs))" "hm_iter order (vs_transactions vs) ! i = (k, v)"
  obtains found vs' where
    "(evict_one order sample vs :: (verified_unmined_tx option \<times> verified_set, 'e) outcome) = Ok (Some v, vs')"
    "fmlookup (vs_transactions vs) k = Some v" "vs_inv vs'"
    "fset found = (depends (vs_transaction_dependencies vs))\<^sup>+ `` {k} - {k}"
    "vs_transactions vs' = fmdrop_fset (finsert k found) (vs_transactions vs)"
proof -
  let ?T = "vs_transactions vs" and ?es = "hm_iter order (vs_transactions vs)"
  have look: "fmlookup ?T k = Some v"
    using hash_order.set_hm_iter[OF assms(1), of ?T] nth_mem[OF assms(4)] assms(5) by auto
  obtain found vs' where
    rem: "(vs_remove order k vs :: (verified_unmined_tx list \<times> verified_set, 'e) outcome) = Ok (map (\<lambda>j. the (fmlookup ?T j)) (order found) @ [v], vs')"
      "fset found = (depends (vs_transaction_dependencies vs))\<^sup>+ `` {k} - {k}" "vs_inv vs'"
      "vs_transactions vs' = fmdrop_fset (finsert k found) ?T"
      "depends (vs_transaction_dependencies vs') = without (depends (vs_transaction_dependencies vs)) (insert k (fset found))"
    by (rule vs_remove_Ok[OF assms(1,2) look, where ?'e = 'e])
  have "list_get (map fst ?es) i = Some k" using assms(4,5) by (simp add: list_get_def)
  then have "(evict_one order sample vs :: (verified_unmined_tx option \<times> verified_set, 'e) outcome) = Ok (Some v, vs')"
    using assms(3) rem(1) by (simp add: evict_one_def Let_def)
  with rem look that show ?thesis by blast
qed

lemma sample_defined:
  assumes "hash_order order" "weighted_index sample" "vs_transactions vs \<noteq> fmempty"
    "pool_sum eviction_weight (vs_transactions vs) < 2 ^ 64"
  shows "\<exists>i < length (hm_iter order (vs_transactions vs)). sample (vs_weights order vs) = Some i"
proof -
  let ?T = "vs_transactions vs" and ?es = "hm_iter order (vs_transactions vs)"
  note set = hash_order.set_hm_iter[OF assms(1), of ?T]
  have "?es \<noteq> []"
  proof
    assume "?es = []"
    then have "fmlookup ?T k = None" for k using set by (cases "fmlookup ?T k") auto
    then show False using assms(3) by (metis fmap_ext fmempty_lookup)
  qed
  moreover have "\<forall>w \<in> set (vs_weights order vs). 0 < w" by (auto simp: eviction_weight_pos)
  moreover have "sum_list (vs_weights order vs) = pool_sum eviction_weight ?T"
  proof -
    have "vs_weights order vs = map (\<lambda>k. eviction_weight (the (fmlookup ?T k))) (map fst ?es)" using set by auto
    then show ?thesis
      unfolding hash_order.keys_hm_iter[OF assms(1)] pool_sum_def
      by (metis sum_list_distinct_conv_sum_set hash_order.distinct_order[OF assms(1)] hash_order.set_order[OF assms(1)])
  qed
  ultimately show ?thesis
    using weighted_index.sample_index[OF assms(2), of "vs_weights order vs"] assms(4) by auto
qed

lemma evict_one_Ok:
  assumes "hash_order order" "weighted_index sample" "vs_inv vs" "vs_transactions vs \<noteq> fmempty"
    "pool_sum eviction_weight (vs_transactions vs) < 2 ^ 64"
  obtains k v found vs' where
    "(evict_one order sample vs :: (verified_unmined_tx option \<times> verified_set, 'e) outcome) = Ok (Some v, vs')"
    "fmlookup (vs_transactions vs) k = Some v" "vs_inv vs'"
    "fset found = (depends (vs_transaction_dependencies vs))\<^sup>+ `` {k} - {k}"
    "vs_transactions vs' = fmdrop_fset (finsert k found) (vs_transactions vs)"
proof -
  from sample_defined[OF assms(1,2,4,5)] obtain i where
    i: "i < length (hm_iter order (vs_transactions vs))" "sample (vs_weights order vs) = Some i" by blast
  obtain k v where kv: "hm_iter order (vs_transactions vs) ! i = (k, v)" by fastforce
  obtain found vs' where "(evict_one order sample vs :: (verified_unmined_tx option \<times> verified_set, 'e) outcome) = Ok (Some v, vs')"
    "fmlookup (vs_transactions vs) k = Some v" "vs_inv vs'"
    "fset found = (depends (vs_transaction_dependencies vs))\<^sup>+ `` {k} - {k}"
    "vs_transactions vs' = fmdrop_fset (finsert k found) (vs_transactions vs)"
    by (rule evict_one_at[where sample = sample and ?'e = 'e, OF assms(1,3) i(2,1) kv])
  with that show ?thesis by blast
qed

text \<open>Whatever the state, an eviction that returns has removed a transaction.\<close>

lemma remove_key_drops: "remove_key k vs = Ok (r, vs') \<Longrightarrow> vs_transactions vs' = fmdrop k (vs_transactions vs)"
proof (cases "fmlookup (vs_transactions vs) k")
  case None
  then have "fmdrop k (vs_transactions vs) = vs_transactions vs" by (intro fmap_ext) auto
  then show "remove_key k vs = Ok (r, vs') \<Longrightarrow> ?thesis" using None by (simp add: remove_key_def)
qed (auto simp: remove_key_def remove_outputs_def Let_def rust_simps)

lemma remove_keys_drops:
  "(remove_keys ks vs :: (verified_unmined_tx list \<times> verified_set, 'e) outcome) = Ok (r, vs') \<Longrightarrow> fmdom (vs_transactions vs') = fmdom (vs_transactions vs) |-| fset_of_list ks"
proof (induction ks arbitrary: vs r)
  case (Cons k ks)
  from Cons.prems obtain r1 v1 r2 where "(remove_key k vs :: (verified_unmined_tx list \<times> verified_set, 'e) outcome) = Ok (r1, v1)"
    "(remove_keys ks v1 :: (verified_unmined_tx list \<times> verified_set, 'e) outcome) = Ok (r2, vs')"
    by (auto simp: rust_simps)
  from Cons.IH[OF this(2)] remove_key_drops[OF this(1)] show ?case by auto
qed simp

lemma evict_one_shrinks:
  assumes "(evict_one order sample vs :: (verified_unmined_tx option \<times> verified_set, 'e) outcome) = Ok (r, vs')"
  shows "fcard (fmdom (vs_transactions vs')) < fcard (fmdom (vs_transactions vs))"
proof -
  from assms obtain i k removed where "list_get (map fst (hm_iter order (vs_transactions vs))) i = Some k"
    and rem: "(vs_remove order k vs :: (verified_unmined_tx list \<times> verified_set, 'e) outcome) = Ok (removed, vs')"
    by (auto simp: evict_one_def Let_def rust_simps)
  then have "k \<in> fst ` set (hm_iter order (vs_transactions vs))" by (auto simp: list_get_def split: if_splits)
  then have k: "k |\<in>| fmdom (vs_transactions vs)"
    by (auto simp: hm_iter_def List.map_filter_def intro: fmdomI)
  from rem obtain found d where "(remove_keys (order found @ [k]) (vs\<lparr>vs_transaction_dependencies := d\<rparr>) :: (verified_unmined_tx list \<times> verified_set, 'e) outcome) = Ok (removed, vs')"
    by (auto simp: vs_remove_def Let_def split: prod.splits)
  from remove_keys_drops[OF this] have "fmdom (vs_transactions vs') |\<subseteq>| fmdom (vs_transactions vs) |-| {|k|}" by auto
  with k have "fmdom (vs_transactions vs') |\<subset>| fmdom (vs_transactions vs)" by auto
  then show ?thesis by (rule pfsubset_fcard_mono)
qed

subsection \<open>Removing all transactions that match\<close>

lemma closure_without:
  assumes "D `` R \<subseteq> R"
  shows "R \<union> (without D R)\<^sup>* `` S = R \<union> D\<^sup>* `` S"
proof
  have "(without D R)\<^sup>* \<subseteq> D\<^sup>*" by (rule rtrancl_mono) (auto simp: without_def)
  then show "R \<union> (without D R)\<^sup>* `` S \<subseteq> R \<union> D\<^sup>* `` S" by auto
  have "b \<in> R \<or> (a, b) \<in> (without D R)\<^sup>*" if "(a, b) \<in> D\<^sup>*" for a b
    using that
  proof (induction rule: rtrancl_induct)
    case (step y z)
    show ?case
    proof (cases "y \<in> R \<or> z \<in> R")
      case True
      then show ?thesis using step.hyps(2) assms by auto
    next
      case False
      then have "(y, z) \<in> without D R" using step.hyps(2) by (auto simp: without_def)
      then show ?thesis using step.IH False by (auto intro: rtrancl_into_rtrancl)
    qed
  qed simp
  then show "R \<union> D\<^sup>* `` S \<subseteq> R \<union> (without D R)\<^sup>* `` S" by auto
qed

lemma closure_insert: "D\<^sup>* `` {k} \<union> D\<^sup>* `` (S - D\<^sup>* `` {k}) = D\<^sup>* `` (insert k S)"
proof -
  have "D\<^sup>* `` (S \<inter> D\<^sup>* `` {k}) \<subseteq> D\<^sup>* `` {k}" by (blast intro: rtrancl_trans)
  then show ?thesis by blast
qed

lemma remove_matching_Ok:
  assumes "hash_order order" "vs_inv vs"
  obtains R vs' where
    "(remove_matching order ks vs :: (unmined_tx_id hash_set \<times> verified_set, 'e) outcome) =
      Ok ((\<lambda>j. um_id (vu_transaction (the (fmlookup (vs_transactions vs) j)))) |`| R, vs')"
    "fset R = (depends (vs_transaction_dependencies vs))\<^sup>* `` (set ks \<inter> fset (fmdom (vs_transactions vs)))"
    "vs_inv vs'" "vs_transactions vs' = fmdrop_fset R (vs_transactions vs)"
    "depends (vs_transaction_dependencies vs') = without (depends (vs_transaction_dependencies vs)) (fset R)"
  using assms(2)
proof (induction ks arbitrary: vs thesis)
  case Nil
  have "fmdrop_fset {||} (vs_transactions vs) = vs_transactions vs" by simp
  with Nil(1)[of "{||}" vs] Nil(2) show ?case by simp
next
  case (Cons k ks)
  let ?T = "vs_transactions vs" and ?D = "depends (vs_transaction_dependencies vs)"
  show ?case
  proof (cases "fmlookup ?T k")
    case None
    then have k: "k |\<notin>| fmdom ?T" by (auto simp: fmlookup_dom_iff)
    then have same: "set (k # ks) \<inter> fset (fmdom ?T) = set ks \<inter> fset (fmdom ?T)" by auto
    show ?thesis
    proof (rule Cons.IH[OF _ Cons.prems(2)], goal_cases)
      case (1 R w)
      then show ?case using k by (intro Cons.prems(1)[of R w, unfolded same]) simp_all
    qed
  next
    case (Some v)
    obtain found v1 where
      one: "(vs_remove order k vs :: (verified_unmined_tx list \<times> verified_set, 'e) outcome) = Ok (map (\<lambda>j. the (fmlookup ?T j)) (order found) @ [v], v1)"
        "fset found = ?D\<^sup>+ `` {k} - {k}" "vs_inv v1" "vs_transactions v1 = fmdrop_fset (finsert k found) ?T"
        "depends (vs_transaction_dependencies v1) = without ?D (insert k (fset found))"
      by (rule vs_remove_Ok[OF assms(1) Cons.prems(2) Some, where ?'e = 'e])
    obtain R2 v2 where
      two: "(remove_matching order ks v1 :: (unmined_tx_id hash_set \<times> verified_set, 'e) outcome) =
          Ok ((\<lambda>j. um_id (vu_transaction (the (fmlookup (vs_transactions v1) j)))) |`| R2, v2)"
        "fset R2 = (depends (vs_transaction_dependencies v1))\<^sup>* `` (set ks \<inter> fset (fmdom (vs_transactions v1)))"
        "vs_inv v2" "vs_transactions v2 = fmdrop_fset R2 (vs_transactions v1)"
        "depends (vs_transaction_dependencies v2) = without (depends (vs_transaction_dependencies v1)) (fset R2)"
      by (rule Cons.IH[OF _ one(3)])
    let ?R = "finsert k found |\<union>| R2"
    have "(k, j) \<in> ?D\<^sup>* \<longleftrightarrow> j = k \<or> (k, j) \<in> ?D\<^sup>+" for j by (metis rtrancl_eq_or_trancl)
    then have cl: "insert k (fset found) = ?D\<^sup>* `` {k}" unfolding one(2) by blast
    have "fset R2 \<inter> insert k (fset found) = {}"
    proof -
      have "b \<notin> insert k (fset found)" if "(a, b) \<in> (without ?D (insert k (fset found)))\<^sup>*" "a \<notin> insert k (fset found)" for a b
        using that by (induction rule: rtrancl_induct) (auto simp: without_def)
      then show ?thesis unfolding two(2) one(4,5) by auto
    qed
    then have same: "the (fmlookup (vs_transactions v1) j) = the (fmlookup ?T j)" if "j |\<in>| R2" for j
      using that unfolding one(4) by (auto simp: fmfilter_alt_defs)
    have closed: "?D `` (?D\<^sup>* `` {k}) \<subseteq> ?D\<^sup>* `` {k}" by (auto intro: rtrancl_into_rtrancl)
    have left: "set ks \<inter> fset (fmdom (vs_transactions v1)) = set ks \<inter> fset (fmdom ?T) - ?D\<^sup>* `` {k}"
      unfolding one(4) cl[symmetric] by auto
    have "fset ?R = ?D\<^sup>* `` {k} \<union> ?D\<^sup>* `` (set ks \<inter> fset (fmdom ?T) - ?D\<^sup>* `` {k})"
      using closure_without[OF closed] cl unfolding union_fset finsert.rep_eq two(2) one(5) left by simp
    also have "\<dots> = ?D\<^sup>* `` (insert k (set ks \<inter> fset (fmdom ?T)))" by (rule closure_insert)
    also have "insert k (set ks \<inter> fset (fmdom ?T)) = set (k # ks) \<inter> fset (fmdom ?T)" using Some by (auto intro: fmdomI)
    finally have R: "fset ?R = ?D\<^sup>* `` (set (k # ks) \<inter> fset (fmdom ?T))" .
    have "fset_of_list (map (\<lambda>v. um_id (vu_transaction v)) (map (\<lambda>j. the (fmlookup ?T j)) (order found) @ [v])) |\<union>|
        (\<lambda>j. um_id (vu_transaction (the (fmlookup (vs_transactions v1) j)))) |`| R2 =
        (\<lambda>j. um_id (vu_transaction (the (fmlookup ?T j)))) |`| ?R"
      using same hash_order.set_order[OF assms(1), of found] Some by (auto simp: fset_eq_iff fset_of_list_elem image_iff)
    moreover have "k |\<in>| fmdom ?T" using Some by (rule fmdomI)
    ultimately have eq: "(remove_matching order (k # ks) vs :: (unmined_tx_id hash_set \<times> verified_set, 'e) outcome) =
        Ok ((\<lambda>j. um_id (vu_transaction (the (fmlookup ?T j)))) |`| ?R, v2)" using one(1) two(1) by simp
    have "vs_transactions v2 = fmdrop_fset ?R ?T" unfolding two(4) one(4) by (intro fmap_ext) (auto simp: fmfilter_alt_defs)
    moreover have "depends (vs_transaction_dependencies v2) = without ?D (fset ?R)" unfolding two(5) one(5) by simp
    ultimately show ?thesis using Cons.prems(1)[OF eq R two(3)] by blast
  qed
qed

end
