(* ===== verification/Eviction_List.thy ===== *)
theory Eviction_List
  imports Hash_Collections Transparent
begin

section \<open>The eviction list (zebrad/src/components/mempool/storage/eviction_list.rs)\<close>

text \<open>
  Transaction ids with the time they were added, oldest first. Instants are ticks of a clock, and one
  operation reads the clock once: \<open>now\<close> is the time of the operation. The difference of instants
  saturates at zero.
\<close>

record eviction_list =
  el_unique_entries :: "(tx_hash, nat) hash_map"
  el_ordered_entries :: "tx_hash list"
  el_max_size :: nat
  el_eviction_memory_time :: nat

definition eviction_list_new :: "nat \<Rightarrow> nat \<Rightarrow> eviction_list" where
  "eviction_list_new max_size memory_time =
     \<lparr>el_unique_entries = fmempty, el_ordered_entries = [], el_max_size = max_size,
      el_eviction_memory_time = memory_time\<rparr>"

definition has_expired :: "nat \<Rightarrow> eviction_list \<Rightarrow> nat \<Rightarrow> bool" where
  "has_expired now l evicted_at \<longleftrightarrow> now - evicted_at > el_eviction_memory_time l"

definition pop_front :: "eviction_list \<Rightarrow> (tx_hash option \<times> eviction_list, 'e) outcome" where
  "pop_front l =
     (case el_ordered_entries l of
        [] \<Rightarrow> Ok (None, l)
      | key # rest \<Rightarrow>
          if fmlookup (el_unique_entries l) key = None then Panic
          else Ok (Some key, l\<lparr>el_ordered_entries := rest, el_unique_entries := fmdrop key (el_unique_entries l)\<rparr>))"

function prune_old :: "nat \<Rightarrow> eviction_list \<Rightarrow> (eviction_list, 'e) outcome" where
  "prune_old now l =
     (case el_ordered_entries l of
        [] \<Rightarrow> Ok l
      | txid # _ \<Rightarrow>
          (case fmlookup (el_unique_entries l) txid of
             None \<Rightarrow> Panic
           | Some evicted_at \<Rightarrow>
               if has_expired now l evicted_at
               then (case (pop_front l :: (tx_hash option \<times> eviction_list, 'e) outcome) of Ok (_, l') \<Rightarrow> prune_old now l' | _ \<Rightarrow> Panic)
               else Ok l))"
  by pat_completeness auto
termination
  by (relation "measure (\<lambda>(now, l). length (el_ordered_entries l))") (auto simp: pop_front_def split: if_splits)

declare prune_old.simps [simp del]

definition el_len :: "nat \<Rightarrow> eviction_list \<Rightarrow> (nat \<times> eviction_list, 'e) outcome" where
  "el_len now l = and_then (prune_old now l) (\<lambda>l. Ok (fcard (fmdom (el_unique_entries l)), l))"

definition el_contains_key :: "nat \<Rightarrow> eviction_list \<Rightarrow> tx_hash \<Rightarrow> bool" where
  "el_contains_key now l txid =
     (case fmlookup (el_unique_entries l) txid of
        Some evicted_at \<Rightarrow> \<not> has_expired now l evicted_at
      | None \<Rightarrow> False)"

definition el_insert :: "nat \<Rightarrow> tx_hash \<Rightarrow> eviction_list \<Rightarrow> (eviction_list, 'e) outcome" where
  "el_insert now key l =
     and_then (prune_old now l) (\<lambda>l.
     and_then (el_len now l) (\<lambda>(n, l).
     and_then (if n \<ge> el_max_size l then and_then (pop_front l) (\<lambda>(_, l). Ok l) else Ok l) (\<lambda>l.
       if fmlookup (el_unique_entries l) key \<noteq> None then Panic
       else Ok (l\<lparr>el_unique_entries := fmupd key now (el_unique_entries l),
                  el_ordered_entries := el_ordered_entries l @ [key]\<rparr>))))"

definition el_clear :: "eviction_list \<Rightarrow> eviction_list" where
  "el_clear l = l\<lparr>el_unique_entries := fmempty, el_ordered_entries := []\<rparr>"

subsection \<open>The invariant\<close>

text \<open>Both collections have the same ids, in the order of their times, none later than \<open>now\<close>.\<close>

abbreviation el_time :: "eviction_list \<Rightarrow> tx_hash \<Rightarrow> nat" where
  "el_time l k \<equiv> the (fmlookup (el_unique_entries l) k)"

definition el_inv :: "nat \<Rightarrow> eviction_list \<Rightarrow> bool" where
  "el_inv now l \<longleftrightarrow>
     distinct (el_ordered_entries l) \<and> set (el_ordered_entries l) = fset (fmdom (el_unique_entries l)) \<and>
     sorted (map (el_time l) (el_ordered_entries l)) \<and>
     (\<forall>k \<in> set (el_ordered_entries l). el_time l k \<le> now)"

lemma el_inv_new: "el_inv now (eviction_list_new m t)"
  by (simp add: el_inv_def eviction_list_new_def)

lemma el_inv_clear: "el_inv now (el_clear l)"
  by (simp add: el_inv_def el_clear_def)

lemma el_inv_later: "el_inv now l \<Longrightarrow> now \<le> later \<Longrightarrow> el_inv later l"
  unfolding el_inv_def using le_trans by blast

lemma el_lookup: "el_inv now l \<Longrightarrow> k \<in> set (el_ordered_entries l) \<Longrightarrow> \<exists>t. fmlookup (el_unique_entries l) k = Some t"
  by (auto simp: el_inv_def fmlookup_dom_iff)

lemma el_lookup_None: "el_inv now l \<Longrightarrow> fmlookup (el_unique_entries l) k = None \<longleftrightarrow> k \<notin> set (el_ordered_entries l)"
  by (auto simp: el_inv_def fmlookup_dom_iff)

lemma el_contains_iff:
  "el_inv t l \<Longrightarrow> el_contains_key now l k \<longleftrightarrow> k \<in> set (el_ordered_entries l) \<and> \<not> has_expired now l (el_time l k)"
  by (cases "fmlookup (el_unique_entries l) k") (auto simp: el_contains_key_def el_inv_def fmlookup_dom_iff)

text \<open>A list without its oldest ids.\<close>

definition el_drop :: "nat \<Rightarrow> eviction_list \<Rightarrow> eviction_list" where
  "el_drop n l = l\<lparr>el_ordered_entries := drop n (el_ordered_entries l),
     el_unique_entries := fmdrop_fset (fset_of_list (take n (el_ordered_entries l))) (el_unique_entries l)\<rparr>"

lemma el_drop_simps [simp]:
  "el_ordered_entries (el_drop n l) = drop n (el_ordered_entries l)"
  "el_max_size (el_drop n l) = el_max_size l" "el_eviction_memory_time (el_drop n l) = el_eviction_memory_time l"
  "has_expired now (el_drop n l) = has_expired now l"
  by (simp_all add: el_drop_def has_expired_def fun_eq_iff)

lemma el_drop_0 [simp]: "el_drop 0 l = l"
  by (simp add: el_drop_def)

lemma el_time_drop:
  "distinct (el_ordered_entries l) \<Longrightarrow> k \<in> set (drop n (el_ordered_entries l)) \<Longrightarrow> el_time (el_drop n l) k = el_time l k"
  using set_take_disj_set_drop_if_distinct[of "el_ordered_entries l" n n]
  by (auto simp: el_drop_def fset_of_list_elem)

lemma el_inv_drop:
  assumes i: "el_inv now l"
  shows "el_inv now (el_drop n l)"
proof -
  from i have d: "distinct (el_ordered_entries l)" and e: "set (el_ordered_entries l) = fset (fmdom (el_unique_entries l))"
    and s: "sorted (map (el_time l) (el_ordered_entries l))" and t: "\<forall>k \<in> set (el_ordered_entries l). el_time l k \<le> now"
    unfolding el_inv_def by blast+
  have tm: "map (el_time (el_drop n l)) (drop n (el_ordered_entries l)) = drop n (map (el_time l) (el_ordered_entries l))"
    using el_time_drop[OF d] by (simp add: drop_map)
  have split: "set (take n (el_ordered_entries l)) \<union> set (drop n (el_ordered_entries l)) = set (el_ordered_entries l)"
    by (metis append_take_drop_id set_append)
  have "fset (fmdom (el_unique_entries (el_drop n l))) =
      fset (fmdom (el_unique_entries l)) - set (take n (el_ordered_entries l))"
    by (auto simp: el_drop_def fset_of_list_elem)
  also have "\<dots> = set (drop n (el_ordered_entries l))"
    using split set_take_disj_set_drop_if_distinct[OF d, of n n] unfolding e[symmetric] by auto
  finally have dom: "set (el_ordered_entries (el_drop n l)) = fset (fmdom (el_unique_entries (el_drop n l)))" by simp
  have tb: "\<forall>k \<in> set (el_ordered_entries (el_drop n l)). el_time (el_drop n l) k \<le> now"
    using t el_time_drop[OF d] by (metis el_drop_simps(1) in_set_dropD)
  show ?thesis
    unfolding el_inv_def
    by (intro conjI dom tb) (use d s in \<open>simp_all add: tm sorted_wrt_drop\<close>)
qed

lemma pop_front_eq:
  assumes "el_inv now l"
  shows "pop_front l = (Ok (case el_ordered_entries l of [] \<Rightarrow> None | k # _ \<Rightarrow> Some k, el_drop 1 l) ::
    (tx_hash option \<times> eviction_list, 'e) outcome)"
proof (cases "el_ordered_entries l")
  case Nil
  then show ?thesis by (cases l) (simp add: pop_front_def el_drop_def)
next
  case (Cons k ks)
  have "fmlookup (el_unique_entries l) k \<noteq> None" using el_lookup_None[OF assms, of k] Cons by simp
  moreover have "fmdrop_fset {|k|} m = fmdrop k m" for m :: "(tx_hash, nat) fmap"
    by (simp add: fmdrop_fset_single)
  ultimately show ?thesis using Cons by (simp add: pop_front_def el_drop_def)
qed

subsection \<open>Pruning\<close>

lemma has_expired_older: "s \<le> t \<Longrightarrow> has_expired now l t \<Longrightarrow> has_expired now l s"
  by (simp add: has_expired_def)

definition el_expired :: "nat \<Rightarrow> eviction_list \<Rightarrow> nat" where
  "el_expired now l = length (takeWhile (\<lambda>k. has_expired now l (el_time l k)) (el_ordered_entries l))"

text \<open>The entries are in the order of their times, so the expired ones come first.\<close>

lemma drop_expired:
  assumes "el_inv t l"
  shows "drop (el_expired now l) (el_ordered_entries l) =
    filter (\<lambda>k. \<not> has_expired now l (el_time l k)) (el_ordered_entries l)"
proof -
  have "dropWhile (\<lambda>k. has_expired now l (el_time l k)) ks = filter (\<lambda>k. \<not> has_expired now l (el_time l k)) ks"
    if "sorted (map (el_time l) ks)" for ks
    using that
  proof (induction ks)
    case (Cons k ks)
    show ?case
    proof (cases "has_expired now l (el_time l k)")
      case True
      then show ?thesis using Cons by simp
    next
      case False
      then have "\<forall>j \<in> set ks. \<not> has_expired now l (el_time l j)" using Cons.prems has_expired_older by (auto simp: )
      then show ?thesis using False by simp
    qed
  qed simp
  then show ?thesis
    using assms unfolding el_inv_def el_expired_def by (metis dropWhile_eq_drop)
qed

lemma el_drop_drop: "el_drop m (el_drop n l) = el_drop (m + n) l"
proof -
  have "fset_of_list (take m (drop n xs)) |\<union>| fset_of_list (take n xs) = fset_of_list (take (m + n) xs)"
    for xs :: "tx_hash list"
    by (metis add.commute fset_of_list_append sup_commute take_add)
  then show ?thesis by (simp add: el_drop_def)
qed

lemma prune_old_eq:
  assumes "el_inv t l"
  shows "prune_old now l = (Ok (el_drop (el_expired now l) l) :: (eviction_list, 'e) outcome)"
  using assms
proof (induction "length (el_ordered_entries l)" arbitrary: l)
  case 0
  then show ?case by (simp add: prune_old.simps el_expired_def)
next
  case (Suc n)
  then obtain k ks where k: "el_ordered_entries l = k # ks" by (metis length_Suc_conv)
  then obtain tk where look: "fmlookup (el_unique_entries l) k = Some tk" using el_lookup[OF Suc.prems, of k] by auto
  show ?case
  proof (cases "has_expired now l tk")
    case False
    then have "el_expired now l = 0" by (simp add: el_expired_def k look)
    then show ?thesis using False by (simp add: prune_old.simps k look)
  next
    case True
    have inv: "el_inv t (el_drop 1 l)" by (rule el_inv_drop[OF Suc.prems])
    have d: "distinct (el_ordered_entries l)" using Suc.prems by (simp add: el_inv_def)
    have "takeWhile (\<lambda>k. has_expired now l (el_time (el_drop 1 l) k)) ks = takeWhile (\<lambda>k. has_expired now l (el_time l k)) ks"
      by (rule takeWhile_cong) (use el_time_drop[OF d, of _ 1] k in auto)
    then have e: "el_expired now l = el_expired now (el_drop 1 l) + 1" using True by (simp add: el_expired_def k look)
    have "prune_old now l = (prune_old now (el_drop 1 l) :: (eviction_list, 'e) outcome)"
      using True by (subst prune_old.simps) (simp add: k look pop_front_eq[OF Suc.prems])
    also have "\<dots> = Ok (el_drop (el_expired now (el_drop 1 l)) (el_drop 1 l))"
      using Suc.hyps(1)[OF _ inv] Suc.hyps(2) k by simp
    finally show ?thesis by (simp add: el_drop_drop e)
  qed
qed

subsection \<open>Insertion\<close>

text \<open>What is kept of a list to make room for one more id.\<close>

definition el_kept :: "nat \<Rightarrow> eviction_list \<Rightarrow> tx_hash list" where
  "el_kept now l =
     (let fresh = filter (\<lambda>k. \<not> has_expired now l (el_time l k)) (el_ordered_entries l) in
      if length fresh \<ge> el_max_size l then drop 1 fresh else fresh)"

lemma el_card: "el_inv t l \<Longrightarrow> fcard (fmdom (el_unique_entries l)) = length (el_ordered_entries l)"
  unfolding el_inv_def fcard.rep_eq by (metis distinct_card)

lemma el_expired_drop:
  assumes "el_inv t l"
  shows "el_expired now (el_drop (el_expired now l) l) = 0"
proof -
  let ?n = "el_expired now l"
  have d: "distinct (el_ordered_entries l)" using assms by (simp add: el_inv_def)
  show ?thesis
  proof (cases "drop ?n (el_ordered_entries l)")
    case (Cons k ks)
    then have "k \<in> set (filter (\<lambda>k. \<not> has_expired now l (el_time l k)) (el_ordered_entries l))"
      unfolding drop_expired[OF assms, symmetric] by simp
    moreover have "el_time (el_drop ?n l) k = el_time l k" using el_time_drop[OF d, of k ?n] Cons by simp
    ultimately show ?thesis unfolding el_expired_def[of now "el_drop ?n l"] el_drop_simps Cons by simp
  qed (simp add: el_expired_def[of now "el_drop ?n l"])
qed

lemma el_kept_drop:
  assumes "el_inv t l"
  shows "\<exists>n. el_kept now l = drop n (el_ordered_entries l) \<and>
    el_insert now key l =
      (if key \<in> set (el_kept now l) then Panic
       else (Ok ((el_drop n l)\<lparr>el_unique_entries := fmupd key now (el_unique_entries (el_drop n l)),
            el_ordered_entries := el_kept now l @ [key]\<rparr>) :: (eviction_list, 'e) outcome))"
proof -
  let ?n = "el_expired now l" and ?l = "el_drop (el_expired now l) l"
  note inv = el_inv_drop[OF assms, of ?n]
  have len: "(el_len now ?l :: (nat \<times> eviction_list, 'e) outcome) = Ok (length (drop ?n (el_ordered_entries l)), ?l)"
    using el_card[OF inv] by (simp add: el_len_def prune_old_eq[OF inv] el_expired_drop[OF assms])
  define m where "m = (if el_max_size l \<le> length (drop ?n (el_ordered_entries l)) then 1 + ?n else ?n)"
  have kept: "el_kept now l = drop m (el_ordered_entries l)"
    unfolding el_kept_def m_def Let_def drop_expired[OF assms, symmetric] by simp
  have room: "(if el_max_size l \<le> length (drop ?n (el_ordered_entries l))
      then and_then (pop_front ?l) (\<lambda>(_, l). Ok l) else Ok ?l) = (Ok (el_drop m l) :: (eviction_list, 'e) outcome)"
    unfolding m_def by (simp add: pop_front_eq[OF inv] el_drop_drop)
  have "fmlookup (el_unique_entries (el_drop m l)) key \<noteq> None \<longleftrightarrow> key \<in> set (el_kept now l)"
    using el_lookup_None[OF el_inv_drop[OF assms, of m], of key] by (simp add: kept)
  then have "el_insert now key l =
      (if key \<in> set (el_kept now l) then Panic
       else (Ok ((el_drop m l)\<lparr>el_unique_entries := fmupd key now (el_unique_entries (el_drop m l)),
            el_ordered_entries := el_kept now l @ [key]\<rparr>) :: (eviction_list, 'e) outcome))"
    unfolding el_insert_def prune_old_eq[OF assms] using len room by (simp add: kept)
  with kept show ?thesis by blast
qed

lemma el_insert_spec:
  assumes "el_inv t l" "t \<le> now"
  shows "key \<in> set (el_kept now l) \<Longrightarrow> (el_insert now key l :: (eviction_list, 'e) outcome) = Panic"
    and "key \<notin> set (el_kept now l) \<Longrightarrow>
      \<exists>l'. (el_insert now key l :: (eviction_list, 'e) outcome) = Ok l' \<and> el_inv now l' \<and> el_ordered_entries l' = el_kept now l @ [key] \<and>
        el_max_size l' = el_max_size l \<and> el_eviction_memory_time l' = el_eviction_memory_time l \<and>
        el_time l' key = now \<and> (\<forall>k \<in> set (el_kept now l). el_time l' k = el_time l k)"
proof -
  show "key \<in> set (el_kept now l) \<Longrightarrow> (el_insert now key l :: (eviction_list, 'e) outcome) = Panic"
    using el_kept_drop[OF assms(1), of now key] by auto
  assume key: "key \<notin> set (el_kept now l)"
  from el_kept_drop[where ?'e = 'e, OF assms(1), of now key] obtain n where kept: "el_kept now l = drop n (el_ordered_entries l)"
    and ins: "(el_insert now key l :: (eviction_list, 'e) outcome) = Ok ((el_drop n l)\<lparr>el_unique_entries := fmupd key now (el_unique_entries (el_drop n l)),
            el_ordered_entries := el_kept now l @ [key]\<rparr>)" (is "_ = Ok ?l'") by (metis key)
  have d: "distinct (el_ordered_entries l)" using assms(1) by (simp add: el_inv_def)
  have inv: "el_inv now (el_drop n l)" by (rule el_inv_later[OF el_inv_drop[OF assms(1)] assms(2)])
  have same: "el_time ?l' k = el_time (el_drop n l) k" if "k \<in> set (el_kept now l)" for k
    using that key by auto
  have times: "map (el_time ?l') (el_kept now l @ [key]) = map (el_time (el_drop n l)) (el_kept now l) @ [now]"
    using same by auto
  have old: "\<forall>x \<in> set (el_kept now l). el_time (el_drop n l) x \<le> now" "sorted (map (el_time (el_drop n l)) (el_kept now l))"
    "distinct (el_kept now l)" "set (el_kept now l) = fset (fmdom (el_unique_entries (el_drop n l)))"
    using inv unfolding el_inv_def kept by simp_all
  have sorted: "sorted (map (el_time ?l') (el_kept now l @ [key]))" unfolding times using old by (auto simp: sorted_append)
  have "\<forall>x \<in> set (el_kept now l @ [key]). el_time ?l' x \<le> now" using same old(1) by auto
  then have "el_inv now ?l'"
    unfolding el_inv_def using key old sorted by (simp del: map_append fmupd_lookup)
  moreover have "\<forall>k \<in> set (el_kept now l). el_time ?l' k = el_time l k"
    using same el_time_drop[OF d, of _ n] by (simp add: kept)
  ultimately show "\<exists>l'. (el_insert now key l :: (eviction_list, 'e) outcome) = Ok l' \<and> el_inv now l' \<and> el_ordered_entries l' = el_kept now l @ [key] \<and>
        el_max_size l' = el_max_size l \<and> el_eviction_memory_time l' = el_eviction_memory_time l \<and>
        el_time l' key = now \<and> (\<forall>k \<in> set (el_kept now l). el_time l' k = el_time l k)"
    using ins by (intro exI[of _ ?l']) simp
qed

text \<open>What the list answers for after an insertion.\<close>

lemma el_insert_bounded:
  assumes "el_inv t l" "t \<le> now" "0 < el_max_size l" "length (el_ordered_entries l) \<le> el_max_size l"
  shows "if key \<in> set (el_kept now l) then (el_insert now key l :: (eviction_list, 'e) outcome) = Panic
    else \<exists>l'. (el_insert now key l :: (eviction_list, 'e) outcome) = Ok l' \<and> el_inv now l' \<and>
      el_ordered_entries l' = el_kept now l @ [key] \<and> el_max_size l' = el_max_size l \<and> length (el_ordered_entries l') \<le> el_max_size l \<and>
      {k. el_contains_key now l' k} = insert key (set (el_kept now l)) \<and>
      (\<forall>k \<in> set (el_kept now l). el_contains_key now l k \<and> el_time l' k = el_time l k)"
proof (cases "key \<in> set (el_kept now l)")
  case False
  from el_insert_spec(2)[OF assms(1,2) False, where ?'e = 'e] obtain l' where
    l': "(el_insert now key l :: (eviction_list, 'e) outcome) = Ok l'" "el_inv now l'" "el_ordered_entries l' = el_kept now l @ [key]"
      "el_max_size l' = el_max_size l" "el_eviction_memory_time l' = el_eviction_memory_time l"
      "el_time l' key = now" "\<forall>k \<in> set (el_kept now l). el_time l' k = el_time l k" by blast
  have same: "has_expired now l' = has_expired now l" using l'(5) by (simp add: has_expired_def fun_eq_iff)
  have fresh: "k \<in> set (el_ordered_entries l)" "\<not> has_expired now l (el_time l k)" if "k \<in> set (el_kept now l)" for k
    using that by (auto simp: el_kept_def Let_def dest: in_set_dropD split: if_splits)
  have new: "\<not> has_expired now l now" by (simp add: has_expired_def)
  have "length (el_kept now l) < el_max_size l"
    using assms(3,4) length_filter_le[of "\<lambda>k. \<not> has_expired now l (el_time l k)" "el_ordered_entries l"]
    unfolding el_kept_def Let_def by (cases "filter (\<lambda>k. \<not> has_expired now l (el_time l k)) (el_ordered_entries l)") auto
  moreover have "{k. el_contains_key now l' k} = insert key (set (el_kept now l))"
    using l'(3,6,7) fresh(2) new by (auto simp: el_contains_iff[OF l'(2)] same)
  moreover have "\<forall>k \<in> set (el_kept now l). el_contains_key now l k"
    using fresh by (simp add: el_contains_iff[OF assms(1)])
  ultimately show ?thesis using False l' by auto
qed (simp add: el_insert_spec(1)[OF assms(1,2)])

subsection \<open>Properties\<close>

text \<open>
  C29. Inserting into an eviction list forgets exactly the expired ids and, when it is full, the oldest
  of the others. It panics exactly when the id is among those that are kept; otherwise the id is the
  newest, the kept ids keep their order and times, and the list has at most \<open>max_size\<close> entries, which
  are the ids it still answers for.
\<close>

theorem eviction_list_bounded:
  assumes "el_inv t l" "t \<le> now" "0 < el_max_size l" "length (el_ordered_entries l) \<le> el_max_size l"
  shows "if key \<in> set (el_kept now l) then (el_insert now key l :: (eviction_list, 'e) outcome) = Panic
    else \<exists>l'. (el_insert now key l :: (eviction_list, 'e) outcome) = Ok l' \<and> el_inv now l' \<and>
      el_ordered_entries l' = el_kept now l @ [key] \<and> el_max_size l' = el_max_size l \<and> length (el_ordered_entries l') \<le> el_max_size l \<and>
      {k. el_contains_key now l' k} = insert key (set (el_kept now l)) \<and>
      (\<forall>k \<in> set (el_kept now l). el_contains_key now l k \<and> el_time l' k = el_time l k)"
  using assms by (rule el_insert_bounded)

theorem eviction_list_bounded_witness:
  "\<exists>l. (el_insert 5 [1] (eviction_list_new 2 60) :: (eviction_list, unit) outcome) = Ok l \<and>
     el_ordered_entries l = [[1]] \<and> {k. el_contains_key 5 l k} = {[1]}"
  using eviction_list_bounded[OF el_inv_new[of 5 2 60] order_refl, of "[1]", where ?'e = unit]
  by (auto simp: eviction_list_new_def el_kept_def)

end
