(* ===== verification/Mempool_Policy.thy ===== *)
theory Mempool_Policy
  imports Unmined
begin

section \<open>Standardness of transactions (zebrad/src/components/mempool/storage/policy.rs, storage.rs)\<close>

text \<open>
  The policy that keeps non-standard transactions out of the mempool. Scripts are parsed and classified
  by a third-party library, the record \<open>script_solver\<close>: \<open>ss_parse\<close> has the value of every opcode that is
  a good push and nothing for the others, \<open>ss_standard\<close> is the kind of a script that parses and is
  standard.
\<close>

datatype script_kind = PubKey | PubKeyHash | ScriptHash | MultiSig nat nat | NullData

record script_solver =
  ss_is_push_only :: "bytes \<Rightarrow> bool"
  ss_parse :: "bytes \<Rightarrow> bytes option list"
  ss_standard :: "bytes \<Rightarrow> script_kind option"
  ss_sig_op_count :: "bytes \<Rightarrow> nat"

datatype non_standard_transaction_error =
    IsDust | ScriptSigTooLarge | ScriptSigNotPushOnly | ScriptPubKeyNonStandard | BareMultiSig | MultiOpReturn
  | DataCarrierTooLarge | TooManySigops | NonStandardInputs

definition MAX_P2SH_SIGOPS :: nat where "MAX_P2SH_SIGOPS = 15"
definition MAX_STANDARD_TX_SIGOPS :: nat where "MAX_STANDARD_TX_SIGOPS = 4000"
definition MAX_STANDARD_SCRIPTSIG_SIZE :: nat where "MAX_STANDARD_SCRIPTSIG_SIZE = 1650"
definition MAX_STANDARD_MULTISIG_PUBKEYS :: nat where "MAX_STANDARD_MULTISIG_PUBKEYS = 3"

subsection \<open>Inputs (policy.rs)\<close>

definition extract_p2sh_redeemed_script :: "script_solver \<Rightarrow> script \<Rightarrow> bytes option" where
  "extract_p2sh_redeemed_script S unlock =
     fold (\<lambda>opcode last_push_data. case opcode of Some pv \<Rightarrow> Some pv | None \<Rightarrow> last_push_data)
       (ss_parse S unlock) None"

definition count_script_push_ops :: "script_solver \<Rightarrow> bytes \<Rightarrow> nat" where
  "count_script_push_ops S script_bytes = length (filter (\<lambda>op. op \<noteq> None) (ss_parse S script_bytes))"

fun script_sig_args_expected :: "script_kind \<Rightarrow> nat option" where
  "script_sig_args_expected PubKey = Some 1"
| "script_sig_args_expected PubKeyHash = Some 2"
| "script_sig_args_expected ScriptHash = Some 1"
| "script_sig_args_expected (MultiSig required _) = Some (required + 1)"
| "script_sig_args_expected NullData = None"

text \<open>One input: \<open>continue\<close> and a completed round are \<open>True\<close>, \<open>return false\<close> is \<open>False\<close>.\<close>

definition is_input_standard :: "script_solver \<Rightarrow> input \<Rightarrow> tx_output \<Rightarrow> bool" where
  "is_input_standard S inp spent_output =
     (case inp of
        Coinbase _ _ _ \<Rightarrow> True
      | PrevOut _ unlock _ \<Rightarrow>
          (case ss_standard S (lock_script spent_output) of
             None \<Rightarrow> False
           | Some sk \<Rightarrow>
               (case script_sig_args_expected sk of
                  None \<Rightarrow> False
                | Some n_args_expected \<Rightarrow>
                    let stack_size = count_script_push_ops S unlock in
                    if sk = ScriptHash then
                      (case extract_p2sh_redeemed_script S unlock of
                         None \<Rightarrow> False
                       | Some redeemed \<Rightarrow>
                           (case ss_standard S redeemed of
                              Some inner_kind \<Rightarrow>
                                (case script_sig_args_expected inner_kind of
                                   Some inner \<Rightarrow> stack_size = n_args_expected + inner
                                 | None \<Rightarrow> False)
                            | None \<Rightarrow> ss_sig_op_count S redeemed \<le> MAX_P2SH_SIGOPS))
                    else stack_size = n_args_expected)))"

definition are_inputs_standard :: "script_solver \<Rightarrow> transaction \<Rightarrow> tx_output list \<Rightarrow> bool" where
  "are_inputs_standard S tx spent_outputs \<longleftrightarrow>
     list_all (\<lambda>(inp, spent_output). is_input_standard S inp spent_output) (zip (inputs tx) spent_outputs)"

subsection \<open>The check (storage.rs)\<close>

fun check_unlock_scripts :: "script_solver \<Rightarrow> input list \<Rightarrow> (unit, non_standard_transaction_error) outcome" where
  "check_unlock_scripts S [] = Ok ()"
| "check_unlock_scripts S (Coinbase _ _ _ # rest) = check_unlock_scripts S rest"
| "check_unlock_scripts S (PrevOut _ unlock _ # rest) =
     (if length unlock > MAX_STANDARD_SCRIPTSIG_SIZE then Err ScriptSigTooLarge
      else if \<not> ss_is_push_only S unlock then Err ScriptSigNotPushOnly
      else check_unlock_scripts S rest)"

definition check_spent_outputs :: "script_solver \<Rightarrow> verified_unmined_tx \<Rightarrow> (unit, non_standard_transaction_error) outcome" where
  "check_spent_outputs S v =
     (let tx = um_transaction (vu_transaction v) in
      if vu_spent_outputs v \<noteq> [] then
        if length (inputs tx) \<noteq> length (vu_spent_outputs v) then Err NonStandardInputs
        else if \<not> are_inputs_standard S tx (vu_spent_outputs v) then Err NonStandardInputs
        else if block_sigop_count v > MAX_STANDARD_TX_SIGOPS then Err TooManySigops
        else Ok ()
      else if vu_legacy_sigop_count v > MAX_STANDARD_TX_SIGOPS then Err TooManySigops
      else Ok ())"

text \<open>The loop over the outputs, with the count of data outputs; the count cannot pass 32 bits.\<close>

fun check_outputs ::
  "script_solver \<Rightarrow> nat \<Rightarrow> tx_output list \<Rightarrow> nat \<Rightarrow> (nat, non_standard_transaction_error) outcome" where
  "check_outputs S max_datacarrier_bytes [] data_out_count = Ok data_out_count"
| "check_outputs S max_datacarrier_bytes (out # rest) data_out_count =
     (case ss_standard S (lock_script out) of
        None \<Rightarrow> Err ScriptPubKeyNonStandard
      | Some NullData \<Rightarrow>
          if length (lock_script out) > max_datacarrier_bytes then Err DataCarrierTooLarge
          else check_outputs S max_datacarrier_bytes rest (data_out_count + 1)
      | Some (MultiSig _ pubkeys) \<Rightarrow>
          if pubkeys > MAX_STANDARD_MULTISIG_PUBKEYS then Err ScriptPubKeyNonStandard else Err BareMultiSig
      | Some _ \<Rightarrow>
          and_then (expect_ok (is_dust out)) (\<lambda>dust.
            if dust then Err IsDust else check_outputs S max_datacarrier_bytes rest data_out_count))"

definition check_standard_tx ::
  "script_solver \<Rightarrow> nat \<Rightarrow> verified_unmined_tx \<Rightarrow> (unit, non_standard_transaction_error) outcome" where
  "check_standard_tx S max_datacarrier_bytes v =
     (let tx = um_transaction (vu_transaction v) in
      and_then (check_unlock_scripts S (inputs tx)) (\<lambda>_.
      and_then (check_spent_outputs S v) (\<lambda>_.
      and_then (check_outputs S max_datacarrier_bytes (outputs tx) 0) (\<lambda>data_out_count.
        if data_out_count > 1 then Err MultiOpReturn else Ok ()))))"

text \<open>The check panics on no transaction whose outputs can be written.\<close>

lemma is_dust_Ok: "valid_output out \<Longrightarrow> \<exists>d. is_dust out = Ok d"
proof -
  assume v: "valid_output out"
  let ?n = "length (lock_script out)"
  have "?n \<le> 2097147" using v by (simp add: valid_output_def alloc_defs)
  moreover have "checked 0 u64_max (out_value out) = Some (out_value out)"
    using v by (simp add: valid_output_def contains_def checked_def money_defs int_bounds)
  moreover have "length (compact_size64_serialize ?n) \<le> 9" by (simp add: compact_size64_serialize_def)
  ultimately obtain b where b: "output_serialize out = Ok b" "length b \<le> ?n + 17"
    by (auto simp: output_serialize_def non_negative_serialize_def script_serialize_def zcash_serialize_bytes_def
        zcash_serialize_bytes_external_count_def compact_size_message_try_from_def compact_size_message_serialize_def alloc_defs)
  then have "int (length b) \<le> 2097164" using \<open>?n \<le> 2097147\<close> by linarith
  moreover from this have "0 \<le> (100 * int (length b) + 14800) div 1000" "(100 * int (length b) + 14800) div 1000 \<le> 1431655765"
    by linarith+
  ultimately show ?thesis using b(1)
    by (simp add: is_dust_def ONE_THIRD_DUST_THRESHOLD_RATE_def checked_def int_bounds)
qed

lemma check_outputs_no_panic:
  "\<forall>out \<in> set outs. valid_output out \<Longrightarrow> check_outputs S m outs n \<noteq> Panic"
proof (induction outs arbitrary: n)
  case (Cons out outs)
  from Cons.prems is_dust_Ok[of out] obtain d where "is_dust out = Ok d" by auto
  with Cons show ?case by (auto split: option.splits script_kind.splits)
qed simp

lemma check_unlock_scripts_no_panic: "check_unlock_scripts S ins \<noteq> Panic"
  by (induction S ins rule: check_unlock_scripts.induct) simp_all

lemma check_standard_tx_no_panic:
  assumes "\<forall>out \<in> set (outputs (um_transaction (vu_transaction v))). valid_output out"
  shows "check_standard_tx S m v \<noteq> Panic"
  using check_outputs_no_panic[OF assms, of S m 0] check_unlock_scripts_no_panic[of S "inputs (um_transaction (vu_transaction v))"]
  by (auto simp: check_standard_tx_def check_spent_outputs_def Let_def and_then_Panic_iff split: if_splits)

end
