(* ===== verification/Mempool_Storage.thy ===== *)
theory Mempool_Storage
  imports Verified_Set Eviction_List Mempool_Policy
begin

section \<open>Mempool storage (zebrad/src/components/mempool/storage.rs)\<close>

text \<open>
  The verified transactions together with the lists of rejected ones. Errors of the transaction verifier
  are opaque to the storage, the type \<open>'t\<close>. Iteration orders of hash collections are the arguments of
  type \<open>iteration\<close>, \<open>now\<close> is the time of an operation, \<open>samples n\<close> the random choice of the \<open>n\<close>-th eviction.
  Operations that return an error also change the storage, so their result is a sum beside the new
  storage; a panic has none.
\<close>

datatype 't exact_tip_rejection_error = FailedVerification 't | FailedStandard non_standard_transaction_error

datatype same_effects_chain_rejection_error = Expired | DuplicateSpend | Mined | RandomlyEvicted

datatype 't rejection_reason =
    ExactTip "'t exact_tip_rejection_error"
  | SameEffectsTip same_effects_tip_rejection_error
  | SameEffectsChain same_effects_chain_rejection_error
  | NonStandardRejection non_standard_transaction_error

datatype 't mempool_error =
    StorageExactTip "'t exact_tip_rejection_error"
  | StorageEffectsTip same_effects_tip_rejection_error
  | StorageEffectsChain same_effects_chain_rejection_error
  | InMempool | AlreadyQueued | FullQueue | Disabled
  | NonStandardTransaction non_standard_transaction_error

record removed_transaction_ids =
  rt_mined :: "unmined_tx_id hash_set"
  rt_invalidated :: "unmined_tx_id hash_set"

type_synonym chain_rejections = "(same_effects_chain_rejection_error, eviction_list) hash_map"

record ('t, 'ch) storage =
  st_verified :: verified_set
  st_pending_outputs :: "'ch pending_outputs"
  st_tip_rejected_exact :: "(unmined_tx_id, 't exact_tip_rejection_error) hash_map"
  st_tip_rejected_same_effects :: "(tx_hash, same_effects_tip_rejection_error) hash_map"
  st_chain_rejected_same_effects :: chain_rejections
  st_eviction_memory_time :: nat
  st_tx_cost_limit :: u64
  st_max_datacarrier_bytes :: nat

record mempool_config =
  mc_tx_cost_limit :: u64
  mc_eviction_memory_time :: nat
  mc_max_datacarrier_bytes :: "nat option"

record iteration =
  it_txs :: "tx_hash hash_set \<Rightarrow> tx_hash list"
  it_ids :: "unmined_tx_id hash_set \<Rightarrow> unmined_tx_id list"
  it_errors :: "same_effects_chain_rejection_error hash_set \<Rightarrow> same_effects_chain_rejection_error list"

definition MAX_EVICTION_MEMORY_ENTRIES :: nat where "MAX_EVICTION_MEMORY_ENTRIES = 40000"
definition DEFAULT_MAX_DATACARRIER_BYTES :: nat where "DEFAULT_MAX_DATACARRIER_BYTES = 83"

definition total_len :: "removed_transaction_ids \<Rightarrow> nat" where
  "total_len r = fcard (rt_mined r) + fcard (rt_invalidated r)"

definition storage_new :: "mempool_config \<Rightarrow> ('t, 'ch) storage" where
  "storage_new config =
     \<lparr>st_verified = verified_set_default, st_pending_outputs = fmempty, st_tip_rejected_exact = fmempty,
      st_tip_rejected_same_effects = fmempty, st_chain_rejected_same_effects = fmempty,
      st_eviction_memory_time = mc_eviction_memory_time config, st_tx_cost_limit = mc_tx_cost_limit config,
      st_max_datacarrier_bytes =
        (case mc_max_datacarrier_bytes config of Some n \<Rightarrow> n | None \<Rightarrow> DEFAULT_MAX_DATACARRIER_BYTES)\<rparr>"

subsection \<open>Queries\<close>

definition st_tx_ids :: "iteration \<Rightarrow> ('t, 'ch) storage \<Rightarrow> unmined_tx_id list" where
  "st_tx_ids I st = map (\<lambda>(_, tx). um_id (vu_transaction tx)) (hm_iter (it_txs I) (vs_transactions (st_verified st)))"

definition transactions_exact :: "iteration \<Rightarrow> unmined_tx_id hash_set \<Rightarrow> ('t, 'ch) storage \<Rightarrow> unmined_tx list" where
  "transactions_exact I tx_ids st =
     List.map_filter (\<lambda>tx_id. map_option vu_transaction (fmlookup (vs_transactions (st_verified st)) (mined_id tx_id)))
       (it_ids I tx_ids)"

definition transactions_same_effects :: "iteration \<Rightarrow> tx_hash hash_set \<Rightarrow> ('t, 'ch) storage \<Rightarrow> unmined_tx list" where
  "transactions_same_effects I tx_ids st =
     map (\<lambda>(_, tx). vu_transaction tx)
       (filter (\<lambda>(tx_id, _). tx_id |\<in>| tx_ids) (hm_iter (it_txs I) (vs_transactions (st_verified st))))"

definition transaction_with_deps ::
  "tx_hash \<Rightarrow> ('t, 'ch) storage \<Rightarrow> (verified_unmined_tx \<times> tx_hash hash_set) option" where
  "transaction_with_deps tx_id st =
     map_option (\<lambda>tx. (tx, or_empty (fmlookup (td_dependencies (vs_transaction_dependencies (st_verified st))) tx_id)))
       (fmlookup (vs_transactions (st_verified st)) tx_id)"

definition contains_transaction_exact :: "tx_hash \<Rightarrow> ('t, 'ch) storage \<Rightarrow> bool" where
  "contains_transaction_exact tx_id st = vs_contains (st_verified st) tx_id"

subsection \<open>Rejections\<close>

text \<open>The lengths of all lists; measuring a list prunes it.\<close>

fun count_lists ::
  "nat \<Rightarrow> same_effects_chain_rejection_error list \<Rightarrow> chain_rejections \<Rightarrow> (nat \<times> chain_rejections, 'e) outcome" where
  "count_lists now [] m = Ok (0, m)"
| "count_lists now (e # es) m =
     (case fmlookup m e of
        None \<Rightarrow> count_lists now es m
      | Some l \<Rightarrow>
          and_then (el_len now l) (\<lambda>(n, l).
          and_then (count_lists now es (fmupd e l m)) (\<lambda>(c, m). Ok (n + c, m))))"

definition rejected_transaction_count ::
  "iteration \<Rightarrow> nat \<Rightarrow> ('t, 'ch) storage \<Rightarrow> (nat \<times> ('t, 'ch) storage, 'e) outcome" where
  "rejected_transaction_count I now st =
     and_then (count_lists now (it_errors I (fmdom (st_chain_rejected_same_effects st))) (st_chain_rejected_same_effects st))
       (\<lambda>(c, m).
         Ok (fcard (fmdom (st_tip_rejected_exact st)) + fcard (fmdom (st_tip_rejected_same_effects st)) + c,
             st\<lparr>st_chain_rejected_same_effects := m\<rparr>))"

text \<open>The gauges are not modelled, but the two counts are: they prune the lists.\<close>

definition update_rejected_metrics :: "iteration \<Rightarrow> nat \<Rightarrow> ('t, 'ch) storage \<Rightarrow> (('t, 'ch) storage, 'e) outcome" where
  "update_rejected_metrics I now st =
     and_then (rejected_transaction_count I now st) (\<lambda>(_, st).
     and_then (rejected_transaction_count I now st) (\<lambda>(_, st). Ok st))"

definition limit_rejection_list_memory :: "iteration \<Rightarrow> nat \<Rightarrow> ('t, 'ch) storage \<Rightarrow> (('t, 'ch) storage, 'e) outcome" where
  "limit_rejection_list_memory I now st =
     (let st = (if fcard (fmdom (st_tip_rejected_exact st)) > MAX_EVICTION_MEMORY_ENTRIES
                then st\<lparr>st_tip_rejected_exact := fmempty\<rparr> else st);
          st = (if fcard (fmdom (st_tip_rejected_same_effects st)) > MAX_EVICTION_MEMORY_ENTRIES
                then st\<lparr>st_tip_rejected_same_effects := fmempty\<rparr> else st) in
      update_rejected_metrics I now st)"

definition st_reject ::
  "iteration \<Rightarrow> nat \<Rightarrow> unmined_tx_id \<Rightarrow> 't rejection_reason \<Rightarrow> ('t, 'ch) storage \<Rightarrow> (('t, 'ch) storage, 'e) outcome" where
  "st_reject I now tx_id reason st =
     and_then
       (case reason of
          ExactTip e \<Rightarrow> Ok (st\<lparr>st_tip_rejected_exact := fmupd tx_id e (st_tip_rejected_exact st)\<rparr>)
        | SameEffectsTip e \<Rightarrow>
            Ok (st\<lparr>st_tip_rejected_same_effects := fmupd (mined_id tx_id) e (st_tip_rejected_same_effects st)\<rparr>)
        | SameEffectsChain e \<Rightarrow>
            let l = (case fmlookup (st_chain_rejected_same_effects st) e of
                       Some l \<Rightarrow> l
                     | None \<Rightarrow> eviction_list_new MAX_EVICTION_MEMORY_ENTRIES (st_eviction_memory_time st)) in
            and_then (el_insert now (mined_id tx_id) l) (\<lambda>l.
              Ok (st\<lparr>st_chain_rejected_same_effects := fmupd e l (st_chain_rejected_same_effects st)\<rparr>))
        | NonStandardRejection e \<Rightarrow>
            Ok (st\<lparr>st_tip_rejected_exact := fmupd tx_id (FailedStandard e) (st_tip_rejected_exact st)\<rparr>))
       (limit_rejection_list_memory I now)"

fun reject_each ::
  "iteration \<Rightarrow> nat \<Rightarrow> 't rejection_reason \<Rightarrow> unmined_tx_id list \<Rightarrow> ('t, 'ch) storage \<Rightarrow> (('t, 'ch) storage, 'e) outcome" where
  "reject_each I now reason [] st = Ok st"
| "reject_each I now reason (tx_id # tx_ids) st =
     and_then (st_reject I now tx_id reason st) (reject_each I now reason tx_ids)"

definition rejection_error :: "iteration \<Rightarrow> nat \<Rightarrow> unmined_tx_id \<Rightarrow> ('t, 'ch) storage \<Rightarrow> 't mempool_error option" where
  "rejection_error I now tx_id st =
     (case fmlookup (st_tip_rejected_exact st) tx_id of
        Some e \<Rightarrow> Some (StorageExactTip e)
      | None \<Rightarrow>
          (case fmlookup (st_tip_rejected_same_effects st) (mined_id tx_id) of
             Some e \<Rightarrow> Some (StorageEffectsTip e)
           | None \<Rightarrow>
               map_option (\<lambda>(e, _). StorageEffectsChain e)
                 (List.find (\<lambda>(_, set). el_contains_key now set (mined_id tx_id))
                   (hm_iter (it_errors I) (st_chain_rejected_same_effects st)))))"

definition contains_rejected :: "iteration \<Rightarrow> nat \<Rightarrow> ('t, 'ch) storage \<Rightarrow> unmined_tx_id \<Rightarrow> bool" where
  "contains_rejected I now st tx_id \<longleftrightarrow> rejection_error I now tx_id st \<noteq> None"

definition rejected_transactions ::
  "iteration \<Rightarrow> nat \<Rightarrow> unmined_tx_id hash_set \<Rightarrow> ('t, 'ch) storage \<Rightarrow> unmined_tx_id list" where
  "rejected_transactions I now tx_ids st = filter (contains_rejected I now st) (it_ids I tx_ids)"

datatype 't transaction_download_verify_error = InState | StateError | DownloadFailed | Cancelled | Invalid 't

definition reject_if_needed ::
  "iteration \<Rightarrow> nat \<Rightarrow> unmined_tx_id \<Rightarrow> 't transaction_download_verify_error \<Rightarrow> ('t, 'ch) storage \<Rightarrow>
   (('t, 'ch) storage, 'e) outcome" where
  "reject_if_needed I now tx_id e st =
     (case e of Invalid error \<Rightarrow> st_reject I now tx_id (ExactTip (FailedVerification error)) st | _ \<Rightarrow> Ok st)"

definition should_download_or_verify ::
  "iteration \<Rightarrow> nat \<Rightarrow> unmined_tx_id \<Rightarrow> ('t, 'ch) storage \<Rightarrow> (unit, 't mempool_error) outcome" where
  "should_download_or_verify I now tx_id st =
     (if contains_transaction_exact (mined_id tx_id) st then Err InMempool
      else case rejection_error I now tx_id st of Some e \<Rightarrow> Err e | None \<Rightarrow> Ok ())"

definition st_clear :: "iteration \<Rightarrow> nat \<Rightarrow> ('t, 'ch) storage \<Rightarrow> (('t, 'ch) storage, 'e) outcome" where
  "st_clear I now st =
     update_rejected_metrics I now
       (st\<lparr>st_verified := vs_clear (st_verified st), st_tip_rejected_exact := fmempty,
           st_pending_outputs := po_clear (st_pending_outputs st), st_tip_rejected_same_effects := fmempty,
           st_chain_rejected_same_effects := fmempty\<rparr>)"

definition clear_tip_rejections :: "iteration \<Rightarrow> nat \<Rightarrow> ('t, 'ch) storage \<Rightarrow> (('t, 'ch) storage, 'e) outcome" where
  "clear_tip_rejections I now st =
     update_rejected_metrics I now (st\<lparr>st_tip_rejected_exact := fmempty, st_tip_rejected_same_effects := fmempty\<rparr>)"

subsection \<open>Insertion\<close>

definition reject_non_standard ::
  "iteration \<Rightarrow> nat \<Rightarrow> verified_unmined_tx \<Rightarrow> non_standard_transaction_error \<Rightarrow> ('t, 'ch) storage \<Rightarrow>
   (('t mempool_error + unit) \<times> ('t, 'ch) storage, 'e) outcome" where
  "reject_non_standard I now tx error st =
     and_then (st_reject I now (um_id (vu_transaction tx)) (NonStandardRejection error) st) (\<lambda>st.
       Ok (Inl (NonStandardTransaction error), st))"

definition reject_if_non_standard_tx ::
  "script_solver \<Rightarrow> iteration \<Rightarrow> nat \<Rightarrow> verified_unmined_tx \<Rightarrow> ('t, 'ch) storage \<Rightarrow>
   (('t mempool_error + unit) \<times> ('t, 'ch) storage, 'e) outcome" where
  "reject_if_non_standard_tx S I now tx st =
     (case check_standard_tx S (st_max_datacarrier_bytes st) tx of
        Ok _ \<Rightarrow> Ok (Inr (), st)
      | Err e \<Rightarrow> reject_non_standard I now tx e st
      | Panic \<Rightarrow> Panic)"

text \<open>A rejection changes neither the verified transactions nor the limits, so the loop below ends.\<close>

lemma count_keeps: "rejected_transaction_count I now st = Ok (c, st') \<Longrightarrow> \<exists>m. st' = st\<lparr>st_chain_rejected_same_effects := m\<rparr>"
  by (auto simp: rejected_transaction_count_def rust_simps)

lemma metrics_keeps:
  "(update_rejected_metrics I now st :: (('t, 'ch) storage, 'e) outcome) = Ok st' \<Longrightarrow> \<exists>m. st' = st\<lparr>st_chain_rejected_same_effects := m\<rparr>"
proof -
  assume "(update_rejected_metrics I now st :: (('t, 'ch) storage, 'e) outcome) = Ok st'"
  then obtain c w c' where "(rejected_transaction_count I now st :: (nat \<times> ('t, 'ch) storage, 'e) outcome) = Ok (c, w)"
    "(rejected_transaction_count I now w :: (nat \<times> ('t, 'ch) storage, 'e) outcome) = Ok (c', st')"
    by (auto simp: update_rejected_metrics_def rust_simps)
  from count_keeps[OF this(1)] count_keeps[OF this(2)] show ?thesis by auto
qed

lemma reject_keeps:
  "(st_reject I now tx_id reason st :: (('t, 'ch) storage, 'e) outcome) = Ok st' \<Longrightarrow>
   st_verified st' = st_verified st \<and> st_pending_outputs st' = st_pending_outputs st \<and>
   st_tx_cost_limit st' = st_tx_cost_limit st \<and> st_eviction_memory_time st' = st_eviction_memory_time st \<and>
   st_max_datacarrier_bytes st' = st_max_datacarrier_bytes st"
  by (auto simp: st_reject_def limit_rejection_list_memory_def Let_def rust_simps split: rejection_reason.splits if_splits
      dest!: metrics_keeps)

function evict_loop ::
  "iteration \<Rightarrow> (nat \<Rightarrow> nat list \<Rightarrow> nat option) \<Rightarrow> nat \<Rightarrow> nat \<Rightarrow> unmined_tx_id \<Rightarrow> 't mempool_error + unmined_tx_id \<Rightarrow>
   ('t, 'ch) storage \<Rightarrow> (('t mempool_error + unmined_tx_id) \<times> ('t, 'ch) storage, unit) outcome" where
  "evict_loop I samples n now unmined_tx_id result st =
     (if vs_total_cost (st_verified st) > st_tx_cost_limit st then
        (case (evict_one (it_txs I) (samples n) (st_verified st) :: (verified_unmined_tx option \<times> verified_set, unit) outcome) of
           Ok (Some victim_tx, verified) \<Rightarrow>
             (case (st_reject I now (um_id (vu_transaction victim_tx)) (SameEffectsChain RandomlyEvicted)
                      (st\<lparr>st_verified := verified\<rparr>) :: (('t, 'ch) storage, unit) outcome) of
                Ok st' \<Rightarrow>
                  evict_loop I samples (n + 1) now unmined_tx_id
                    (if um_id (vu_transaction victim_tx) = unmined_tx_id then Inl (StorageEffectsChain RandomlyEvicted) else result)
                    st'
              | _ \<Rightarrow> Panic)
         | _ \<Rightarrow> Panic)
      else Ok (result, st))"
  by pat_completeness auto
termination
proof (relation "measure (\<lambda>(_, _, _, _, _, _, st). fcard (fmdom (vs_transactions (st_verified st))))", goal_cases)
  case (2 I samples n now id result st p vo verified victim st')
  then have "(evict_one (it_txs I) (samples n) (st_verified st) :: (verified_unmined_tx option \<times> verified_set, unit) outcome) = Ok (Some victim, verified)"
    by simp
  from evict_one_shrinks[OF this] reject_keeps[OF 2(5)] show ?case by simp
qed simp

declare evict_loop.simps [simp del]

definition st_insert ::
  "'ch broadcast \<Rightarrow> script_solver \<Rightarrow> iteration \<Rightarrow> (nat \<Rightarrow> nat list \<Rightarrow> nat option) \<Rightarrow> nat \<Rightarrow> int \<Rightarrow>
   verified_unmined_tx \<Rightarrow> outpoint list \<Rightarrow> height option \<Rightarrow> ('t, 'ch) storage \<Rightarrow>
   (('t mempool_error + unmined_tx_id) \<times> ('t, 'ch) storage \<times> deliveries, unit) outcome" where
  "st_insert B S I samples now utc tx spent_mempool_outpoints height st =
     (let unmined_tx_id = um_id (vu_transaction tx); tx_id = mined_id unmined_tx_id in
      case rejection_error I now unmined_tx_id st of
        Some error \<Rightarrow> Ok (Inl error, st, {||})
      | None \<Rightarrow>
          if vs_contains (st_verified st) tx_id then Ok (Inl InMempool, st, {||})
          else
            and_then (reject_if_non_standard_tx S I now tx st) (\<lambda>(standard, st).
            case standard of
              Inl error \<Rightarrow> Ok (Inl error, st, {||})
            | Inr _ \<Rightarrow>
                and_then
                  (case vs_insert B utc tx spent_mempool_outpoints (st_pending_outputs st) height (st_verified st) of
                     Ok (verified, pending, sent) \<Rightarrow>
                       Ok (Inr unmined_tx_id, st\<lparr>st_verified := verified, st_pending_outputs := pending\<rparr>, sent)
                   | Err error \<Rightarrow>
                       and_then (st_reject I now unmined_tx_id (SameEffectsTip error) st) (\<lambda>st.
                         Ok (Inl (StorageEffectsTip error), st, {||}))
                   | Panic \<Rightarrow> Panic)
                  (\<lambda>(result, st, sent).
                and_then (evict_loop I samples 0 now unmined_tx_id result st) (\<lambda>(result, st). Ok (result, st, sent)))))"

subsection \<open>Removal\<close>

definition remove_exact ::
  "iteration \<Rightarrow> unmined_tx_id hash_set \<Rightarrow> ('t, 'ch) storage \<Rightarrow> (nat \<times> ('t, 'ch) storage, 'e) outcome" where
  "remove_exact I exact_wtxids st =
     and_then (remove_all_that (it_txs I) (\<lambda>tx. um_id (vu_transaction tx) |\<in>| exact_wtxids) (st_verified st)) (\<lambda>(removed, verified).
       Ok (fcard removed, st\<lparr>st_verified := verified\<rparr>))"

definition st_clear_mined_dependencies :: "iteration \<Rightarrow> tx_hash hash_set \<Rightarrow> ('t, 'ch) storage \<Rightarrow> ('t, 'ch) storage" where
  "st_clear_mined_dependencies I mined_ids st =
     st\<lparr>st_verified := vs_clear_mined_dependencies (it_txs I) mined_ids (st_verified st)\<rparr>"

text \<open>Whether a transaction spends or reveals something that a mined transaction did.\<close>

definition is_duplicate_spend :: "transaction list \<Rightarrow> transaction \<Rightarrow> bool" where
  "is_duplicate_spend transactions tx \<longleftrightarrow>
     (\<exists>p \<in> set (spent_outpoints tx). p \<in> set (concat (map spent_outpoints transactions))) \<or>
     (\<exists>n \<in> set (sprout_nullifiers tx). n \<in> set (concat (map sprout_nullifiers transactions))) \<or>
     (\<exists>n \<in> set (sapling_nullifiers tx). n \<in> set (concat (map sapling_nullifiers transactions))) \<or>
     (\<exists>n \<in> set (orchard_nullifiers tx). n \<in> set (concat (map orchard_nullifiers transactions))) \<or>
     (\<exists>n \<in> set (ironwood_nullifiers tx). n \<in> set (concat (map ironwood_nullifiers transactions)))"

definition reject_and_remove_same_effects ::
  "'ch broadcast \<Rightarrow> iteration \<Rightarrow> nat \<Rightarrow> tx_hash hash_set \<Rightarrow> transaction list \<Rightarrow> ('t, 'ch) storage \<Rightarrow>
   (removed_transaction_ids \<times> ('t, 'ch) storage, 'e) outcome" where
  "reject_and_remove_same_effects B I now mined_ids transactions st =
     and_then (remove_all_that (it_txs I) (\<lambda>tx. mined_id (um_id (vu_transaction tx)) |\<in>| mined_ids) (st_verified st))
       (\<lambda>(removed_mined, verified).
     let duplicate_spend_ids = fset_of_list (map (\<lambda>(_, tx). um_id (vu_transaction tx))
           (filter (\<lambda>(_, tx). is_duplicate_spend transactions (vu_tx tx)) (hm_iter (it_txs I) (vs_transactions verified)))) in
     and_then (remove_all_that (it_txs I) (\<lambda>tx. um_id (vu_transaction tx) |\<in>| duplicate_spend_ids) verified)
       (\<lambda>(removed_duplicate_spend, verified).
     and_then (reject_each I now (SameEffectsChain Mined) (map Legacy (it_txs I mined_ids)) (st\<lparr>st_verified := verified\<rparr>)) (\<lambda>st.
     and_then (reject_each I now (SameEffectsChain DuplicateSpend) (it_ids I duplicate_spend_ids) st) (\<lambda>st.
       Ok (\<lparr>rt_mined = removed_mined, rt_invalidated = removed_duplicate_spend\<rparr>,
           st\<lparr>st_pending_outputs := po_prune B (st_pending_outputs st)\<rparr>)))))"

definition is_expired :: "height \<Rightarrow> transaction \<Rightarrow> bool" where
  "is_expired tip_height tx = (case expiry_height tx of Some expiry \<Rightarrow> tip_height \<ge> expiry | None \<Rightarrow> False)"

definition remove_expired_transactions ::
  "iteration \<Rightarrow> nat \<Rightarrow> height \<Rightarrow> ('t, 'ch) storage \<Rightarrow> (unmined_tx_id hash_set \<times> ('t, 'ch) storage, 'e) outcome" where
  "remove_expired_transactions I now tip_height st =
     (let expired = filter (\<lambda>(_, tx). is_expired tip_height (vu_tx tx)) (hm_iter (it_txs I) (vs_transactions (st_verified st)));
          tx_ids = fset_of_list (map fst expired);
          unmined_tx_ids = fset_of_list (map (\<lambda>(_, tx). um_id (vu_transaction tx)) expired) in
      and_then (remove_all_that (it_txs I) (\<lambda>tx. mined_id (um_id (vu_transaction tx)) |\<in>| tx_ids) (st_verified st)) (\<lambda>(_, verified).
      and_then (reject_each I now (SameEffectsChain Expired) (map Legacy (it_txs I tx_ids)) (st\<lparr>st_verified := verified\<rparr>)) (\<lambda>st.
        Ok (unmined_tx_ids, st))))"

subsection \<open>What the service does with the storage (zebrad/src/components/mempool.rs)\<close>

text \<open>A request for an output, and the storage part of a new best chain block.\<close>

definition await_output ::
  "'ch broadcast \<Rightarrow> nat \<Rightarrow> outpoint \<Rightarrow> ('t, 'ch) storage \<Rightarrow> deliveries \<times> ('t, 'ch) storage" where
  "await_output B request outpoint st =
     (let pending = po_queue B request outpoint (st_pending_outputs st) in
      case vs_created_output (st_verified st) outpoint of
        Some output \<Rightarrow> let (sent, pending) = po_respond B outpoint output pending in (sent, st\<lparr>st_pending_outputs := pending\<rparr>)
      | None \<Rightarrow> ({||}, st\<lparr>st_pending_outputs := pending\<rparr>))"

definition new_best_block ::
  "'ch broadcast \<Rightarrow> iteration \<Rightarrow> nat \<Rightarrow> tx_hash hash_set \<Rightarrow> transaction list \<Rightarrow> height \<Rightarrow> ('t, 'ch) storage \<Rightarrow>
   (removed_transaction_ids \<times> unmined_tx_id hash_set \<times> ('t, 'ch) storage, 'e) outcome" where
  "new_best_block B I now mined_ids transactions tip_height st =
     and_then (reject_and_remove_same_effects B I now mined_ids transactions (st_clear_mined_dependencies I mined_ids st)) (\<lambda>(removed, st).
     and_then (clear_tip_rejections I now st) (\<lambda>st.
     and_then (remove_expired_transactions I now tip_height st) (\<lambda>(expired, st).
       Ok (removed, expired, st))))"

subsection \<open>The invariant\<close>

text \<open>The ids a list of chain rejections answers for.\<close>

definition live :: "nat \<Rightarrow> chain_rejections \<Rightarrow> same_effects_chain_rejection_error \<Rightarrow> tx_hash set" where
  "live now m e = {k. \<exists>l. fmlookup m e = Some l \<and> el_contains_key now l k}"

definition chain_inv :: "nat \<Rightarrow> chain_rejections \<Rightarrow> bool" where
  "chain_inv now m \<longleftrightarrow> (\<forall>e l. fmlookup m e = Some l \<longrightarrow>
     el_inv now l \<and> el_max_size l = MAX_EVICTION_MEMORY_ENTRIES \<and> length (el_ordered_entries l) \<le> MAX_EVICTION_MEMORY_ENTRIES)"

definition rejections_ok :: "nat \<Rightarrow> ('t, 'ch) storage \<Rightarrow> bool" where
  "rejections_ok now st \<longleftrightarrow> chain_inv now (st_chain_rejected_same_effects st) \<and>
     fcard (fmdom (st_tip_rejected_exact st)) \<le> MAX_EVICTION_MEMORY_ENTRIES \<and>
     fcard (fmdom (st_tip_rejected_same_effects st)) \<le> MAX_EVICTION_MEMORY_ENTRIES"

abbreviation st_pool :: "('t, 'ch) storage \<Rightarrow> pool" where
  "st_pool st \<equiv> vs_transactions (st_verified st)"

abbreviation st_live :: "nat \<Rightarrow> ('t, 'ch) storage \<Rightarrow> same_effects_chain_rejection_error \<Rightarrow> tx_hash set" where
  "st_live now st \<equiv> live now (st_chain_rejected_same_effects st)"

text \<open>
  The set of transactions is consistent and within the cost limit, no list is too long, no transaction
  of the set is rejected, and no request waits for an output the set has.
\<close>

definition st_inv :: "nat \<Rightarrow> ('t, 'ch) storage \<Rightarrow> bool" where
  "st_inv now st \<longleftrightarrow> vs_inv (st_verified st) \<and> pool_sum cost (st_pool st) \<le> unat (st_tx_cost_limit st) \<and>
     rejections_ok now st \<and> (\<forall>e. st_live now st e \<inter> fset (fmdom (st_pool st)) = {}) \<and>
     fset (fmdom (st_pending_outputs st)) \<inter> fset (fmdom (vs_created_outputs (st_verified st))) = {}"

definition same_pool :: "('t, 'ch) storage \<Rightarrow> ('t, 'ch) storage \<Rightarrow> bool" where
  "same_pool st st' \<longleftrightarrow> st_verified st' = st_verified st \<and> st_pending_outputs st' = st_pending_outputs st \<and>
     st_tx_cost_limit st' = st_tx_cost_limit st \<and> st_eviction_memory_time st' = st_eviction_memory_time st \<and>
     st_max_datacarrier_bytes st' = st_max_datacarrier_bytes st"

locale iterations =
  fixes I :: iteration
  assumes txs: "hash_order (it_txs I)" and ids: "hash_order (it_ids I)" and errors: "hash_order (it_errors I)"

subsection \<open>Rejection lists\<close>

lemma contains_later: "now \<le> later \<Longrightarrow> el_contains_key later l k \<Longrightarrow> el_contains_key now l k"
  by (auto simp: el_contains_key_def has_expired_def split: option.splits)

lemma live_later: "now \<le> later \<Longrightarrow> live later m e \<subseteq> live now m e"
  unfolding live_def using contains_later by blast

lemma chain_inv_later: "chain_inv now m \<Longrightarrow> now \<le> later \<Longrightarrow> chain_inv later m"
  unfolding chain_inv_def using el_inv_later by blast

lemma st_inv_later: "st_inv now st \<Longrightarrow> now \<le> later \<Longrightarrow> st_inv later st"
  unfolding st_inv_def rejections_ok_def using chain_inv_later live_later by blast

lemma el_len_Ok:
  assumes "el_inv now l"
  obtains n l' where "(el_len now l :: (nat \<times> eviction_list, 'e) outcome) = Ok (n, l')" "el_inv now l'" "el_max_size l' = el_max_size l"
    "length (el_ordered_entries l') \<le> length (el_ordered_entries l)" "el_contains_key now l' = el_contains_key now l"
proof -
  let ?n = "el_expired now l" and ?l = "el_drop (el_expired now l) l"
  have d: "distinct (el_ordered_entries l)" using assms by (simp add: el_inv_def)
  have "el_contains_key now ?l k \<longleftrightarrow> el_contains_key now l k" for k
    using drop_expired[OF assms, of now] el_time_drop[OF d, of k ?n]
    unfolding el_contains_iff[OF assms] el_contains_iff[OF el_inv_drop[OF assms, of ?n]] by auto
  with that[of _ ?l] el_inv_drop[OF assms, of ?n] show ?thesis
    by (simp add: el_len_def prune_old_eq[OF assms] fun_eq_iff)
qed

lemma count_lists_Ok:
  assumes "chain_inv now m"
  obtains c m' where "(count_lists now es m :: (nat \<times> chain_rejections, 'e) outcome) = Ok (c, m')" "chain_inv now m'" "live now m' = live now m"
  using assms
proof (induction es arbitrary: m thesis)
  case (Cons e es)
  show ?case
  proof (cases "fmlookup m e")
    case None
    then show ?thesis using Cons.IH[OF _ Cons.prems(2)] Cons.prems(1) by auto
  next
    case (Some l)
    then have l: "el_inv now l" "el_max_size l = MAX_EVICTION_MEMORY_ENTRIES" "length (el_ordered_entries l) \<le> MAX_EVICTION_MEMORY_ENTRIES"
      using Cons.prems(2) by (auto simp: chain_inv_def)
    obtain n l' where l': "(el_len now l :: (nat \<times> eviction_list, 'e) outcome) = Ok (n, l')" "el_inv now l'" "el_max_size l' = el_max_size l"
      "length (el_ordered_entries l') \<le> length (el_ordered_entries l)" "el_contains_key now l' = el_contains_key now l"
      by (rule el_len_Ok[OF l(1), where ?'e = 'e])
    have inv: "chain_inv now (fmupd e l' m)" using Cons.prems(2) l l' by (auto simp: chain_inv_def)
    have same: "live now (fmupd e l' m) = live now m" using Some l'(5) by (auto simp: live_def fun_eq_iff)
    obtain c m' where "(count_lists now es (fmupd e l' m) :: (nat \<times> chain_rejections, 'e) outcome) = Ok (c, m')" "chain_inv now m'"
      "live now m' = live now (fmupd e l' m)" by (rule Cons.IH[OF _ inv])
    with Cons.prems(1) Some l'(1) same show ?thesis by simp
  qed
qed simp

lemma metrics_Ok:
  assumes "chain_inv now (st_chain_rejected_same_effects st)"
  obtains m where "(update_rejected_metrics I now st :: (('t, 'ch) storage, 'e) outcome) = Ok (st\<lparr>st_chain_rejected_same_effects := m\<rparr>)"
    "chain_inv now m" "live now m = st_live now st"
proof -
  let ?es = "\<lambda>m. it_errors I (fmdom m)" and ?m = "st_chain_rejected_same_effects st"
  obtain c m1 where one: "(count_lists now (?es ?m) ?m :: (nat \<times> chain_rejections, 'e) outcome) = Ok (c, m1)" "chain_inv now m1" "live now m1 = live now ?m"
    by (rule count_lists_Ok[OF assms, where ?'e = 'e])
  obtain c' m2 where "(count_lists now (?es m1) m1 :: (nat \<times> chain_rejections, 'e) outcome) = Ok (c', m2)" "chain_inv now m2" "live now m2 = live now m1"
    by (rule count_lists_Ok[OF one(2), where ?'e = 'e])
  with one that[of m2] show ?thesis by (simp add: update_rejected_metrics_def rejected_transaction_count_def)
qed

lemma limit_Ok:
  assumes "chain_inv now (st_chain_rejected_same_effects st)"
  obtains st' where "(limit_rejection_list_memory I now st :: (('t, 'ch) storage, 'e) outcome) = Ok st'" "rejections_ok now st'"
    "st_live now st' = st_live now st" "same_pool st st'"
    "fmdom (st_tip_rejected_exact st') |\<subseteq>| fmdom (st_tip_rejected_exact st)"
proof -
  define w where "w = (let st = (if fcard (fmdom (st_tip_rejected_exact st)) > MAX_EVICTION_MEMORY_ENTRIES
                then st\<lparr>st_tip_rejected_exact := fmempty\<rparr> else st) in
          if fcard (fmdom (st_tip_rejected_same_effects st)) > MAX_EVICTION_MEMORY_ENTRIES
                then st\<lparr>st_tip_rejected_same_effects := fmempty\<rparr> else st)"
  have w: "st_chain_rejected_same_effects w = st_chain_rejected_same_effects st" "same_pool st w"
    "fcard (fmdom (st_tip_rejected_exact w)) \<le> MAX_EVICTION_MEMORY_ENTRIES"
    "fcard (fmdom (st_tip_rejected_same_effects w)) \<le> MAX_EVICTION_MEMORY_ENTRIES"
    "fmdom (st_tip_rejected_exact w) |\<subseteq>| fmdom (st_tip_rejected_exact st)"
    by (auto simp: w_def Let_def same_pool_def fcard.rep_eq)
  obtain m where "(update_rejected_metrics I now w :: (('t, 'ch) storage, 'e) outcome) = Ok (w\<lparr>st_chain_rejected_same_effects := m\<rparr>)"
    "chain_inv now m" "live now m = st_live now w" by (rule metrics_Ok[of now w, where ?'e = 'e]) (use assms w in simp)
  moreover have "(limit_rejection_list_memory I now st :: (('t, 'ch) storage, 'e) outcome) = update_rejected_metrics I now w"
    unfolding limit_rejection_list_memory_def w_def Let_def ..
  ultimately show ?thesis
    using that[of "w\<lparr>st_chain_rejected_same_effects := m\<rparr>"] w by (simp add: rejections_ok_def same_pool_def)
qed

lemma same_pool_refl [simp]: "same_pool st st"
  by (simp add: same_pool_def)

lemma same_pool_trans: "same_pool a b \<Longrightarrow> same_pool b c \<Longrightarrow> same_pool a c"
  by (simp add: same_pool_def)

text \<open>A rejection for a reason of the tip only changes the tip lists.\<close>

lemma reject_tip_Ok:
  assumes "rejections_ok now st" "\<forall>e. reason \<noteq> SameEffectsChain e"
  obtains st' where "(st_reject I now tx_id reason st :: (('t, 'ch) storage, 'e) outcome) = Ok st'" "rejections_ok now st'"
    "st_live now st' = st_live now st" "same_pool st st'"
proof -
  have inv: "chain_inv now (st_chain_rejected_same_effects st)" using assms(1) by (simp add: rejections_ok_def)
  obtain w where "(st_reject I now tx_id reason st :: (('t, 'ch) storage, 'e) outcome) = limit_rejection_list_memory I now w"
    and w: "st_chain_rejected_same_effects w = st_chain_rejected_same_effects st" "same_pool st w"
    using assms(2) by (cases reason) (simp_all add: st_reject_def same_pool_def)
  moreover obtain st' where "(limit_rejection_list_memory I now w :: (('t, 'ch) storage, 'e) outcome) = Ok st'" "rejections_ok now st'"
    "st_live now st' = st_live now w" "same_pool w st'" by (rule limit_Ok[of now w, where ?'e = 'e]) (use inv w in simp)
  ultimately show ?thesis using that[of st'] same_pool_trans by metis
qed

lemma reject_chain_Ok:
  assumes "rejections_ok now st" "mined_id tx_id \<notin> st_live now st e"
  obtains st' where "(st_reject I now tx_id (SameEffectsChain e) st :: (('t, 'ch) storage, 'e) outcome) = Ok st'" "rejections_ok now st'"
    "mined_id tx_id \<in> st_live now st' e" "\<forall>d. st_live now st' d \<subseteq> st_live now st d \<union> {mined_id tx_id}"
    "\<forall>d. d \<noteq> e \<longrightarrow> st_live now st' d = st_live now st d" "same_pool st st'"
proof -
  let ?k = "mined_id tx_id" and ?m = "st_chain_rejected_same_effects st"
  have inv: "chain_inv now ?m" using assms(1) by (simp add: rejections_ok_def)
  define l where "l = (case fmlookup ?m e of Some l \<Rightarrow> l | None \<Rightarrow> eviction_list_new MAX_EVICTION_MEMORY_ENTRIES (st_eviction_memory_time st))"
  have l: "el_inv now l" "el_max_size l = MAX_EVICTION_MEMORY_ENTRIES" "length (el_ordered_entries l) \<le> MAX_EVICTION_MEMORY_ENTRIES"
    using inv by (auto simp: l_def chain_inv_def el_inv_new[unfolded eviction_list_new_def] eviction_list_new_def split: option.splits)
  have live: "st_live now st e = {k. el_contains_key now l k}"
    by (cases "fmlookup ?m e") (auto simp: live_def l_def el_contains_key_def eviction_list_new_def)
  have "el_contains_key now l k" if "k \<in> set (el_kept now l)" for k
    using that by (auto simp: el_contains_iff[OF l(1)] el_kept_def Let_def dest: in_set_dropD split: if_splits)
  then have "?k \<notin> set (el_kept now l)" using assms(2) live by blast
  with el_insert_bounded[OF l(1) order_refl, of ?k, where ?'e = 'e] l obtain l' where
    l': "(el_insert now ?k l :: (eviction_list, 'e) outcome) = Ok l'" "el_inv now l'" "el_max_size l' = el_max_size l"
      "length (el_ordered_entries l') \<le> el_max_size l" "{k. el_contains_key now l' k} = insert ?k (set (el_kept now l))"
      "\<forall>k \<in> set (el_kept now l). el_contains_key now l k" by (auto simp: MAX_EVICTION_MEMORY_ENTRIES_def)
  define w where "w = st\<lparr>st_chain_rejected_same_effects := fmupd e l' ?m\<rparr>"
  have w: "chain_inv now (st_chain_rejected_same_effects w)" "same_pool st w"
    using inv l l' by (auto simp: w_def chain_inv_def same_pool_def)
  have live': "st_live now w d = (if d = e then insert ?k (set (el_kept now l)) else st_live now st d)" for d
    using l'(5) by (auto simp: w_def live_def)
  have eq: "(st_reject I now tx_id (SameEffectsChain e) st :: (('t, 'ch) storage, 'e) outcome) = limit_rejection_list_memory I now w"
    using l'(1) by (simp add: st_reject_def Let_def l_def[symmetric] w_def)
  obtain st' where st': "(limit_rejection_list_memory I now w :: (('t, 'ch) storage, 'e) outcome) = Ok st'" "rejections_ok now st'"
    "st_live now st' = st_live now w" "same_pool w st'" by (rule limit_Ok[OF w(1), where ?'e = 'e])
  show ?thesis
  proof (rule that[of st'])
    show "\<forall>d. st_live now st' d \<subseteq> st_live now st d \<union> {?k}"
      using live l'(6) unfolding st'(3) live' by auto
    show "\<forall>d. d \<noteq> e \<longrightarrow> st_live now st' d = st_live now st d" unfolding st'(3) live' by simp
  qed (use eq st' live' w same_pool_trans in auto)
qed

subsection \<open>The eviction loop\<close>

lemma cost_bounds: "10000 \<le> cost v" "eviction_weight v \<le> 5 * cost v"
  by (auto simp: cost_def eviction_weight_def MEMPOOL_TRANSACTION_COST_THRESHOLD_def MEMPOOL_TRANSACTION_LOW_FEE_PENALTY_def)

lemma pool_weights: "pool_sum eviction_weight T \<le> 5 * pool_sum cost T"
  unfolding pool_sum_def sum_distrib_left by (rule sum_mono) (rule cost_bounds(2))

lemma pool_sum_subset: "pool_sum f (fmdrop_fset R T) \<le> pool_sum f T"
proof -
  have "pool_sum f (fmdrop_fset R T) = (\<Sum>k \<in> fset (fmdom T) - fset R. f (the (fmlookup T k)))"
    unfolding pool_sum_def by (rule sum.cong) (auto simp: fmfilter_alt_defs)
  also have "\<dots> \<le> pool_sum f T" unfolding pool_sum_def by (rule sum_mono2) auto
  finally show ?thesis .
qed

lemma vs_cost: "vs_inv vs \<Longrightarrow> pool_sum cost (vs_transactions vs) < 2 ^ 64 \<Longrightarrow> unat (vs_total_cost vs) = pool_sum cost (vs_transactions vs)"
  by (simp add: vs_inv_def vs_cached_def unat_of_nat take_bit_nat_eq_self)

lemma created_of_pool: "vs_inv vs \<Longrightarrow> p |\<in>| fmdom (vs_created_outputs vs) \<longleftrightarrow> pool_output (vs_transactions vs) p \<noteq> None"
  by (auto simp: vs_inv_def vs_cached_def fmlookup_dom_iff)

lemma created_subset:
  assumes "vs_inv vs" "vs_inv vs'" "vs_transactions vs' = fmdrop_fset R (vs_transactions vs)"
  shows "fmdom (vs_created_outputs vs') |\<subseteq>| fmdom (vs_created_outputs vs)"
  using created_of_pool[OF assms(1)] created_of_pool[OF assms(2)]
  by (auto simp: assms(3) pool_output_def fmfilter_alt_defs split: option.splits if_splits)

text \<open>What eviction keeps; its costs need not be within the limit yet.\<close>

definition evicting :: "nat \<Rightarrow> ('t, 'ch) storage \<Rightarrow> bool" where
  "evicting now st \<longleftrightarrow> vs_inv (st_verified st) \<and> 5 * pool_sum cost (st_pool st) < 2 ^ 64 \<and> rejections_ok now st \<and>
     (\<forall>e. st_live now st e \<inter> fset (fmdom (st_pool st)) = {}) \<and>
     fset (fmdom (st_pending_outputs st)) \<inter> fset (fmdom (vs_created_outputs (st_verified st))) = {}"

lemma answered_disjoint:
  assumes "broadcast_channel B"
    "create_outputs B (indexed_outputs h tx) created pending = (created', pending', sent)"
    "fset (fmdom pending) \<inter> fset (fmdom created) = {}"
  shows "fset (fmdom pending') \<inter> fset (fmdom created') = {}"
proof -
  note a = broadcast_channel.answered_by[OF assms(1,2) distinct_indexed]
  have "p |\<notin>| fmdom created'" if p: "p |\<in>| fmdom pending'" for p
  proof -
    have "p \<notin> fst ` set (indexed_outputs h tx)" using a(4) p by (metis fmdom_notI)
    then have none: "map_of (indexed_outputs h tx) p = None" unfolding map_of_eq_None_iff .
    have "fmlookup created' p = fmlookup created p" using created_by[OF assms(2) distinct_indexed, of p] unfolding none by simp
    moreover have "p |\<notin>| fmdom created" using a(3) p assms(3) by auto
    ultimately show ?thesis by (auto simp: fmlookup_dom_iff)
  qed
  then show ?thesis by auto
qed

context iterations
begin

lemma evict_step:
  assumes "evicting now st" "weighted_index sample" "vs_total_cost (st_verified st) > st_tx_cost_limit st"
  obtains k v found vs' st' where
    "(evict_one (it_txs I) sample (st_verified st) :: (verified_unmined_tx option \<times> verified_set, unit) outcome) = Ok (Some v, vs')"
    "fmlookup (st_pool st) k = Some v" "vu_id v = k"
    "fset found = (depends (vs_transaction_dependencies (st_verified st)))\<^sup>+ `` {k} - {k}"
    "(st_reject I now (um_id (vu_transaction v)) (SameEffectsChain RandomlyEvicted) (st\<lparr>st_verified := vs'\<rparr>) :: (('t, 'ch) storage, unit) outcome) = Ok st'"
    "evicting now st'" "st_verified st' = vs'" "st_pool st' = fmdrop_fset (finsert k found) (st_pool st)"
    "st_tx_cost_limit st' = st_tx_cost_limit st" "k \<in> st_live now st' RandomlyEvicted"
    "st_pending_outputs st' = st_pending_outputs st" "\<forall>d. st_live now st' d \<subseteq> st_live now st d \<union> {k}"
proof -
  let ?T = "st_pool st"
  from assms(1) have vs: "vs_inv (st_verified st)" and sum: "5 * pool_sum cost ?T < 2 ^ 64" and rej: "rejections_ok now st"
    and live: "\<And>e. st_live now st e \<inter> fset (fmdom ?T) = {}"
    and pend: "fset (fmdom (st_pending_outputs st)) \<inter> fset (fmdom (vs_created_outputs (st_verified st))) = {}"
    by (auto simp: evicting_def)
  have "?T \<noteq> fmempty"
  proof
    assume "?T = fmempty"
    then have "vs_total_cost (st_verified st) = 0" using vs by (simp add: vs_inv_def vs_cached_def)
    then show False using assms(3) by simp
  qed
  moreover have "pool_sum eviction_weight ?T < 2 ^ 64" using pool_weights[of ?T] sum by linarith
  ultimately obtain k v found vs' where
    ev: "(evict_one (it_txs I) sample (st_verified st) :: (verified_unmined_tx option \<times> verified_set, unit) outcome) = Ok (Some v, vs')"
      "fmlookup ?T k = Some v" "vs_inv vs'" "fset found = (depends (vs_transaction_dependencies (st_verified st)))\<^sup>+ `` {k} - {k}"
      "vs_transactions vs' = fmdrop_fset (finsert k found) ?T"
    using evict_one_Ok[OF txs assms(2) vs, where ?'e = unit] by metis
  have id: "vu_id v = k" using vs ev(2) by (auto simp: vs_inv_def vs_cached_def pool_ok_def)
  have "k \<notin> st_live now st RandomlyEvicted" using live[of RandomlyEvicted] ev(2) by (auto intro: fmdomI)
  then have fresh: "vu_id v \<notin> st_live now (st\<lparr>st_verified := vs'\<rparr>) RandomlyEvicted" using id by simp
  have rej': "rejections_ok now (st\<lparr>st_verified := vs'\<rparr>)" using rej by (simp add: rejections_ok_def)
  obtain st' where
    "(st_reject I now (um_id (vu_transaction v)) (SameEffectsChain RandomlyEvicted) (st\<lparr>st_verified := vs'\<rparr>) :: (('t, 'ch) storage, unit) outcome) = Ok st'"
      "rejections_ok now st'" "vu_id v \<in> st_live now st' RandomlyEvicted"
      "\<forall>d. st_live now st' d \<subseteq> st_live now (st\<lparr>st_verified := vs'\<rparr>) d \<union> {vu_id v}"
      "\<forall>d. d \<noteq> RandomlyEvicted \<longrightarrow> st_live now st' d = st_live now (st\<lparr>st_verified := vs'\<rparr>) d"
      "same_pool (st\<lparr>st_verified := vs'\<rparr>) st'"
    by (rule reject_chain_Ok[OF rej' fresh, of I, where ?'e = unit])
  note st' = this(1-4)[unfolded id] this(6)
  have same: "st_verified st' = vs'" "st_pending_outputs st' = st_pending_outputs st" "st_tx_cost_limit st' = st_tx_cost_limit st"
    using st'(5) by (simp_all add: same_pool_def)
  have "st_live now st' d \<inter> fset (fmdom (vs_transactions vs')) = {}" for d
    using st'(4) live[of d] unfolding ev(5) by (auto simp: subset_iff)
  moreover have "5 * pool_sum cost (vs_transactions vs') < 2 ^ 64"
    using pool_sum_subset[of cost "finsert k found" ?T] sum unfolding ev(5) by linarith
  moreover have "fset (fmdom (st_pending_outputs st)) \<inter> fset (fmdom (vs_created_outputs vs')) = {}"
    using created_subset[OF vs ev(3,5)] pend by auto
  ultimately have "evicting now st'" unfolding evicting_def same using ev(3) st'(2) by blast
  moreover have "\<forall>d. st_live now st' d \<subseteq> st_live now st d \<union> {k}" using st'(4) by simp
  ultimately show ?thesis using that ev id st' same by blast
qed

lemma evict_loop_Ok:
  fixes st :: "('t, 'ch) storage"
  assumes "evicting now st" "\<And>n. weighted_index (samples n)"
  obtains result' st' R where "evict_loop I samples n now uid result st = Ok (result', st')" "evicting now st'"
    "pool_sum cost (st_pool st') \<le> unat (st_tx_cost_limit st)" "st_pool st' = fmdrop_fset R (st_pool st)"
    "st_tx_cost_limit st' = st_tx_cost_limit st" "st_pending_outputs st' = st_pending_outputs st"
  using assms(1)
proof (induction "fcard (fmdom (st_pool st))" arbitrary: n result st thesis rule: less_induct)
  case less
  have cost: "unat (vs_total_cost (st_verified st)) = pool_sum cost (st_pool st)"
    using less.prems(2) by (intro vs_cost) (auto simp: evicting_def)
  show ?case
  proof (cases "vs_total_cost (st_verified st) > st_tx_cost_limit st")
    case False
    then have "pool_sum cost (st_pool st) \<le> unat (st_tx_cost_limit st)" using cost by (simp add: word_le_nat_alt not_less)
    moreover have "evict_loop I samples n now uid result st = Ok (result, st)" using False by (subst evict_loop.simps) simp
    ultimately show ?thesis using less.prems(1)[of result st "{||}"] less.prems(2) by simp
  next
    case True
    obtain k v found vs' st1 where
      ev: "(evict_one (it_txs I) (samples n) (st_verified st) :: (verified_unmined_tx option \<times> verified_set, unit) outcome) = Ok (Some v, vs')"
      and k: "fmlookup (st_pool st) k = Some v" "vu_id v = k"
      and found: "fset found = (depends (vs_transaction_dependencies (st_verified st)))\<^sup>+ `` {k} - {k}"
      and rej: "(st_reject I now (um_id (vu_transaction v)) (SameEffectsChain RandomlyEvicted) (st\<lparr>st_verified := vs'\<rparr>) :: (('t, 'ch) storage, unit) outcome) = Ok st1"
      and st1: "evicting now st1" "st_verified st1 = vs'" "st_pool st1 = fmdrop_fset (finsert k found) (st_pool st)"
        "st_tx_cost_limit st1 = st_tx_cost_limit st" "k \<in> st_live now st1 RandomlyEvicted" "st_pending_outputs st1 = st_pending_outputs st"
        "\<forall>d. st_live now st1 d \<subseteq> st_live now st d \<union> {k}"
      by (rule evict_step[OF less.prems(2) assms(2) True])
    let ?result = "if um_id (vu_transaction v) = uid then Inl (StorageEffectsChain RandomlyEvicted) else result"
    have smaller: "fcard (fmdom (st_pool st1)) < fcard (fmdom (st_pool st))" using evict_one_shrinks[OF ev] st1(2) by simp
    obtain result' st' R where ih: "evict_loop I samples (n + 1) now uid ?result st1 = Ok (result', st')" "evicting now st'"
      "pool_sum cost (st_pool st') \<le> unat (st_tx_cost_limit st1)" "st_pool st' = fmdrop_fset R (st_pool st1)"
      "st_tx_cost_limit st' = st_tx_cost_limit st1" "st_pending_outputs st' = st_pending_outputs st1"
      by (rule less.hyps[OF smaller _ st1(1)])
    have eq: "evict_loop I samples n now uid result st = Ok (result', st')"
      using True ev rej ih(1) by (subst evict_loop.simps) simp
    have pool: "st_pool st' = fmdrop_fset (finsert k found |\<union>| R) (st_pool st)"
      unfolding ih(4) st1(3) by (intro fmap_ext) (auto simp: fmfilter_alt_defs)
    show ?thesis by (rule less.prems(1)[OF eq ih(2) _ pool]) (use ih(3,5,6) st1(4,6) in simp_all)
  qed
qed

lemma not_rejected: "rejection_error I now uid st = None \<Longrightarrow> mined_id uid \<notin> st_live now st e"
  using hash_order.set_hm_iter[OF errors, of "st_chain_rejected_same_effects st"]
  by (auto simp: rejection_error_def live_def find_None_iff split: option.splits)

text \<open>Every insertion returns, within the limit, and keeps the invariant.\<close>

lemma evicting_st_inv: "st_inv now st \<longleftrightarrow> evicting now st \<and> pool_sum cost (st_pool st) \<le> unat (st_tx_cost_limit st)"
  if "5 * unat (st_tx_cost_limit st) < 2 ^ 64"
  using that by (auto simp: st_inv_def evicting_def)

lemma inserted_evicting:
  assumes inv: "st_inv now st" and B: "broadcast_channel B" and new: "rejection_error I now (um_id (vu_transaction v)) st = None"
      "vu_id v |\<notin>| fmdom (st_pool st)"
    and ins: "insertable (st_verified st) v spent" "length (outputs (vu_tx v)) \<le> 2 ^ 32"
    and lim: "5 * (unat (st_tx_cost_limit st) + cost v) < 2 ^ 64"
  obtains vs' pending' sent where
    "vs_insert B utc v spent (st_pending_outputs st) h (st_verified st) = Ok (vs', pending', sent)"
    "vs_transactions vs' = fmupd (vu_id v) (v\<lparr>vu_time := Some utc, vu_height := h\<rparr>) (st_pool st)"
    "depends (vs_transaction_dependencies vs') = depends (vs_transaction_dependencies (st_verified st)) \<union> (\<lambda>p. (op_hash p, vu_id v)) ` set spent"
    "evicting now (st\<lparr>st_verified := vs', st_pending_outputs := pending'\<rparr>)"
proof -
  have vs: "vs_inv (st_verified st)" using inv by (simp add: st_inv_def)
  obtain vs' pending' sent created where
    vi: "vs_insert B utc v spent (st_pending_outputs st) h (st_verified st) = Ok (vs', pending', sent)"
    and co: "create_outputs B (indexed_outputs (vu_id v) (vu_tx v)) (vs_created_outputs (st_verified st)) (st_pending_outputs st) = (created, pending', sent)"
    and T: "vs_transactions vs' = fmupd (vu_id v) (v\<lparr>vu_time := Some utc, vu_height := h\<rparr>) (st_pool st)"
    and vs': "vs_created_outputs vs' = created" "vs_inv vs'"
    and deps: "depends (vs_transaction_dependencies vs') = depends (vs_transaction_dependencies (st_verified st)) \<union> (\<lambda>p. (op_hash p, vu_id v)) ` set spent"
    by (rule vs_insert_Ok[OF vs ins(1) new(2) ins(2)])
  have "pool_sum cost (vs_transactions vs') = cost v + pool_sum cost (st_pool st)" unfolding T by (simp add: pool_sum_upd[OF new(2)])
  then have "5 * pool_sum cost (vs_transactions vs') < 2 ^ 64" using inv lim by (simp add: st_inv_def)
  moreover have "st_live now st e \<inter> fset (fmdom (vs_transactions vs')) = {}" for e
    using not_rejected[OF new(1), of e] inv unfolding T st_inv_def by auto
  moreover have "fset (fmdom pending') \<inter> fset (fmdom created) = {}"
    by (rule answered_disjoint[OF B co]) (use inv in \<open>simp add: st_inv_def\<close>)
  ultimately have "evicting now (st\<lparr>st_verified := vs', st_pending_outputs := pending'\<rparr>)"
    using vs' inv by (simp add: evicting_def st_inv_def rejections_ok_def)
  with that vi T deps show ?thesis by blast
qed

lemma loop_inv:
  fixes st :: "('t, 'ch) storage"
  assumes "evicting now st" "\<And>n. weighted_index (samples n)" "5 * unat (st_tx_cost_limit st) < 2 ^ 64"
  obtains r st' where "evict_loop I samples 0 now uid result st = Ok (r, st')" "st_inv now st'" "st_tx_cost_limit st' = st_tx_cost_limit st"
proof -
  obtain r st' R where ev: "evict_loop I samples 0 now uid result st = Ok (r, st')" "evicting now st'"
    "pool_sum cost (st_pool st') \<le> unat (st_tx_cost_limit st)" "st_pool st' = fmdrop_fset R (st_pool st)"
    "st_tx_cost_limit st' = st_tx_cost_limit st" "st_pending_outputs st' = st_pending_outputs st"
    by (rule evict_loop_Ok[OF assms(1,2)])
  then have "st_inv now st'" using evicting_st_inv[of st'] assms(3) by simp
  with that ev show ?thesis by blast
qed

text \<open>The steps of an insertion after the cached errors.\<close>

lemma st_insert_steps:
  assumes "rejection_error I now (um_id (vu_transaction v)) st = None" "vu_id v |\<notin>| fmdom (st_pool st)"
  shows "check_standard_tx S (st_max_datacarrier_bytes st) v = Err e \<Longrightarrow>
      st_insert B S I samples now utc v spent h st =
        and_then (st_reject I now (um_id (vu_transaction v)) (NonStandardRejection e) st) (\<lambda>st. Ok (Inl (NonStandardTransaction e), st, {||}))"
    and "check_standard_tx S (st_max_datacarrier_bytes st) v = Ok u \<Longrightarrow>
      vs_insert B utc v spent (st_pending_outputs st) h (st_verified st) = Err t \<Longrightarrow>
      st_insert B S I samples now utc v spent h st =
        and_then (st_reject I now (um_id (vu_transaction v)) (SameEffectsTip t) st) (\<lambda>st.
        and_then (evict_loop I samples 0 now (um_id (vu_transaction v)) (Inl (StorageEffectsTip t)) st) (\<lambda>(r, st). Ok (r, st, {||})))"
    and "check_standard_tx S (st_max_datacarrier_bytes st) v = Ok u \<Longrightarrow>
      vs_insert B utc v spent (st_pending_outputs st) h (st_verified st) = Ok (vs', pending', sent) \<Longrightarrow>
      st_insert B S I samples now utc v spent h st =
        and_then (evict_loop I samples 0 now (um_id (vu_transaction v)) (Inr (um_id (vu_transaction v)))
          (st\<lparr>st_verified := vs', st_pending_outputs := pending'\<rparr>)) (\<lambda>(r, st). Ok (r, st, sent))"
  using assms
  by (simp_all add: st_insert_def Let_def vs_contains_def reject_if_non_standard_tx_def reject_non_standard_def and_then_assoc)

lemma st_insert_Ok:
  fixes st :: "('t, 'ch) storage"
  assumes inv: "st_inv now st" and B: "broadcast_channel B" and w: "\<And>n. weighted_index (samples n)"
    and outs: "\<forall>out \<in> set (outputs (vu_tx v)). valid_output out" "length (outputs (vu_tx v)) \<le> 2 ^ 32"
    and lim: "5 * (unat (st_tx_cost_limit st) + cost v) < 2 ^ 64"
  obtains r st' sent where "st_insert B S I samples now utc v spent h st = Ok (r, st', sent)" "st_inv now st'"
    "st_tx_cost_limit st' = st_tx_cost_limit st"
proof (cases "rejection_error I now (um_id (vu_transaction v)) st = None \<and> vu_id v |\<notin>| fmdom (st_pool st)")
  case False
  then have "\<exists>e. st_insert B S I samples now utc v spent h st = Ok (Inl e, st, {||})"
    by (cases "rejection_error I now (um_id (vu_transaction v)) st") (auto simp: st_insert_def vs_contains_def Let_def)
  then show ?thesis using that[OF _ inv refl] by blast
next
  case True
  then have new: "rejection_error I now (um_id (vu_transaction v)) st = None" "vu_id v |\<notin>| fmdom (st_pool st)" by auto
  note steps = st_insert_steps[OF new, where S = S and B = B and samples = samples and utc = utc and spent = spent and h = h]
  have lim': "5 * unat (st_tx_cost_limit st) < 2 ^ 64" using lim by simp
  have rej: "rejections_ok now st" using inv by (simp add: st_inv_def)
  show ?thesis
  proof (cases "check_standard_tx S (st_max_datacarrier_bytes st) v")
    case Panic
    then show ?thesis using check_standard_tx_no_panic[of v S] outs(1) by blast
  next
    case (Err e)
    obtain st' where st': "(st_reject I now (um_id (vu_transaction v)) (NonStandardRejection e) st :: (('t, 'ch) storage, unit) outcome) = Ok st'"
      "rejections_ok now st'" "st_live now st' = st_live now st" "same_pool st st'"
      by (rule reject_tip_Ok[OF rej, of "NonStandardRejection e" I, where ?'e = unit]) simp_all
    have "st_inv now st'" using inv st'(2-4) by (simp add: st_inv_def same_pool_def)
    with that[of "Inl (NonStandardTransaction e)" st' "{||}"] steps(1)[OF Err] st' show ?thesis by (simp add: same_pool_def)
  next
    case (Ok u)
    show ?thesis
    proof (cases "insertable (st_verified st) v spent")
      case False
      from vs_insert_Err[OF this, of B utc "st_pending_outputs st" h] obtain e where
        ins: "vs_insert B utc v spent (st_pending_outputs st) h (st_verified st) = Err e" by blast
      obtain st1 where st1: "(st_reject I now (um_id (vu_transaction v)) (SameEffectsTip e) st :: (('t, 'ch) storage, unit) outcome) = Ok st1"
        "rejections_ok now st1" "st_live now st1 = st_live now st" "same_pool st st1"
        by (rule reject_tip_Ok[OF rej, of "SameEffectsTip e" I, where ?'e = unit]) simp_all
      have inv1: "st_inv now st1" "st_tx_cost_limit st1 = st_tx_cost_limit st" using inv st1(2-4) by (simp_all add: st_inv_def same_pool_def)
      then have "evicting now st1" "5 * unat (st_tx_cost_limit st1) < 2 ^ 64" using evicting_st_inv[of st1] lim' by simp_all
      then obtain r st' where "evict_loop I samples 0 now (um_id (vu_transaction v)) (Inl (StorageEffectsTip e)) st1 = Ok (r, st')"
        "st_inv now st'" "st_tx_cost_limit st' = st_tx_cost_limit st1" using loop_inv w by blast
      with that[of r st' "{||}"] steps(2)[OF Ok ins] st1(1) inv1(2) show ?thesis by simp
    next
      case True
      obtain vs' pending' sent where
        ins: "vs_insert B utc v spent (st_pending_outputs st) h (st_verified st) = Ok (vs', pending', sent)"
        and ev: "evicting now (st\<lparr>st_verified := vs', st_pending_outputs := pending'\<rparr>)" (is "evicting now ?st1")
        using inserted_evicting[OF inv B new True outs(2) lim] by metis
      moreover have "5 * unat (st_tx_cost_limit ?st1) < 2 ^ 64" using lim' by simp
      ultimately obtain r st' where "evict_loop I samples 0 now (um_id (vu_transaction v)) (Inr (um_id (vu_transaction v))) ?st1 = Ok (r, st')"
        "st_inv now st'" "st_tx_cost_limit st' = st_tx_cost_limit ?st1" using loop_inv w by blast
      with that[of r st' sent] steps(3)[OF Ok ins] show ?thesis by simp
    qed
  qed
qed

lemma remove_all_that_Ok:
  assumes "vs_inv vs"
  obtains R vs' where
    "(remove_all_that (it_txs I) P vs :: (unmined_tx_id hash_set \<times> verified_set, 'e) outcome) =
      Ok ((\<lambda>j. um_id (vu_transaction (the (fmlookup (vs_transactions vs) j)))) |`| R, vs')"
    "fset R = (depends (vs_transaction_dependencies vs))\<^sup>* `` {k. \<exists>v. fmlookup (vs_transactions vs) k = Some v \<and> P v}"
    "vs_inv vs'" "vs_transactions vs' = fmdrop_fset R (vs_transactions vs)"
proof -
  let ?ks = "map fst (filter (\<lambda>(_, tx). P tx) (hm_iter (it_txs I) (vs_transactions vs)))"
  have ks: "set ?ks \<inter> fset (fmdom (vs_transactions vs)) = {k. \<exists>v. fmlookup (vs_transactions vs) k = Some v \<and> P v}"
    using hash_order.set_hm_iter[OF txs, of "vs_transactions vs"] by (force intro: fmdomI)
  obtain R vs' where "(remove_matching (it_txs I) ?ks vs :: (unmined_tx_id hash_set \<times> verified_set, 'e) outcome) =
      Ok ((\<lambda>j. um_id (vu_transaction (the (fmlookup (vs_transactions vs) j)))) |`| R, vs')"
    "fset R = (depends (vs_transaction_dependencies vs))\<^sup>* `` (set ?ks \<inter> fset (fmdom (vs_transactions vs)))"
    "vs_inv vs'" "vs_transactions vs' = fmdrop_fset R (vs_transactions vs)"
    "depends (vs_transaction_dependencies vs') = without (depends (vs_transaction_dependencies vs)) (fset R)"
    by (rule remove_matching_Ok[OF txs assms, where ?'e = 'e])
  with that show ?thesis unfolding ks remove_all_that_def by blast
qed

lemma reject_each_Ok:
  fixes st :: "('t, 'ch) storage"
  assumes "rejections_ok now st" "distinct (map mined_id uids)" "mined_id ` set uids \<inter> st_live now st e = {}"
  obtains st' where "(reject_each I now (SameEffectsChain e) uids st :: (('t, 'ch) storage, 'e) outcome) = Ok st'" "rejections_ok now st'"
    "\<forall>d. st_live now st' d \<subseteq> st_live now st d \<union> mined_id ` set uids" "\<forall>d. d \<noteq> e \<longrightarrow> st_live now st' d = st_live now st d" "same_pool st st'"
  using assms
proof (induction uids arbitrary: st thesis)
  case (Cons u us)
  have fresh: "mined_id u \<notin> st_live now st e" using Cons.prems(4) by simp
  obtain s1 where s1: "(st_reject I now u (SameEffectsChain e) st :: (('t, 'ch) storage, 'e) outcome) = Ok s1" "rejections_ok now s1"
    "mined_id u \<in> st_live now s1 e" "\<forall>d. st_live now s1 d \<subseteq> st_live now st d \<union> {mined_id u}"
    "\<forall>d. d \<noteq> e \<longrightarrow> st_live now s1 d = st_live now st d" "same_pool st s1"
    by (rule reject_chain_Ok[OF Cons.prems(2) fresh, where ?'e = 'e])
  have "mined_id ` set us \<inter> (st_live now st e \<union> {mined_id u}) = {}" using Cons.prems(3,4) by auto
  with s1(4)[rule_format, of e] have us: "mined_id ` set us \<inter> st_live now s1 e = {}" by blast
  have dist: "distinct (map mined_id us)" using Cons.prems(3) by simp
  obtain s2 where s2: "(reject_each I now (SameEffectsChain e) us s1 :: (('t, 'ch) storage, 'e) outcome) = Ok s2" "rejections_ok now s2"
    "\<forall>d. st_live now s2 d \<subseteq> st_live now s1 d \<union> mined_id ` set us" "\<forall>d. d \<noteq> e \<longrightarrow> st_live now s2 d = st_live now s1 d" "same_pool s1 s2"
    by (rule Cons.IH[OF _ s1(2) dist us])
  show ?case
  proof (rule Cons.prems(1)[of s2])
    show "\<forall>d. st_live now s2 d \<subseteq> st_live now st d \<union> mined_id ` set (u # us)" using s1(4) s2(3) by fastforce
  qed (use s1(1,5,6) s2 same_pool_trans in auto)
qed simp

lemma removed_inv:
  assumes "st_inv now st" "vs_inv vs'" "vs_transactions vs' = fmdrop_fset R (st_pool st)"
  shows "st_inv now (st\<lparr>st_verified := vs'\<rparr>)"
proof -
  have "pool_sum cost (vs_transactions vs') \<le> unat (st_tx_cost_limit st)"
    using pool_sum_subset[of cost R "st_pool st"] assms(1) unfolding assms(3) st_inv_def by linarith
  moreover have "fmdom (vs_created_outputs vs') |\<subseteq>| fmdom (vs_created_outputs (st_verified st))"
    using created_subset[OF _ assms(2,3)] assms(1) by (simp add: st_inv_def)
  then have "fset (fmdom (st_pending_outputs st)) \<inter> fset (fmdom (vs_created_outputs vs')) = {}"
    using assms(1) unfolding st_inv_def by blast
  moreover have "st_live now st e \<inter> fset (fmdom (vs_transactions vs')) = {}" for e
    using assms(1) unfolding assms(3) st_inv_def by auto
  ultimately show ?thesis using assms(1,2) by (simp add: st_inv_def rejections_ok_def)
qed

lemma rejected_inv:
  assumes "st_inv now st" "rejections_ok now st'" "same_pool st st'"
    "\<forall>d. st_live now st' d \<subseteq> st_live now st d \<union> K" "K \<inter> fset (fmdom (st_pool st)) = {}"
  shows "st_inv now st'"
proof -
  have "st_live now st' d \<inter> fset (fmdom (st_pool st)) = {}" for d
    using assms(1,4,5) unfolding st_inv_def by blast
  then show ?thesis using assms(1-3) by (simp add: st_inv_def same_pool_def)
qed

text \<open>Rejecting ids that are in no list and no longer in the set.\<close>

lemma reject_removed_Ok:
  fixes st :: "('t, 'ch) storage"
  assumes "st_inv now st" "distinct (map mined_id uids)" "mined_id ` set uids \<inter> st_live now st e = {}"
    "mined_id ` set uids \<inter> fset (fmdom (st_pool st)) = {}"
  obtains st' where "(reject_each I now (SameEffectsChain e) uids st :: (('t, 'ch) storage, 'e) outcome) = Ok st'" "st_inv now st'"
    "\<forall>d. d \<noteq> e \<longrightarrow> st_live now st' d = st_live now st d" "same_pool st st'"
proof -
  have "rejections_ok now st" using assms(1) by (simp add: st_inv_def)
  then obtain st' where st': "(reject_each I now (SameEffectsChain e) uids st :: (('t, 'ch) storage, 'e) outcome) = Ok st'" "rejections_ok now st'"
    "\<forall>d. st_live now st' d \<subseteq> st_live now st d \<union> mined_id ` set uids" "\<forall>d. d \<noteq> e \<longrightarrow> st_live now st' d = st_live now st d" "same_pool st st'"
    by (rule reject_each_Ok[OF _ assms(2,3), where ?'e = 'e])
  have "st_inv now st'" by (rule rejected_inv[OF assms(1) st'(2,5,3) assms(4)])
  with that st' show ?thesis by blast
qed

lemma pool_key: "vs_inv vs \<Longrightarrow> fmlookup (vs_transactions vs) k = Some v \<Longrightarrow> vu_id v = k"
  by (auto simp: vs_inv_def vs_cached_def pool_ok_def)

text \<open>The ids of transactions of the set have distinct transaction hashes, which are their keys.\<close>

lemma pool_ids:
  assumes "vs_inv vs" "\<forall>u. u |\<in>| U \<longrightarrow> (\<exists>k v. fmlookup (vs_transactions vs) k = Some v \<and> u = um_id (vu_transaction v))"
  shows "distinct (map mined_id (it_ids I U))" "mined_id ` set (it_ids I U) = mined_id ` fset U"
    "mined_id ` fset U \<subseteq> fset (fmdom (vs_transactions vs))"
proof -
  have key: "\<exists>v. u = um_id (vu_transaction v) \<and> fmlookup (vs_transactions vs) (mined_id u) = Some v" if "u |\<in>| U" for u
    using assms(2) that pool_key[OF assms(1)] by auto
  have "inj_on mined_id (fset U)"
  proof (rule inj_onI)
    fix u u' assume "u \<in> fset U" "u' \<in> fset U" "mined_id u = mined_id u'"
    then show "u = u'" using key[of u] key[of u'] by (metis option.inject)
  qed
  then show "distinct (map mined_id (it_ids I U))" "mined_id ` set (it_ids I U) = mined_id ` fset U"
    using hash_order.distinct_order[OF ids] hash_order.set_order[OF ids] by (simp_all add: distinct_map)
  show "mined_id ` fset U \<subseteq> fset (fmdom (vs_transactions vs))"
  proof (rule image_subsetI)
    fix u assume "u \<in> fset U" then show "mined_id u \<in> fset (fmdom (vs_transactions vs))" using key[of u] by (auto intro: fmdomI)
  qed
qed

lemma same_effects_Ok:
  fixes st :: "('t, 'ch) storage"
  assumes inv: "st_inv now st" and fresh: "fset mined \<inter> st_live now st Mined = {}"
  obtains r st' where "(reject_and_remove_same_effects B I now mined txs' st :: (removed_transaction_ids \<times> ('t, 'ch) storage, 'e) outcome) = Ok (r, st')"
    "st_inv now st'" "\<forall>k v. fmlookup (st_pool st') k = Some v \<longrightarrow> k |\<notin>| mined \<and> \<not> is_duplicate_spend txs' (vu_tx v)"
    "st_tx_cost_limit st' = st_tx_cost_limit st"
proof -
  have vs: "vs_inv (st_verified st)" using inv by (simp add: st_inv_def)
  obtain R1 v1 where one: "(remove_all_that (it_txs I) (\<lambda>tx. vu_id tx |\<in>| mined) (st_verified st) :: (unmined_tx_id hash_set \<times> verified_set, 'e) outcome) =
      Ok ((\<lambda>j. um_id (vu_transaction (the (fmlookup (st_pool st) j)))) |`| R1, v1)"
    "fset R1 = (depends (vs_transaction_dependencies (st_verified st)))\<^sup>* `` {k. \<exists>v. fmlookup (st_pool st) k = Some v \<and> vu_id v |\<in>| mined}"
    "vs_inv v1" "vs_transactions v1 = fmdrop_fset R1 (st_pool st)"
    by (rule remove_all_that_Ok[OF vs, where ?'e = 'e])
  define dup where "dup = fset_of_list (map (\<lambda>(_, tx). um_id (vu_transaction tx))
      (filter (\<lambda>(_, tx). is_duplicate_spend txs' (vu_tx tx)) (hm_iter (it_txs I) (vs_transactions v1))))"
  have dup: "u |\<in>| dup \<longleftrightarrow> (\<exists>k v. fmlookup (vs_transactions v1) k = Some v \<and> is_duplicate_spend txs' (vu_tx v) \<and> u = um_id (vu_transaction v))" for u
    using hash_order.set_hm_iter[OF txs, of "vs_transactions v1"] by (force simp: dup_def fset_of_list_elem)
  obtain R2 v2 where two: "(remove_all_that (it_txs I) (\<lambda>tx. um_id (vu_transaction tx) |\<in>| dup) v1 :: (unmined_tx_id hash_set \<times> verified_set, 'e) outcome) =
      Ok ((\<lambda>j. um_id (vu_transaction (the (fmlookup (vs_transactions v1) j)))) |`| R2, v2)"
    "fset R2 = (depends (vs_transaction_dependencies v1))\<^sup>* `` {k. \<exists>v. fmlookup (vs_transactions v1) k = Some v \<and> um_id (vu_transaction v) |\<in>| dup}"
    "vs_inv v2" "vs_transactions v2 = fmdrop_fset R2 (vs_transactions v1)"
    by (rule remove_all_that_Ok[OF one(3), where ?'e = 'e])
  have left: "k |\<notin>| mined \<and> um_id (vu_transaction v) |\<notin>| dup \<and> fmlookup (vs_transactions v1) k = Some v \<and> fmlookup (st_pool st) k = Some v"
    if "fmlookup (vs_transactions v2) k = Some v" for k v
  proof -
    have v: "fmlookup (vs_transactions v1) k = Some v" "k |\<notin>| R2" "fmlookup (st_pool st) k = Some v" "k |\<notin>| R1"
      using that unfolding two(4) one(4) by (auto simp: fmfilter_alt_defs split: if_splits)
    then have "um_id (vu_transaction v) |\<notin>| dup" unfolding two(2) by auto
    moreover have "k |\<notin>| mined" using v(3,4) pool_key[OF vs v(3)] unfolding one(2) by auto
    ultimately show ?thesis using v by blast
  qed
  define w where "w = st\<lparr>st_verified := v2\<rparr>"
  have "st_inv now (st\<lparr>st_verified := v1\<rparr>)" by (rule removed_inv[OF inv one(3,4)])
  from removed_inv[OF this two(3), of R2] two(4) have w: "st_inv now w" by (simp add: w_def)
  have "fset mined \<inter> fset (fmdom (st_pool w)) = {}" using left by (auto simp: w_def fmlookup_dom_iff)
  moreover have "distinct (map mined_id (map Legacy (it_txs I mined)))" "mined_id ` set (map Legacy (it_txs I mined)) = fset mined"
    using hash_order.distinct_order[OF txs] hash_order.set_order[OF txs] by (auto simp: comp_def image_iff)
  moreover have "fset mined \<inter> st_live now w Mined = {}" using fresh by (simp add: w_def)
  ultimately obtain s1 where s1: "(reject_each I now (SameEffectsChain Mined) (map Legacy (it_txs I mined)) w :: (('t, 'ch) storage, 'e) outcome) = Ok s1"
    "st_inv now s1" "\<forall>d. d \<noteq> Mined \<longrightarrow> st_live now s1 d = st_live now w d" "same_pool w s1"
    using reject_removed_Ok[OF w, of "map Legacy (it_txs I mined)" Mined, where ?'e = 'e] by metis
  have "\<forall>u. u |\<in>| dup \<longrightarrow> (\<exists>k v. fmlookup (vs_transactions v1) k = Some v \<and> u = um_id (vu_transaction v))" using dup by blast
  note ids = pool_ids[OF one(3) this]
  have "mined_id ` fset dup \<inter> st_live now s1 DuplicateSpend = {}"
    using s1(3)[rule_format, of DuplicateSpend] ids(3) inv unfolding st_inv_def one(4) w_def by auto
  moreover have "mined_id ` fset dup \<inter> fset (fmdom (st_pool s1)) = {}"
  proof -
    have "mined_id u |\<notin>| fmdom (vs_transactions v2)" if u: "u |\<in>| dup" for u
    proof
      assume "mined_id u |\<in>| fmdom (vs_transactions v2)"
      then obtain v where v: "fmlookup (vs_transactions v2) (mined_id u) = Some v" by (auto simp: fmlookup_dom_iff)
      from u dup obtain k v' where v': "fmlookup (vs_transactions v1) k = Some v'" "u = um_id (vu_transaction v')" by blast
      have "k = mined_id u" using pool_key[OF one(3) v'(1)] v'(2) by simp
      then show False using left[OF v] v' u by simp
    qed
    then show ?thesis using s1(4) by (auto simp: same_pool_def w_def)
  qed
  ultimately obtain s2 where s2: "(reject_each I now (SameEffectsChain DuplicateSpend) (it_ids I dup) s1 :: (('t, 'ch) storage, 'e) outcome) = Ok s2"
    "st_inv now s2" "same_pool s1 s2"
    using reject_removed_Ok[OF s1(2) ids(1), of DuplicateSpend, unfolded ids(2), where ?'e = 'e] by metis
  have pools: "st_pool s2 = vs_transactions v2" "st_tx_cost_limit s2 = st_tx_cost_limit st"
    using s1(4) s2(3) by (simp_all add: same_pool_def w_def)
  have "fset (fmdom (po_prune B (st_pending_outputs s2))) \<subseteq> fset (fmdom (st_pending_outputs s2))" by (auto simp: po_prune_def)
  then have fin: "st_inv now (s2\<lparr>st_pending_outputs := po_prune B (st_pending_outputs s2)\<rparr>)"
    using s2(2) by (auto simp: st_inv_def rejections_ok_def)
  have eq: "(reject_and_remove_same_effects B I now mined txs' st :: (removed_transaction_ids \<times> ('t, 'ch) storage, 'e) outcome) =
      Ok (\<lparr>rt_mined = (\<lambda>j. um_id (vu_transaction (the (fmlookup (st_pool st) j)))) |`| R1,
           rt_invalidated = (\<lambda>j. um_id (vu_transaction (the (fmlookup (vs_transactions v1) j)))) |`| R2\<rparr>,
          s2\<lparr>st_pending_outputs := po_prune B (st_pending_outputs s2)\<rparr>)"
    unfolding reject_and_remove_same_effects_def one(1) and_then.simps prod.case Let_def dup_def[symmetric] two(1) w_def[symmetric]
      s1(1) s2(1) ..
  show ?thesis by (rule that[OF eq fin]) (use left dup pools in auto)
qed

lemma remove_expired_Ok:
  fixes st :: "('t, 'ch) storage"
  assumes inv: "st_inv now st"
  obtains ids st' where "(remove_expired_transactions I now tip st :: (unmined_tx_id hash_set \<times> ('t, 'ch) storage, 'e) outcome) = Ok (ids, st')"
    "st_inv now st'" "\<forall>k v. fmlookup (st_pool st') k = Some v \<longrightarrow> fmlookup (st_pool st) k = Some v \<and> \<not> is_expired tip (vu_tx v)"
    "st_tx_cost_limit st' = st_tx_cost_limit st"
proof -
  have vs: "vs_inv (st_verified st)" using inv by (simp add: st_inv_def)
  define es where "es = filter (\<lambda>(_, tx). is_expired tip (vu_tx tx)) (hm_iter (it_txs I) (st_pool st))"
  define old where "old = fset_of_list (map fst es)"
  have old: "k |\<in>| old \<longleftrightarrow> (\<exists>v. fmlookup (st_pool st) k = Some v \<and> is_expired tip (vu_tx v))" for k
    using hash_order.set_hm_iter[OF txs, of "st_pool st"] by (force simp: old_def es_def fset_of_list_elem)
  obtain R v1 where one: "(remove_all_that (it_txs I) (\<lambda>tx. vu_id tx |\<in>| old) (st_verified st) :: (unmined_tx_id hash_set \<times> verified_set, 'e) outcome) =
      Ok ((\<lambda>j. um_id (vu_transaction (the (fmlookup (st_pool st) j)))) |`| R, v1)"
    "fset R = (depends (vs_transaction_dependencies (st_verified st)))\<^sup>* `` {k. \<exists>v. fmlookup (st_pool st) k = Some v \<and> vu_id v |\<in>| old}"
    "vs_inv v1" "vs_transactions v1 = fmdrop_fset R (st_pool st)"
    by (rule remove_all_that_Ok[OF vs, where ?'e = 'e])
  define w where "w = st\<lparr>st_verified := v1\<rparr>"
  have w: "st_inv now w" unfolding w_def by (rule removed_inv[OF inv one(3,4)])
  have left: "k |\<notin>| old \<and> fmlookup (st_pool st) k = Some v" if "fmlookup (vs_transactions v1) k = Some v" for k v
  proof -
    have v: "fmlookup (st_pool st) k = Some v" "k |\<notin>| R" using that unfolding one(4) by (auto simp: fmfilter_alt_defs split: if_splits)
    then show ?thesis using pool_key[OF vs v(1)] unfolding one(2) by auto
  qed
  have "distinct (map mined_id (map Legacy (it_txs I old)))" "mined_id ` set (map Legacy (it_txs I old)) = fset old"
    using hash_order.distinct_order[OF txs] hash_order.set_order[OF txs] by (auto simp: comp_def image_iff)
  moreover have "fset old \<inter> st_live now w Expired = {}"
    using old inv unfolding st_inv_def w_def by (auto intro: fmdomI)
  moreover have "fset old \<inter> fset (fmdom (st_pool w)) = {}" using left by (auto simp: w_def fmlookup_dom_iff)
  ultimately obtain s1 where s1: "(reject_each I now (SameEffectsChain Expired) (map Legacy (it_txs I old)) w :: (('t, 'ch) storage, 'e) outcome) = Ok s1"
    "st_inv now s1" "same_pool w s1"
    using reject_removed_Ok[OF w, of "map Legacy (it_txs I old)" Expired, where ?'e = 'e] by metis
  have eq: "(remove_expired_transactions I now tip st :: (unmined_tx_id hash_set \<times> ('t, 'ch) storage, 'e) outcome) =
      Ok (fset_of_list (map (\<lambda>(_, tx). um_id (vu_transaction tx)) es), s1)"
    unfolding remove_expired_transactions_def Let_def es_def[symmetric] old_def[symmetric] one(1) and_then.simps prod.case
      w_def[symmetric] s1(1) ..
  show ?thesis by (rule that[OF eq s1(2)]) (use s1(3) left old in \<open>auto simp: same_pool_def w_def\<close>)
qed

lemma clear_tip_Ok:
  fixes st :: "('t, 'ch) storage"
  assumes "st_inv now st"
  obtains st' where "(clear_tip_rejections I now st :: (('t, 'ch) storage, 'e) outcome) = Ok st'" "st_inv now st'" "same_pool st st'"
    "st_tip_rejected_exact st' = fmempty" "st_tip_rejected_same_effects st' = fmempty"
proof -
  let ?w = "st\<lparr>st_tip_rejected_exact := fmempty, st_tip_rejected_same_effects := fmempty\<rparr>"
  have "chain_inv now (st_chain_rejected_same_effects ?w)" using assms by (simp add: st_inv_def rejections_ok_def)
  then obtain m where m: "(update_rejected_metrics I now ?w :: (('t, 'ch) storage, 'e) outcome) = Ok (?w\<lparr>st_chain_rejected_same_effects := m\<rparr>)"
    "chain_inv now m" "live now m = st_live now ?w" by (rule metrics_Ok[where ?'e = 'e])
  have "st_inv now (?w\<lparr>st_chain_rejected_same_effects := m\<rparr>)"
    using assms m(2,3) by (simp add: st_inv_def rejections_ok_def fcard.rep_eq)
  with that m(1) show ?thesis by (simp add: clear_tip_rejections_def same_pool_def)
qed

lemma new_best_block_Ok:
  fixes st :: "('t, 'ch) storage"
  assumes inv: "st_inv now st" and fresh: "fset mined \<inter> st_live now st Mined = {}"
  obtains r e st' where "(new_best_block B I now mined txs' tip st :: (removed_transaction_ids \<times> unmined_tx_id hash_set \<times> ('t, 'ch) storage, 'e) outcome) = Ok (r, e, st')"
    "st_inv now st'" "st_tx_cost_limit st' = st_tx_cost_limit st"
    "\<forall>k v. fmlookup (st_pool st') k = Some v \<longrightarrow> k |\<notin>| mined \<and> \<not> is_duplicate_spend txs' (vu_tx v) \<and> \<not> is_expired tip (vu_tx v)"
proof -
  define w where "w = st_clear_mined_dependencies I mined st"
  have w: "st_inv now w" "st_tx_cost_limit w = st_tx_cost_limit st" "fset mined \<inter> st_live now w Mined = {}"
    using inv fresh vs_inv_clear_mined[OF txs, of "st_verified st" mined]
    by (auto simp: st_inv_def w_def st_clear_mined_dependencies_def vs_clear_mined_dependencies_def rejections_ok_def)
  obtain r s1 where s1: "(reject_and_remove_same_effects B I now mined txs' w :: (removed_transaction_ids \<times> ('t, 'ch) storage, 'e) outcome) = Ok (r, s1)"
    "st_inv now s1" "\<forall>k v. fmlookup (st_pool s1) k = Some v \<longrightarrow> k |\<notin>| mined \<and> \<not> is_duplicate_spend txs' (vu_tx v)"
    "st_tx_cost_limit s1 = st_tx_cost_limit w" by (rule same_effects_Ok[OF w(1,3), where ?'e = 'e])
  obtain s2 where s2: "(clear_tip_rejections I now s1 :: (('t, 'ch) storage, 'e) outcome) = Ok s2" "st_inv now s2" "same_pool s1 s2"
    "st_tip_rejected_exact s2 = fmempty" "st_tip_rejected_same_effects s2 = fmempty" by (rule clear_tip_Ok[OF s1(2), where ?'e = 'e])
  obtain e s3 where s3: "(remove_expired_transactions I now tip s2 :: (unmined_tx_id hash_set \<times> ('t, 'ch) storage, 'e) outcome) = Ok (e, s3)"
    "st_inv now s3" "\<forall>k v. fmlookup (st_pool s3) k = Some v \<longrightarrow> fmlookup (st_pool s2) k = Some v \<and> \<not> is_expired tip (vu_tx v)"
    "st_tx_cost_limit s3 = st_tx_cost_limit s2" by (rule remove_expired_Ok[OF s2(2), where ?'e = 'e])
  have eq: "(new_best_block B I now mined txs' tip st :: (removed_transaction_ids \<times> unmined_tx_id hash_set \<times> ('t, 'ch) storage, 'e) outcome) = Ok (r, e, s3)"
    unfolding new_best_block_def w_def[symmetric] using s1(1) s2(1) s3(1) by simp
  show ?thesis by (rule that[OF eq s3(2)]) (use s1(3,4) s2(3) s3(3,4) w(2) in \<open>auto simp: same_pool_def\<close>)
qed

end

end
