(* ===== verification/Mempool.thy ===== *)
theory Mempool
  imports Mempool_Storage "HOL-Library.Product_Lexorder"
begin

section \<open>Reachable mempools (zebrad/src/components/mempool.rs)\<close>

text \<open>
  The steps of the service on its storage and the mempools it can reach by them: the insertion of a
  verified transaction, a new best chain block, the expiry sweep that every poll runs, a request for an
  output, a requester that gives up, a failed download or verification, and a reset, which drops the
  storage (its destructor clears it) and starts with a new one. Times never go back. The assumptions of a
  step are what the service promises the storage: outputs can be written, sizes are far from 64 bits, and
  a block is not connected twice. A poll is a sequence of such steps. Polls without a tip, and the requests that only read, change nothing.
\<close>

datatype mempool_event =
    TxInserted verified_unmined_tx
  | BlockConnected
  | ExpirySwept
  | OutputAwaited nat outpoint
  | RequestAbandoned nat outpoint
  | TxInvalid unmined_tx_id
  | MempoolReset

text \<open>A step at a time, with its event and the answers it sends.\<close>

inductive mempool_step ::
  "'ch broadcast \<Rightarrow> script_solver \<Rightarrow> iteration \<Rightarrow> mempool_config \<Rightarrow> nat \<Rightarrow>
   ('t, 'ch) storage \<Rightarrow> mempool_event \<Rightarrow> deliveries \<Rightarrow> ('t, 'ch) storage \<Rightarrow> bool"
  for B S I config now st where
  insert: "(\<And>n. weighted_index (samples n)) \<Longrightarrow>
    \<forall>out \<in> set (outputs (vu_tx v)). valid_output out \<Longrightarrow> length (outputs (vu_tx v)) \<le> 2 ^ 32 \<Longrightarrow>
    5 * (unat (mc_tx_cost_limit config) + cost v) < 2 ^ 64 \<Longrightarrow>
    st_insert B S I samples now utc v spent h st = Ok (r, st', sent) \<Longrightarrow> mempool_step B S I config now st (TxInserted v) sent st'"
| block: "fset mined \<inter> st_live now st Mined = {} \<Longrightarrow>
    (new_best_block B I now mined txs tip st :: (removed_transaction_ids \<times> unmined_tx_id hash_set \<times> ('t, 'ch) storage, unit) outcome) =
      Ok (removed, expired, st') \<Longrightarrow> mempool_step B S I config now st BlockConnected {||} st'"
| sweep: "(remove_expired_transactions I now tip st :: (unmined_tx_id hash_set \<times> ('t, 'ch) storage, unit) outcome) = Ok (expired, st') \<Longrightarrow>
    mempool_step B S I config now st ExpirySwept {||} st'"
| await: "await_output B request p st = (sent, st') \<Longrightarrow> mempool_step B S I config now st (OutputAwaited request p) sent st'"
| abandon: "mempool_step B S I config now st (RequestAbandoned request p) {||}
    (st\<lparr>st_pending_outputs := po_abandon B request p (st_pending_outputs st)\<rparr>)"
| invalid: "(reject_if_needed I now uid e st :: (('t, 'ch) storage, unit) outcome) = Ok st' \<Longrightarrow>
    mempool_step B S I config now st (TxInvalid uid) {||} st'"
| reset: "(st_clear I now st :: (('t, 'ch) storage, unit) outcome) = Ok dropped \<Longrightarrow>
    mempool_step B S I config now st MempoolReset {||} (storage_new config)"

inductive_cases mempool_step_elim: "mempool_step B S I config now st e sent st'"

inductive reachable ::
  "'ch broadcast \<Rightarrow> script_solver \<Rightarrow> iteration \<Rightarrow> mempool_config \<Rightarrow> nat \<Rightarrow> ('t, 'ch) storage \<Rightarrow> bool"
  for B S I config where
  start: "reachable B S I config now (storage_new config)"
| step: "reachable B S I config t st \<Longrightarrow> t \<le> now \<Longrightarrow> mempool_step B S I config now st e sent st' \<Longrightarrow>
    reachable B S I config now st'"

lemma st_inv_new: "st_inv now (storage_new config)"
  by (simp add: st_inv_def storage_new_def vs_inv_default rejections_ok_def chain_inv_def live_def fcard.rep_eq)
    (simp add: verified_set_default_def)

lemma await_inv:
  assumes "broadcast_channel B" "st_inv now st" "await_output B request p st = (sent, st')"
  shows "st_inv now st'" "st_tx_cost_limit st' = st_tx_cost_limit st"
    "(\<exists>out. vs_created_output (st_verified st) p = Some out \<and> (request, out) |\<in>| sent) \<or>
     vs_created_output (st_verified st) p = None \<and> (p, request) \<in> waiting B (st_pending_outputs st')"
proof -
  note queue = broadcast_channel.waiting_queue[OF assms(1)]
  have "st_inv now st' \<and> st_tx_cost_limit st' = st_tx_cost_limit st \<and>
    ((\<exists>out. vs_created_output (st_verified st) p = Some out \<and> (request, out) |\<in>| sent) \<or>
     vs_created_output (st_verified st) p = None \<and> (p, request) \<in> waiting B (st_pending_outputs st'))"
  proof (cases "fmlookup (vs_created_outputs (st_verified st)) p")
    case None
    then have st': "st' = st\<lparr>st_pending_outputs := po_queue B request p (st_pending_outputs st)\<rparr>"
      using assms(3) by (simp add: await_output_def vs_created_output_def Let_def)
    have "p |\<notin>| fmdom (vs_created_outputs (st_verified st))" using None by (rule fmdom_notI)
    then have "st_inv now st'" using assms(2) by (auto simp: st_inv_def st' rejections_ok_def po_queue_def Let_def)
    then show ?thesis using None queue by (simp add: st' vs_created_output_def)
  next
    case (Some out)
    obtain s po where r: "po_respond B p out (po_queue B request p (st_pending_outputs st)) = (s, po)" by fastforce
    have st': "sent = s" "st' = st\<lparr>st_pending_outputs := po\<rparr>"
      using assms(3) Some r by (auto simp: await_output_def vs_created_output_def Let_def)
    note wr = broadcast_channel.waiting_respond[OF assms(1) r]
    have "fset (fmdom po) \<subseteq> fset (fmdom (st_pending_outputs st))"
      using wr(3,4) by (auto simp: po_queue_def Let_def fmlookup_dom_iff)
    then have "st_inv now st'" using assms(2) by (auto simp: st_inv_def st'(2) rejections_ok_def)
    moreover have "(request, out) |\<in>| sent" using wr(1) queue by (simp add: st')
    ultimately show ?thesis using Some by (simp add: st' vs_created_output_def)
  qed
  then show "st_inv now st'" "st_tx_cost_limit st' = st_tx_cost_limit st"
    "(\<exists>out. vs_created_output (st_verified st) p = Some out \<and> (request, out) |\<in>| sent) \<or>
     vs_created_output (st_verified st) p = None \<and> (p, request) \<in> waiting B (st_pending_outputs st')" by auto
qed

context iterations
begin

text \<open>Clearing the dropped storage never panics, so a reset is always possible.\<close>

lemma reset_returns:
  fixes st :: "('t, 'ch) storage"
  obtains st' where "(st_clear I now st :: (('t, 'ch) storage, 'e) outcome) = Ok st'"
proof -
  let ?w = "st\<lparr>st_verified := vs_clear (st_verified st), st_tip_rejected_exact := fmempty,
           st_pending_outputs := po_clear (st_pending_outputs st), st_tip_rejected_same_effects := fmempty,
           st_chain_rejected_same_effects := fmempty\<rparr>"
  have "chain_inv now (st_chain_rejected_same_effects ?w)" by (simp add: chain_inv_def)
  then obtain m where "(update_rejected_metrics I now ?w :: (('t, 'ch) storage, 'e) outcome) = Ok (?w\<lparr>st_chain_rejected_same_effects := m\<rparr>)"
    by (rule metrics_Ok[where ?'e = 'e])
  with that show ?thesis by (simp add: st_clear_def)
qed

lemma reject_if_needed_Ok:
  fixes st :: "('t, 'ch) storage"
  assumes "st_inv now st"
  obtains st' where "(reject_if_needed I now uid e st :: (('t, 'ch) storage, 'e) outcome) = Ok st'" "st_inv now st'" "same_pool st st'"
proof (cases "\<exists>t. e = Invalid t")
  case False
  then have "(reject_if_needed I now uid e st :: (('t, 'ch) storage, 'e) outcome) = Ok st" by (cases e) (auto simp: reject_if_needed_def)
  with that assms show ?thesis by simp
next
  case True
  then obtain t where e: "e = Invalid t" by blast
  have "rejections_ok now st" using assms by (simp add: st_inv_def)
  then obtain st' where st': "(st_reject I now uid (ExactTip (FailedVerification t)) st :: (('t, 'ch) storage, 'e) outcome) = Ok st'"
    "rejections_ok now st'" "st_live now st' = st_live now st" "same_pool st st'" by (rule reject_tip_Ok[of now st "ExactTip (FailedVerification t)" I uid, where ?'e = 'e]) simp_all
  have "st_inv now st'" using assms st'(2-4) by (simp add: st_inv_def same_pool_def)
  with that st' e show ?thesis by (simp add: reject_if_needed_def)
qed

lemma step_inv:
  fixes st :: "('t, 'ch) storage"
  assumes B: "broadcast_channel B" and st: "st_inv now st" "st_tx_cost_limit st = mc_tx_cost_limit config"
    and step: "mempool_step B S I config now st e sent st'"
  shows "st_inv now st' \<and> st_tx_cost_limit st' = mc_tx_cost_limit config"
  using step
proof (cases rule: mempool_step.cases)
  case (insert samples v utc spent h r)
  then have lim: "5 * (unat (st_tx_cost_limit st) + cost v) < 2 ^ 64" using st by simp
  obtain r2 st2 sent2 where
    "st_insert B S I samples now utc v spent h st = Ok (r2, st2, sent2)" "st_inv now st2" "st_tx_cost_limit st2 = st_tx_cost_limit st"
    by (rule st_insert_Ok[OF st(1) B insert(2,3,4) lim, where S = S and utc = utc and spent = spent and h = h])
  then show ?thesis using insert(6) st by simp
next
  case (block mined txs tip removed expired)
  obtain r e st2 where
    "(new_best_block B I now mined txs tip st :: (removed_transaction_ids \<times> unmined_tx_id hash_set \<times> ('t, 'ch) storage, unit) outcome) = Ok (r, e, st2)"
    "st_inv now st2" "st_tx_cost_limit st2 = st_tx_cost_limit st"
    "\<forall>k v. fmlookup (st_pool st2) k = Some v \<longrightarrow> k |\<notin>| mined \<and> \<not> is_duplicate_spend txs (vu_tx v) \<and> \<not> is_expired tip (vu_tx v)"
    by (rule new_best_block_Ok[OF st(1) block(3), where ?'e = unit and B = B and txs' = txs and tip = tip])
  then show ?thesis using block(4) st by simp
next
  case (sweep tip expired)
  obtain ids st2 where
    "(remove_expired_transactions I now tip st :: (unmined_tx_id hash_set \<times> ('t, 'ch) storage, unit) outcome) = Ok (ids, st2)"
    "st_inv now st2" "st_tx_cost_limit st2 = st_tx_cost_limit st"
    by (rule remove_expired_Ok[OF st(1), where ?'e = unit and tip = tip])
  then show ?thesis using sweep(3) st by simp
next
  case (await request p)
  then show ?thesis using await_inv(1,2)[OF B st(1)] st(2) by auto
next
  case (abandon request p)
  have "fmdom (po_abandon B request p (st_pending_outputs st)) = fmdom (st_pending_outputs st)"
    by (auto simp: po_abandon_def fmlookup_dom_iff split: option.splits)
  then show ?thesis using st abandon(3) by (auto simp: st_inv_def rejections_ok_def)
next
  case (invalid uid e)
  obtain st2 where "(reject_if_needed I now uid e st :: (('t, 'ch) storage, unit) outcome) = Ok st2" "st_inv now st2" "same_pool st st2"
    by (rule reject_if_needed_Ok[OF st(1), where ?'e = unit])
  then show ?thesis using invalid(3) st by (simp add: same_pool_def)
next
  case (reset dropped)
  then show ?thesis by (simp add: st_inv_new) (simp add: storage_new_def)
qed

lemma reachable_inv:
  fixes st :: "('t, 'ch) storage"
  assumes B: "broadcast_channel B" and r: "reachable B S I config now st"
  shows "st_inv now st \<and> st_tx_cost_limit st = mc_tx_cost_limit config"
  using r
proof (induction rule: reachable.induct)
  case (start now)
  show ?case by (simp add: st_inv_new) (simp add: storage_new_def)
next
  case (step t st now e sent st')
  then show ?case using step_inv[OF B st_inv_later] by blast
qed

end

subsection \<open>Sorted iteration\<close>

text \<open>Ids and errors are ordered by keys, so that sorted iteration is an instance for all collections.\<close>

definition unmined_id_key :: "unmined_tx_id \<Rightarrow> nat \<times> bytes \<times> bytes" where
  "unmined_id_key u = (case u of Legacy h \<Rightarrow> (0, h, []) | Witnessed w \<Rightarrow> (1, wt_id w, wt_auth_digest w))"

lemma unmined_id_key_eq [simp]: "unmined_id_key u = unmined_id_key v \<longleftrightarrow> u = v"
  by (auto simp: unmined_id_key_def split: unmined_tx_id.splits intro: wtx_id.equality)

instantiation unmined_tx_id :: linorder
begin

definition less_eq_unmined_tx_id :: "unmined_tx_id \<Rightarrow> unmined_tx_id \<Rightarrow> bool" where
  "less_eq_unmined_tx_id u v \<longleftrightarrow> unmined_id_key u \<le> unmined_id_key v"

definition less_unmined_tx_id :: "unmined_tx_id \<Rightarrow> unmined_tx_id \<Rightarrow> bool" where
  "less_unmined_tx_id u v \<longleftrightarrow> unmined_id_key u < unmined_id_key v"

instance
  by standard (auto simp: less_eq_unmined_tx_id_def less_unmined_tx_id_def order.strict_iff_order)

end

definition chain_error_key :: "same_effects_chain_rejection_error \<Rightarrow> nat" where
  "chain_error_key e = (case e of Expired \<Rightarrow> 0 | DuplicateSpend \<Rightarrow> 1 | Mined \<Rightarrow> 2 | RandomlyEvicted \<Rightarrow> 3)"

lemma chain_error_key_eq [simp]: "chain_error_key d = chain_error_key e \<longleftrightarrow> d = e"
  by (cases d; cases e) (simp_all add: chain_error_key_def)

instantiation same_effects_chain_rejection_error :: linorder
begin

definition less_eq_same_effects_chain_rejection_error :: "same_effects_chain_rejection_error \<Rightarrow> same_effects_chain_rejection_error \<Rightarrow> bool" where
  "less_eq_same_effects_chain_rejection_error d e \<longleftrightarrow> chain_error_key d \<le> chain_error_key e"

definition less_same_effects_chain_rejection_error :: "same_effects_chain_rejection_error \<Rightarrow> same_effects_chain_rejection_error \<Rightarrow> bool" where
  "less_same_effects_chain_rejection_error d e \<longleftrightarrow> chain_error_key d < chain_error_key e"

instance
  by standard (auto simp: less_eq_same_effects_chain_rejection_error_def less_same_effects_chain_rejection_error_def
      dest: antisym)

end

definition sorted_iteration :: iteration where
  "sorted_iteration = \<lparr>it_txs = sorted_list_of_fset, it_ids = sorted_list_of_fset, it_errors = sorted_list_of_fset\<rparr>"

interpretation sorted_iterations: iterations sorted_iteration
  by unfold_locales (simp_all add: sorted_iteration_def sorted_list_of_fset.rep_eq)

subsection \<open>Evictions and requests\<close>

lemma evict_loop_Inl: "evict_loop I samples n now uid result st = Ok (r, st') \<Longrightarrow> isl result \<Longrightarrow> isl r"
proof (induction I samples n now uid result st rule: evict_loop.induct)
  case (1 I samples n now uid result st)
  show ?case
  proof (cases "vs_total_cost (st_verified st) > st_tx_cost_limit st")
    case False
    then show ?thesis using 1(2,3) by (simp add: evict_loop.simps[of I samples n])
  next
    case True
    with 1(2) show ?thesis
      using 1(1)[OF True] 1(3) by (subst (asm) evict_loop.simps) (auto split: outcome.splits option.splits if_splits)
  qed
qed

lemma evict_loop_pending:
  "evict_loop I samples n now uid result st = Ok (r, st') \<Longrightarrow> st_pending_outputs st' = st_pending_outputs st"
proof (induction I samples n now uid result st rule: evict_loop.induct)
  case (1 I samples n now uid result st)
  show ?case
  proof (cases "vs_total_cost (st_verified st) > st_tx_cost_limit st")
    case False
    then show ?thesis using 1(2) by (simp add: evict_loop.simps[of I samples n])
  next
    case True
    with 1(2) show ?thesis
      using 1(1)[OF True] by (subst (asm) evict_loop.simps) (auto split: outcome.splits option.splits dest!: reject_keeps)
  qed
qed

lemma limit_bound: "unat (w :: u64) < 2 ^ 64"
  using unsigned_less[of w] by simp

context iterations
begin

lemma st_insert_Inr:
  assumes "st_insert B S I samples now utc v spent h st = Ok (Inr uid, st', sent)"
  obtains vs' where "vs_insert B utc v spent (st_pending_outputs st) h (st_verified st) = Ok (vs', st_pending_outputs st', sent)"
proof -
  have none: "rejection_error I now (um_id (vu_transaction v)) st = None" "vu_id v |\<notin>| fmdom (st_pool st)"
    using assms by (auto simp: st_insert_def Let_def vs_contains_def split: option.splits if_splits)
  note steps = st_insert_steps[OF none, where S = S and B = B and samples = samples and utc = utc and spent = spent and h = h]
  obtain u where std: "check_standard_tx S (st_max_datacarrier_bytes st) v = Ok u"
    using assms steps(1) none
    by (cases "check_standard_tx S (st_max_datacarrier_bytes st) v")
      (auto simp: rust_simps, auto simp: st_insert_def Let_def vs_contains_def reject_if_non_standard_tx_def)
  show ?thesis
  proof (cases "vs_insert B utc v spent (st_pending_outputs st) h (st_verified st)")
    case (Ok x)
    obtain vs' pending' s where x: "x = (vs', pending', s)" by (metis prod_cases3)
    have "and_then (evict_loop I samples 0 now (um_id (vu_transaction v)) (Inr (um_id (vu_transaction v)))
        (st\<lparr>st_verified := vs', st_pending_outputs := pending'\<rparr>)) (\<lambda>(r, st). Ok (r, st, s)) = Ok (Inr uid, st', sent)"
      using steps(3)[OF std Ok[unfolded x]] assms by simp
    then have "evict_loop I samples 0 now (um_id (vu_transaction v)) (Inr (um_id (vu_transaction v)))
        (st\<lparr>st_verified := vs', st_pending_outputs := pending'\<rparr>) = Ok (Inr uid, st')" and sent: "s = sent"
      by (auto simp: and_then_Ok_iff)
    from evict_loop_pending[OF this(1)] that[of vs'] Ok x sent show ?thesis by simp
  next
    case (Err e)
    from steps(2)[OF std Err, symmetric] assms show ?thesis by (simp add: and_then_Ok_iff) (auto dest!: evict_loop_Inl)
  next
    case Panic
    then show ?thesis using assms none std by (simp add: st_insert_def Let_def vs_contains_def reject_if_non_standard_tx_def)
  qed
qed

end

lemma vs_insert_answers:
  assumes "broadcast_channel B" "vs_insert B utc v spent pending h vs = Ok (vs', pending', sent)" "length (outputs (vu_tx v)) \<le> 2 ^ 32"
    "(q, r) \<in> waiting B pending"
  shows "if op_hash q = vu_id v \<and> op_index q < length (outputs (vu_tx v))
    then (r, outputs (vu_tx v) ! op_index q) |\<in>| sent else (q, r) \<in> waiting B pending'"
proof -
  obtain created where co: "create_outputs B (indexed_outputs (vu_id v) (vu_tx v)) (vs_created_outputs vs) pending = (created, pending', sent)"
    using assms(2) by (auto simp: vs_insert_def Let_def tx_outpoints_eq[OF assms(3)] split: if_splits prod.splits)
  note a = broadcast_channel.answered_by[OF assms(1) co distinct_indexed]
  show ?thesis
  proof (cases "op_hash q = vu_id v \<and> op_index q < length (outputs (vu_tx v))")
    case True
    then have "map_of (indexed_outputs (vu_id v) (vu_tx v)) q = Some (outputs (vu_tx v) ! op_index q)"
      unfolding map_of_indexed by (simp add: list_get_def)
    from map_of_SomeD[OF this] assms(4) have "(r, outputs (vu_tx v) ! op_index q) \<in> fset sent" unfolding a(1) by blast
    then show ?thesis using True by simp
  next
    case False
    then have "map_of (indexed_outputs (vu_id v) (vu_tx v)) q = None" unfolding map_of_indexed by (auto simp: list_get_def)
    then have "q \<notin> fst ` set (indexed_outputs (vu_id v) (vu_tx v))" unfolding map_of_eq_None_iff .
    then have "(q, r) \<in> waiting B pending'" using assms(4) unfolding a(2) by blast
    then show ?thesis using False by auto
  qed
qed

text \<open>What the steps do with the requests that wait.\<close>

lemma reject_each_pending:
  "(reject_each I now reason ids st :: (('t, 'ch) storage, 'e) outcome) = Ok st' \<Longrightarrow> st_pending_outputs st' = st_pending_outputs st"
  by (induction I now reason ids st rule: reject_each.induct) (auto simp: and_then_Ok_iff dest!: reject_keeps)

lemma expired_pending:
  "(remove_expired_transactions I now tip st :: (unmined_tx_id hash_set \<times> ('t, 'ch) storage, 'e) outcome) = Ok (expired, st') \<Longrightarrow>
   st_pending_outputs st' = st_pending_outputs st"
  by (auto simp: remove_expired_transactions_def Let_def and_then_Ok_iff dest!: reject_each_pending)

lemma block_pending:
  "(new_best_block B I now mined txs tip st :: (removed_transaction_ids \<times> unmined_tx_id hash_set \<times> ('t, 'ch) storage, 'e) outcome) =
     Ok (removed, expired, st') \<Longrightarrow> st_pending_outputs st' = po_prune B (st_pending_outputs st)"
  by (auto simp: new_best_block_def reject_and_remove_same_effects_def st_clear_mined_dependencies_def clear_tip_rejections_def
      Let_def and_then_Ok_iff dest!: expired_pending metrics_keeps reject_each_pending)

lemma invalid_pending:
  "(reject_if_needed I now uid e st :: (('t, 'ch) storage, 'e) outcome) = Ok st' \<Longrightarrow> st_pending_outputs st' = st_pending_outputs st"
  by (cases e) (auto simp: reject_if_needed_def dest!: reject_keeps)

lemma await_pending:
  assumes "broadcast_channel B" "await_output B request p st = (sent, st')" "vs_created_output (st_verified st) q = None"
    "(q, r) \<in> waiting B (st_pending_outputs st)"
  shows "(q, r) \<in> waiting B (st_pending_outputs st')"
proof (cases "vs_created_output (st_verified st) p")
  case None
  then show ?thesis
    using assms(2,4) broadcast_channel.waiting_queue[OF assms(1)] by (auto simp: await_output_def Let_def)
next
  case (Some out)
  obtain s po where r: "po_respond B p out (po_queue B request p (st_pending_outputs st)) = (s, po)" by fastforce
  have "st_pending_outputs st' = po" "q \<noteq> p" using assms(2,3) Some r by (auto simp: await_output_def Let_def)
  then show ?thesis
    using assms(4) broadcast_channel.waiting_respond(2)[OF assms(1) r] broadcast_channel.waiting_queue[OF assms(1)] by auto
qed

context iterations
begin

lemma st_insert_pending:
  assumes "st_insert B S I samples now utc v spent h st = Ok (r, st', sent)"
  shows "st_pending_outputs st' = st_pending_outputs st \<or>
    (\<exists>vs'. vs_insert B utc v spent (st_pending_outputs st) h (st_verified st) = Ok (vs', st_pending_outputs st', sent))"
proof (cases "rejection_error I now (um_id (vu_transaction v)) st = None \<and> vu_id v |\<notin>| fmdom (st_pool st)")
  case False
  then show ?thesis using assms by (auto simp: st_insert_def Let_def vs_contains_def split: option.splits if_splits)
next
  case True
  note steps = st_insert_steps[OF conjunct1[OF True] conjunct2[OF True], where S = S and B = B and samples = samples and utc = utc and spent = spent and h = h]
  show ?thesis
  proof (cases "check_standard_tx S (st_max_datacarrier_bytes st) v")
    case std: (Ok u)
    show ?thesis
    proof (cases "vs_insert B utc v spent (st_pending_outputs st) h (st_verified st)")
      case (Ok x)
      obtain vs' pending' s where x: "x = (vs', pending', s)" by (metis prod_cases3)
      show ?thesis
        using assms[unfolded steps(3)[OF std Ok[unfolded x]]] Ok x by (auto simp: and_then_Ok_iff dest!: evict_loop_pending)
    next
      case (Err e)
      show ?thesis using assms[unfolded steps(2)[OF std Err]] by (auto simp: and_then_Ok_iff dest!: evict_loop_pending reject_keeps)
    next
      case Panic
      then show ?thesis using assms True std by (simp add: st_insert_def Let_def vs_contains_def reject_if_non_standard_tx_def)
    qed
  next
    case (Err e)
    show ?thesis using assms[unfolded steps(1)[OF Err]] by (auto simp: and_then_Ok_iff dest!: reject_keeps)
  next
    case Panic
    then show ?thesis using assms True by (simp add: st_insert_def Let_def vs_contains_def reject_if_non_standard_tx_def)
  qed
qed

lemma step_waiting:
  assumes B: "broadcast_channel B" and step: "mempool_step B S I config now st e sent st'"
    and q: "(q, r) \<in> waiting B (st_pending_outputs st)" "vs_created_output (st_verified st) q = None"
  shows "(q, r) \<in> waiting B (st_pending_outputs st') \<or>
    (\<exists>v. e = TxInserted v \<and> op_hash q = vu_id v \<and> op_index q < length (outputs (vu_tx v)) \<and>
       (r, outputs (vu_tx v) ! op_index q) |\<in>| sent) \<or>
    e = RequestAbandoned r q \<or> e = MempoolReset"
  using step
proof (cases rule: mempool_step.cases)
  case (insert samples v utc spent h result)
  from st_insert_pending[OF insert(6)] show ?thesis
  proof
    assume "\<exists>vs'. vs_insert B utc v spent (st_pending_outputs st) h (st_verified st) = Ok (vs', st_pending_outputs st', sent)"
    then obtain vs' where "vs_insert B utc v spent (st_pending_outputs st) h (st_verified st) = Ok (vs', st_pending_outputs st', sent)" by blast
    from vs_insert_answers[OF B this insert(4) q(1)] insert(1) show ?thesis by (auto split: if_splits)
  qed (use q(1) in simp)
next
  case (block mined txs tip removed expired)
  then show ?thesis using q(1) broadcast_channel.waiting_prune[OF B] by (simp add: block_pending)
next
  case (sweep tip expired)
  then show ?thesis using q(1) by (simp add: expired_pending)
next
  case (await request p)
  then show ?thesis using await_pending[OF B _ q(2,1)] by blast
next
  case (abandon request p)
  then show ?thesis using q(1) broadcast_channel.waiting_abandon[OF B] by auto
next
  case (invalid uid error)
  then show ?thesis using q(1) by (simp add: invalid_pending)
next
  case (reset dropped)
  then show ?thesis by simp
qed

end

text \<open>The first eviction takes a transaction the new one spends from.\<close>

context iterations
begin

lemma parent_evicted:
  fixes st :: "('t, 'ch) storage"
  assumes inv: "st_inv now st" and B: "broadcast_channel B" and w: "\<And>n. weighted_index (samples n)"
    and new: "rejection_error I now (um_id (vu_transaction v)) st = None" "vu_id v |\<notin>| fmdom (st_pool st)"
    and std: "check_standard_tx S (st_max_datacarrier_bytes st) v = Ok ()"
    and ins: "insertable (st_verified st) v spent" "length (outputs (vu_tx v)) \<le> 2 ^ 32"
    and lim: "5 * (unat (st_tx_cost_limit st) + cost v) < 2 ^ 64"
    and full: "unat (st_tx_cost_limit st) < pool_sum cost (st_pool st) + cost v" and p: "p \<in> set spent"
    and pick: "\<exists>i < length entries. samples 0 (map (\<lambda>(_, tx). eviction_weight tx) entries) = Some i \<and> fst (entries ! i) = op_hash p"
    and entries: "entries = hm_iter (it_txs I) (fmupd (vu_id v) (v\<lparr>vu_time := Some utc, vu_height := h\<rparr>) (st_pool st))"
  shows "\<exists>st' sent. st_insert B S I samples now utc v spent h st = Ok (Inr (um_id (vu_transaction v)), st', sent) \<and>
    vu_id v |\<notin>| fmdom (st_pool st') \<and> (\<forall>e. vu_id v \<notin> st_live now st' e)"
proof -
  have vs: "vs_inv (st_verified st)" using inv by (simp add: st_inv_def)
  obtain vs1 pending1 sent where
    vi: "vs_insert B utc v spent (st_pending_outputs st) h (st_verified st) = Ok (vs1, pending1, sent)"
    and T: "vs_transactions vs1 = fmupd (vu_id v) (v\<lparr>vu_time := Some utc, vu_height := h\<rparr>) (st_pool st)"
    and deps: "depends (vs_transaction_dependencies vs1) = depends (vs_transaction_dependencies (st_verified st)) \<union> (\<lambda>p. (op_hash p, vu_id v)) ` set spent"
    and ev: "evicting now (st\<lparr>st_verified := vs1, st_pending_outputs := pending1\<rparr>)" (is "evicting now ?st1")
    by (rule inserted_evicting[OF inv B new ins lim])
  have vs1: "vs_inv vs1" "5 * pool_sum cost (vs_transactions vs1) < 2 ^ 64" using ev by (simp_all add: evicting_def)
  have sum: "pool_sum cost (vs_transactions vs1) = cost v + pool_sum cost (st_pool st)" unfolding T by (simp add: pool_sum_upd[OF new(2)])
  have "unat (vs_total_cost vs1) = pool_sum cost (vs_transactions vs1)" using vs1(2) by (intro vs_cost[OF vs1(1)]) simp
  then have over: "vs_total_cost (st_verified ?st1) > st_tx_cost_limit ?st1" using full sum by (simp add: word_less_nat_alt)
  have "op_hash p |\<in>| fmdom (st_pool st)"
    using ins(1) p created_of_pool[OF vs, of p] by (auto simp: insertable_def pool_output_def fmlookup_dom_iff split: option.splits)
  then have ne: "op_hash p \<noteq> vu_id v" using new(2) by auto
  from pick obtain i x where i: "i < length entries" "samples 0 (map (\<lambda>(_, tx). eviction_weight tx) entries) = Some i" "entries ! i = (op_hash p, x)"
    by (metis prod.collapse)
  have at: "vs_inv (st_verified ?st1)" "samples 0 (vs_weights (it_txs I) (st_verified ?st1)) = Some i"
    "i < length (hm_iter (it_txs I) (vs_transactions (st_verified ?st1)))" "hm_iter (it_txs I) (vs_transactions (st_verified ?st1)) ! i = (op_hash p, x)"
    using vs1(1) i unfolding entries by (simp_all add: T)
  obtain found0 vs0 where one: "(evict_one (it_txs I) (samples 0) (st_verified ?st1) :: (verified_unmined_tx option \<times> verified_set, unit) outcome) = Ok (Some x, vs0)"
    "fmlookup (vs_transactions (st_verified ?st1)) (op_hash p) = Some x" "vs_inv vs0"
    "fset found0 = (depends (vs_transaction_dependencies (st_verified ?st1)))\<^sup>+ `` {op_hash p} - {op_hash p}"
    "vs_transactions vs0 = fmdrop_fset (finsert (op_hash p) found0) (vs_transactions (st_verified ?st1))"
    by (rule evict_one_at[OF txs at(1), where sample = "samples 0" and ?'e = unit, OF at(2-4)])
  obtain k y found vs' st' where
    step: "(evict_one (it_txs I) (samples 0) (st_verified ?st1) :: (verified_unmined_tx option \<times> verified_set, unit) outcome) = Ok (Some y, vs')"
      "fmlookup (st_pool ?st1) k = Some y" "vu_id y = k"
      "fset found = (depends (vs_transaction_dependencies (st_verified ?st1)))\<^sup>+ `` {k} - {k}"
      "(st_reject I now (um_id (vu_transaction y)) (SameEffectsChain RandomlyEvicted) (?st1\<lparr>st_verified := vs'\<rparr>) :: (('t, 'ch) storage, unit) outcome) = Ok st'"
      "evicting now st'" "st_verified st' = vs'" "st_pool st' = fmdrop_fset (finsert k found) (st_pool ?st1)"
      "st_tx_cost_limit st' = st_tx_cost_limit ?st1" "k \<in> st_live now st' RandomlyEvicted"
      "st_pending_outputs st' = st_pending_outputs ?st1" "\<forall>d. st_live now st' d \<subseteq> st_live now ?st1 d \<union> {k}"
    by (rule evict_step[OF ev w over])
  have same: "y = x" "k = op_hash p" using step(1-3) one(1,2) pool_key[OF at(1) one(2)] by auto
  have "(op_hash p, vu_id v) \<in> depends (vs_transaction_dependencies vs1)" using p unfolding deps by blast
  then have "vu_id v \<in> fset found" using ne step(4) same by auto
  then have pool: "st_pool st' = fmdrop_fset (finsert k found) (st_pool st)" "vu_id v |\<notin>| fmdom (st_pool st')"
    unfolding step(8) by (auto simp: T fmfilter_alt_defs intro!: fmap_ext)
  have "pool_sum cost (st_pool st') \<le> unat (st_tx_cost_limit st)"
    unfolding pool(1) using inv pool_sum_subset[of cost "finsert k found" "st_pool st"] unfolding st_inv_def by linarith
  moreover have "unat (vs_total_cost (st_verified st')) = pool_sum cost (st_pool st')"
    using step(6) by (intro vs_cost) (auto simp: evicting_def)
  ultimately have "\<not> vs_total_cost (st_verified st') > st_tx_cost_limit st'" using step(9) by (simp add: word_less_nat_alt)
  moreover have "um_id (vu_transaction y) \<noteq> um_id (vu_transaction v)" using step(3) same ne by auto
  ultimately have "evict_loop I samples 0 now (um_id (vu_transaction v)) (Inr (um_id (vu_transaction v))) ?st1 = Ok (Inr (um_id (vu_transaction v)), st')"
    using over step(1,5) by (subst evict_loop.simps) (simp add: evict_loop.simps[of I samples "Suc 0"])
  moreover have "vu_id v \<notin> st_live now st' e" for e
    using step(12)[rule_format, of e] not_rejected[OF new(1), of e] same ne by auto
  ultimately show ?thesis using st_insert_steps(3)[OF new std vi] pool(2) by simp
qed

end

subsection \<open>Properties\<close>

text \<open>
  C30. In every reachable mempool no two transactions spend the same outpoint or reveal the same
  nullifier, the conflict check finds exactly the conflicts with a transaction of the mempool, the
  created outputs are exactly those of its transactions, the recorded total cost is their total cost and
  within the configured limit, and no transaction of the mempool is in a list of chain rejections.
\<close>

theorem mempool_consistent:
  assumes "iterations I" "broadcast_channel B" "reachable B S I config now st"
  shows "(\<forall>j k v w. fmlookup (st_pool st) j = Some v \<and> fmlookup (st_pool st) k = Some w \<and> j \<noteq> k \<longrightarrow>
      tx_reveals (vu_tx v) \<inter> tx_reveals (vu_tx w) = {}) \<and>
    (\<forall>um. has_spend_conflicts (st_verified st) um \<longleftrightarrow>
      (\<exists>k v. fmlookup (st_pool st) k = Some v \<and> tx_reveals (vu_tx v) \<inter> tx_reveals (um_transaction um) \<noteq> {})) \<and>
    (\<forall>p. vs_created_output (st_verified st) p = pool_output (st_pool st) p) \<and>
    unat (vs_total_cost (st_verified st)) = pool_sum cost (st_pool st) \<and>
    pool_sum cost (st_pool st) \<le> unat (mc_tx_cost_limit config) \<and>
    (\<forall>k e. k |\<in>| fmdom (st_pool st) \<longrightarrow> k \<notin> st_live now st e)"
proof -
  from iterations.reachable_inv[OF assms] have inv: "st_inv now st" and lim: "st_tx_cost_limit st = mc_tx_cost_limit config" by auto
  then have vs: "vs_inv (st_verified st)" and sum: "pool_sum cost (st_pool st) \<le> unat (mc_tx_cost_limit config)" by (auto simp: st_inv_def)
  have "pool_sum cost (st_pool st) < 2 ^ 64" by (rule le_less_trans[OF sum limit_bound])
  note cost = vs_cost[OF vs this]
  from vs have cached: "pool_ok (st_pool st)" "\<And>p. fmlookup (vs_created_outputs (st_verified st)) p = pool_output (st_pool st) p"
    "vs_reveals (st_verified st) = pool_reveals (st_pool st)" by (auto simp: vs_inv_def vs_cached_def)
  have "has_spend_conflicts (st_verified st) um \<longleftrightarrow>
      (\<exists>k v. fmlookup (st_pool st) k = Some v \<and> tx_reveals (vu_tx v) \<inter> tx_reveals (um_transaction um) \<noteq> {})" for um
    unfolding has_spend_conflicts_iff cached(3) pool_reveals_def by blast
  moreover have "\<forall>k e. k |\<in>| fmdom (st_pool st) \<longrightarrow> k \<notin> st_live now st e" using inv unfolding st_inv_def by auto
  moreover have "\<forall>j k v w. fmlookup (st_pool st) j = Some v \<and> fmlookup (st_pool st) k = Some w \<and> j \<noteq> k \<longrightarrow>
      tx_reveals (vu_tx v) \<inter> tx_reveals (vu_tx w) = {}" using cached(1) unfolding pool_ok_def by blast
  ultimately show ?thesis using cost sum cached(2) by (simp add: vs_created_output_def)
qed

text \<open>
  C31. From every reachable mempool an insertion returns: the eviction loop ends, nothing panics, and
  afterwards the total cost of the mempool is within the limit.
\<close>

theorem insertion_returns:
  assumes "iterations I" "broadcast_channel B" "reachable B S I config t st" "t \<le> now" "\<And>n. weighted_index (samples n)"
    "\<forall>out \<in> set (outputs (vu_tx v)). valid_output out" "length (outputs (vu_tx v)) \<le> 2 ^ 32"
    "5 * (unat (mc_tx_cost_limit config) + cost v) < 2 ^ 64"
  shows "\<exists>r st' sent. st_insert B S I samples now utc v spent h st = Ok (r, st', sent) \<and>
    vs_total_cost (st_verified st') \<le> mc_tx_cost_limit config \<and> pool_sum cost (st_pool st') \<le> unat (mc_tx_cost_limit config)"
proof -
  from iterations.reachable_inv[OF assms(1-3)] have st: "st_inv now st" and lim: "st_tx_cost_limit st = mc_tx_cost_limit config"
    using st_inv_later[OF _ assms(4)] by auto
  obtain r st' sent where ins: "st_insert B S I samples now utc v spent h st = Ok (r, st', sent)" "st_inv now st'"
    "st_tx_cost_limit st' = st_tx_cost_limit st"
    by (rule iterations.st_insert_Ok[OF assms(1) st assms(2,5,6,7), where S = S and utc = utc and spent = spent and h = h])
      (use assms(8) lim in simp)
  then have sum: "pool_sum cost (st_pool st') \<le> unat (mc_tx_cost_limit config)" by (simp add: st_inv_def lim)
  then have "pool_sum cost (st_pool st') < 2 ^ 64" by (rule le_less_trans[OF _ limit_bound])
  from vs_cost[OF _ this] ins(2) sum have "vs_total_cost (st_verified st') \<le> mc_tx_cost_limit config"
    by (simp add: st_inv_def word_le_nat_alt)
  with ins(1) sum show ?thesis by blast
qed

text \<open>
  C32. A request for an output the mempool has is answered at once, any other request waits, and no
  request ever waits for an output the mempool has. When a transaction is inserted, every request that
  waits for one of its outputs is answered with that output, while the other requests go on waiting. No
  other step of the service ends a wait, except that the requester gives up or the mempool is reset:
  blocks, expiry sweeps, failed downloads, other requests and insertions that fail keep every request
  that waits.
\<close>

theorem requests_answered:
  assumes "iterations I" "broadcast_channel B" "reachable B S I config now st"
  shows "(\<forall>request p sent st'. await_output B request p st = (sent, st') \<longrightarrow>
      (case vs_created_output (st_verified st) p of
         Some out \<Rightarrow> (request, out) |\<in>| sent
       | None \<Rightarrow> (p, request) \<in> waiting B (st_pending_outputs st'))) \<and>
    (\<forall>p request. (p, request) \<in> waiting B (st_pending_outputs st) \<longrightarrow> vs_created_output (st_verified st) p = None) \<and>
    (\<forall>samples later utc v spent h uid st' sent p request.
      st_insert B S I samples later utc v spent h st = Ok (Inr uid, st', sent) \<and> length (outputs (vu_tx v)) \<le> 2 ^ 32 \<and>
      (p, request) \<in> waiting B (st_pending_outputs st) \<longrightarrow>
      (if op_hash p = vu_id v \<and> op_index p < length (outputs (vu_tx v))
       then (request, outputs (vu_tx v) ! op_index p) |\<in>| sent
       else (p, request) \<in> waiting B (st_pending_outputs st'))) \<and>
    (\<forall>later e sent st' p request.
      mempool_step B S I config later st e sent st' \<and> (p, request) \<in> waiting B (st_pending_outputs st) \<longrightarrow>
      (p, request) \<in> waiting B (st_pending_outputs st') \<or>
      (\<exists>v. e = TxInserted v \<and> op_hash p = vu_id v \<and> op_index p < length (outputs (vu_tx v)) \<and>
         (request, outputs (vu_tx v) ! op_index p) |\<in>| sent) \<or>
      e = RequestAbandoned request p \<or> e = MempoolReset)"
proof -
  from iterations.reachable_inv[OF assms] have inv: "st_inv now st" by simp
  have awaited: "case vs_created_output (st_verified st) p of Some out \<Rightarrow> (request, out) |\<in>| sent
    | None \<Rightarrow> (p, request) \<in> waiting B (st_pending_outputs st')" if "await_output B request p st = (sent, st')" for request p sent st'
    using await_inv(3)[OF assms(2) inv that] by auto
  have absent: "vs_created_output (st_verified st) p = None" if "(p, request) \<in> waiting B (st_pending_outputs st)" for p request
  proof -
    from that have "p |\<in>| fmdom (st_pending_outputs st)" by (auto simp: waiting_def intro: fmdomI)
    then have "p |\<notin>| fmdom (vs_created_outputs (st_verified st))" using inv unfolding st_inv_def by auto
    then show ?thesis by (auto simp: vs_created_output_def)
  qed
  have inserted: "if op_hash p = vu_id v \<and> op_index p < length (outputs (vu_tx v))
       then (request, outputs (vu_tx v) ! op_index p) |\<in>| sent
       else (p, request) \<in> waiting B (st_pending_outputs st')"
    if a: "st_insert B S I samples later utc v spent h st = Ok (Inr uid, st', sent) \<and> length (outputs (vu_tx v)) \<le> 2 ^ 32 \<and>
      (p, request) \<in> waiting B (st_pending_outputs st)" for samples later utc v spent h uid st' sent p request
  proof -
    obtain vs' where "vs_insert B utc v spent (st_pending_outputs st) h (st_verified st) = Ok (vs', st_pending_outputs st', sent)"
      by (rule iterations.st_insert_Inr[OF assms(1) conjunct1[OF a]])
    from vs_insert_answers[OF assms(2) this] a show ?thesis by blast
  qed
  show ?thesis
    by (intro conjI allI impI awaited absent inserted iterations.step_waiting[OF assms(1,2)]) (assumption | (drule conjunct1, assumption) | blast intro: absent)+
qed

text \<open>
  C33. After a new best chain block, which is handled without panics, no transaction of the mempool is
  mined in the block, conflicts with a transaction of the block, or has expired.
\<close>

theorem block_cleans_mempool:
  assumes "iterations I" "broadcast_channel B" "reachable B S I config t (st :: ('t, 'ch) storage)" "t \<le> now"
    "fset mined \<inter> st_live now st Mined = {}"
  shows "\<exists>removed expired st'.
    (new_best_block B I now mined txs tip st :: (removed_transaction_ids \<times> unmined_tx_id hash_set \<times> ('t, 'ch) storage, unit) outcome) =
      Ok (removed, expired, st') \<and>
    (\<forall>k v. fmlookup (st_pool st') k = Some v \<longrightarrow>
       k |\<notin>| mined \<and> (\<forall>tx \<in> set txs. tx_reveals tx \<inter> tx_reveals (vu_tx v) = {}) \<and>
       (\<forall>expiry. expiry_height (vu_tx v) = Some expiry \<longrightarrow> tip < expiry))"
proof -
  from iterations.reachable_inv[OF assms(1-3)] have st: "st_inv now st" using st_inv_later[OF _ assms(4)] by auto
  obtain removed expired st' where
    eq: "(new_best_block B I now mined txs tip st :: (removed_transaction_ids \<times> unmined_tx_id hash_set \<times> ('t, 'ch) storage, unit) outcome) =
      Ok (removed, expired, st')" and "st_inv now st'" "st_tx_cost_limit st' = st_tx_cost_limit st"
    and clean: "\<forall>k v. fmlookup (st_pool st') k = Some v \<longrightarrow> k |\<notin>| mined \<and> \<not> is_duplicate_spend txs (vu_tx v) \<and> \<not> is_expired tip (vu_tx v)"
    by (rule iterations.new_best_block_Ok[OF assms(1) st assms(5), where ?'e = unit and B = B and txs' = txs and tip = tip])
  have "tx_reveals tx \<inter> tx_reveals u = {}" if "\<not> is_duplicate_spend txs u" "tx \<in> set txs" for tx u
    using that by (auto simp: is_duplicate_spend_def tx_reveals_def)
  moreover have "tip < expiry" if "\<not> is_expired tip u" "expiry_height u = Some expiry" for u expiry
    using that by (simp add: is_expired_def)
  ultimately show ?thesis using eq clean by blast
qed

text \<open>
  C34. An insertion can report success although the transaction is not in the mempool: when the
  mempool is over its limit and the evicted transaction is one that the new transaction spends from,
  the new transaction is removed as a dependent, but only the id of the evicted one is compared with it.
  It is also not remembered as rejected.
\<close>

theorem insert_reports_removed_transaction:
  assumes "iterations I" "broadcast_channel B" "reachable B S I config t st" "t \<le> now" "\<And>n. weighted_index (samples n)"
    "rejection_error I now (um_id (vu_transaction v)) st = None" "vu_id v |\<notin>| fmdom (st_pool st)"
    "check_standard_tx S (st_max_datacarrier_bytes st) v = Ok ()" "insertable (st_verified st) v spent"
    "length (outputs (vu_tx v)) \<le> 2 ^ 32" "5 * (unat (mc_tx_cost_limit config) + cost v) < 2 ^ 64"
    "unat (mc_tx_cost_limit config) < pool_sum cost (st_pool st) + cost v" "p \<in> set spent"
    "entries = hm_iter (it_txs I) (fmupd (vu_id v) (v\<lparr>vu_time := Some utc, vu_height := h\<rparr>) (st_pool st))"
    "i < length entries" "samples 0 (map (\<lambda>(_, tx). eviction_weight tx) entries) = Some i" "fst (entries ! i) = op_hash p"
  shows "\<exists>st' sent. st_insert B S I samples now utc v spent h st = Ok (Inr (um_id (vu_transaction v)), st', sent) \<and>
    vu_id v |\<notin>| fmdom (st_pool st') \<and> (\<forall>e. vu_id v \<notin> st_live now st' e)"
proof -
  from iterations.reachable_inv[OF assms(1-3)] have st: "st_inv now st" "st_tx_cost_limit st = mc_tx_cost_limit config"
    using st_inv_later[OF _ assms(4)] by auto
  have "5 * (unat (st_tx_cost_limit st) + cost v) < 2 ^ 64" "unat (st_tx_cost_limit st) < pool_sum cost (st_pool st) + cost v"
    using assms(11,12) st(2) by simp_all
  moreover have "\<exists>i < length entries. samples 0 (map (\<lambda>(_, tx). eviction_weight tx) entries) = Some i \<and> fst (entries ! i) = op_hash p"
    using assms(15-17) by blast
  ultimately show ?thesis
    using iterations.parent_evicted[where samples = samples and p = p and entries = entries and S = S and utc = utc and h = h,
        OF assms(1) st(1) assms(2,5-10)] assms(13,14) by blast
qed

subsection \<open>Witnesses\<close>

text \<open>A mempool for one transaction of minimal cost, and two transactions: the second spends an output of the first.\<close>

definition sample_config :: mempool_config where
  "sample_config = \<lparr>mc_tx_cost_limit = 15000, mc_eviction_memory_time = 3600, mc_max_datacarrier_bytes = None\<rparr>"

definition sample_solver :: script_solver where
  "sample_solver = \<lparr>ss_is_push_only = \<lambda>_. True, ss_parse = \<lambda>_. [], ss_standard = \<lambda>_. Some NullData, ss_sig_op_count = \<lambda>_. 0\<rparr>"

definition sample_output :: tx_output where
  "sample_output = \<lparr>out_value = 1000, lock_script = []\<rparr>"

definition sample_verified :: "bytes \<Rightarrow> transaction \<Rightarrow> verified_unmined_tx" where
  "sample_verified h tx =
     \<lparr>vu_transaction = \<lparr>um_transaction = tx, um_id = Legacy h, um_size = 100, um_conventional_fee = 10000\<rparr>,
      vu_miner_fee = 10000, vu_legacy_sigop_count = 0, vu_p2sh_sigop_count = 0, vu_conventional_actions = 2,
      vu_unpaid_actions = 0, vu_time = None, vu_height = None, vu_spent_outputs = []\<rparr>"

definition sample_outpoint :: outpoint where
  "sample_outpoint = \<lparr>op_hash = [1], op_index = 0\<rparr>"

definition sample_parent :: verified_unmined_tx where
  "sample_parent = sample_verified [1] (V1 [] [sample_output] (LockHeight 0))"

definition sample_child :: verified_unmined_tx where
  "sample_child = sample_verified [2] (V1 [PrevOut sample_outpoint [] 0] [] (LockHeight 0))"

lemma sample_txs [simp]:
  "vu_id sample_parent = [1]" "vu_id sample_child = [2]" "outputs (vu_tx sample_parent) = [sample_output]"
  "outputs (vu_tx sample_child) = []" "cost sample_parent = 10000" "cost sample_child = 10000"
  "um_id (vu_transaction sample_parent) = Legacy [1]" "um_id (vu_transaction sample_child) = Legacy [2]"
  "tx_reveals (vu_tx sample_parent) = {}" "valid_output sample_output"
  by (simp_all add: sample_parent_def sample_child_def sample_verified_def cost_def MEMPOOL_TRANSACTION_COST_THRESHOLD_def
      tx_reveals_def spent_outpoints_def sprout_nullifiers_def orchard_nullifiers_def ironwood_nullifiers_def of_bundle_def
      sample_output_def valid_output_def contains_def money_defs alloc_defs)

lemma sample_standard:
  "check_standard_tx sample_solver 83 sample_parent = Ok ()" "check_standard_tx sample_solver 83 sample_child = Ok ()"
  by (simp_all add: check_standard_tx_def check_spent_outputs_def sample_parent_def sample_child_def sample_verified_def
      sample_solver_def sample_output_def MAX_STANDARD_SCRIPTSIG_SIZE_def Let_def)

abbreviation sample_draws :: "nat \<Rightarrow> nat list \<Rightarrow> nat option" where
  "sample_draws \<equiv> \<lambda>_. cumulative_sample 0"

abbreviation sample_parent_entry :: verified_unmined_tx where
  "sample_parent_entry \<equiv> sample_parent\<lparr>vu_time := Some 0, vu_height := None\<rparr>"

lemma sample_draws_ok: "weighted_index (sample_draws n)"
  by (rule cumulative.weighted_index_axioms)

lemma sample_storage:
  fixes po :: "'ch pending_outputs"
  defines "st \<equiv> (storage_new sample_config :: (unit, 'ch) storage)\<lparr>st_pending_outputs := po\<rparr>"
  shows "st_inv 0 st" "st_tx_cost_limit st = 15000" "st_max_datacarrier_bytes st = 83" "st_pool st = fmempty"
    "rejection_error sorted_iteration now uid st = None" "vs_reveals (st_verified st) = {}"
  using st_inv_new[of 0 sample_config, where ?'a = unit and ?'b = 'ch]
  by (simp_all add: st_def st_inv_def rejections_ok_def)
    (simp_all add: storage_new_def sample_config_def verified_set_default_def DEFAULT_MAX_DATACARRIER_BYTES_def rejection_error_def
      hm_iter_def sorted_iteration_def List.map_filter_def sorted_list_of_fset.rep_eq vs_reveals_def)

lemma sample_inserted:
  fixes po :: "'ch pending_outputs"
  defines "st \<equiv> (storage_new sample_config :: (unit, 'ch) storage)\<lparr>st_pending_outputs := po\<rparr>"
  assumes "broadcast_channel B"
  obtains vs' pending' sent where
    "st_insert B sample_solver sorted_iteration sample_draws 0 0 sample_parent [] None st =
      Ok (Inr (Legacy [1]), st\<lparr>st_verified := vs', st_pending_outputs := pending'\<rparr>, sent)"
    "vs_transactions vs' = fmupd [1] sample_parent_entry fmempty" "vs_inv vs'"
proof -
  note st = sample_storage[where po = po, folded st_def]
  have new: "rejection_error sorted_iteration 0 (um_id (vu_transaction sample_parent)) st = None" "vu_id sample_parent |\<notin>| fmdom (st_pool st)"
    using st(4,5) by simp_all
  have ins: "insertable (st_verified st) sample_parent []" "length (outputs (vu_tx sample_parent)) \<le> 2 ^ 32"
    using st(6) by (simp_all add: insertable_def)
  have lim: "5 * (unat (st_tx_cost_limit st) + cost sample_parent) < 2 ^ 64" using st(2) by simp
  obtain vs' pending' sent where
    vi: "vs_insert B 0 sample_parent [] (st_pending_outputs st) None (st_verified st) = Ok (vs', pending', sent)"
    and T: "vs_transactions vs' = fmupd (vu_id sample_parent) sample_parent_entry (st_pool st)"
    and "depends (vs_transaction_dependencies vs') = depends (vs_transaction_dependencies (st_verified st)) \<union> (\<lambda>p. (op_hash p, vu_id sample_parent)) ` set ([] :: outpoint list)"
    and ev: "evicting 0 (st\<lparr>st_verified := vs', st_pending_outputs := pending'\<rparr>)"
    by (rule sorted_iterations.inserted_evicting[OF st(1) assms(2) new ins lim, where utc = 0 and h = None])
  have vs: "vs_inv vs'" using ev by (simp add: evicting_def)
  have sum: "pool_sum cost (vs_transactions vs') = 10000" unfolding T st(4) by (simp add: pool_sum_upd)
  have "unat (vs_total_cost vs') = 10000" using vs_cost[OF vs] sum by simp
  then have "\<not> vs_total_cost vs' > st_tx_cost_limit st" using st(2) by (simp add: word_less_nat_alt)
  then have "evict_loop sorted_iteration sample_draws 0 0 (Legacy [1]) (Inr (Legacy [1])) (st\<lparr>st_verified := vs', st_pending_outputs := pending'\<rparr>) =
      Ok (Inr (Legacy [1]), st\<lparr>st_verified := vs', st_pending_outputs := pending'\<rparr>)"
    by (subst evict_loop.simps) simp
  moreover have "check_standard_tx sample_solver (st_max_datacarrier_bytes st) sample_parent = Ok ()" using st(3) sample_standard(1) by simp
  note iterations.st_insert_steps(3)[OF sorted_iterations.iterations_axioms new this vi, of sample_draws]
  ultimately have "st_insert B sample_solver sorted_iteration sample_draws 0 0 sample_parent [] None st =
      Ok (Inr (Legacy [1]), st\<lparr>st_verified := vs', st_pending_outputs := pending'\<rparr>, sent)" by simp
  with that T vs st(4) show ?thesis by simp
qed

text \<open>The mempool with the first transaction is reachable.\<close>

lemma sample_reachable:
  obtains st :: "(unit, nat hash_set) storage" where
    "reachable set_channel sample_solver sorted_iteration sample_config 0 st" "st_pool st = fmupd [1] sample_parent_entry fmempty"
    "vs_inv (st_verified st)" "st_tx_cost_limit st = 15000" "st_max_datacarrier_bytes st = 83"
    "st_chain_rejected_same_effects st = fmempty" "rejection_error sorted_iteration 0 (Legacy [2]) st = None"
proof -
  let ?st = "storage_new sample_config :: (unit, nat hash_set) storage"
  have eq: "?st\<lparr>st_pending_outputs := st_pending_outputs ?st\<rparr> = ?st" by simp
  obtain vs' pending' sent where
    ins: "st_insert set_channel sample_solver sorted_iteration sample_draws 0 0 sample_parent [] None ?st =
        Ok (Inr (Legacy [1]), ?st\<lparr>st_verified := vs', st_pending_outputs := pending'\<rparr>, sent)"
      "vs_transactions vs' = fmupd [1] sample_parent_entry fmempty" "vs_inv vs'"
    by (rule sample_inserted[OF set_channels.broadcast_channel_axioms, where po = "st_pending_outputs ?st", unfolded eq])
  let ?st' = "?st\<lparr>st_verified := vs', st_pending_outputs := pending'\<rparr>"
  have r: "reachable set_channel sample_solver sorted_iteration sample_config 0 ?st'"
    by (rule reachable.step[OF reachable.start order_refl mempool_step.insert[OF sample_draws_ok _ _ _ ins(1)]])
      (simp_all add: sample_config_def)
  note st = sample_storage[where po = "st_pending_outputs ?st", unfolded eq]
  have "rejection_error sorted_iteration 0 (Legacy [2]) ?st' = rejection_error sorted_iteration 0 (Legacy [2]) ?st"
    by (simp add: rejection_error_def split: option.split)
  moreover have "st_chain_rejected_same_effects ?st' = fmempty" by (simp add: storage_new_def)
  ultimately show ?thesis by (intro that[OF r]) (use ins(2,3) st in simp_all)
qed

lemmas sample_parts = sorted_iterations.iterations_axioms set_channels.broadcast_channel_axioms

theorem mempool_consistent_witness:
  "\<exists>st :: (unit, nat hash_set) storage. reachable set_channel sample_solver sorted_iteration sample_config 0 st \<and>
     vs_created_output (st_verified st) sample_outpoint = Some sample_output \<and> unat (vs_total_cost (st_verified st)) = 10000"
proof -
  obtain st :: "(unit, nat hash_set) storage" where
    st: "reachable set_channel sample_solver sorted_iteration sample_config 0 st" "st_pool st = fmupd [1] sample_parent_entry fmempty"
    by (rule sample_reachable)
  from mempool_consistent[OF sample_parts st(1)] show ?thesis
    using st by (intro exI[of _ st]) (simp add: pool_output_def sample_outpoint_def list_get_def pool_sum_upd)
qed

theorem insertion_returns_witness:
  "\<exists>r (st :: (unit, nat hash_set) storage) sent.
     st_insert set_channel sample_solver sorted_iteration sample_draws 7 0 sample_parent [] None (storage_new sample_config) = Ok (r, st, sent) \<and>
     pool_sum cost (st_pool st) \<le> 15000"
  using insertion_returns[OF sample_parts reachable.start le0 sample_draws_ok,
      where v = sample_parent and S = sample_solver and utc = 0 and spent = "[]" and h = None and config = sample_config and now = 7]
  by (auto simp: sample_config_def)

text \<open>An empty block from a reachable mempool.\<close>

lemma sample_block_step:
  fixes st :: "(unit, nat hash_set) storage"
  assumes "reachable set_channel sample_solver sorted_iteration sample_config 0 st"
  obtains st' where "mempool_step set_channel sample_solver sorted_iteration sample_config 9 st BlockConnected {||} st'"
proof -
  from sorted_iterations.reachable_inv[OF sample_parts(2) assms] have inv: "st_inv 9 st" using st_inv_later[of 0 st 9] by simp
  have none: "fset {||} \<inter> st_live 9 st Mined = {}" by simp
  obtain r e st' where
    "(new_best_block set_channel sorted_iteration 9 {||} [] 5 st ::
       (removed_transaction_ids \<times> unmined_tx_id hash_set \<times> (unit, nat hash_set) storage, unit) outcome) = Ok (r, e, st')"
    by (rule sorted_iterations.new_best_block_Ok[OF inv none, where ?'e = unit and B = set_channel and txs' = "[]" and tip = 5])
  from that[OF mempool_step.block[OF none this]] show ?thesis .
qed

theorem requests_answered_witness:
  "\<exists>st :: (unit, nat hash_set) storage. reachable set_channel sample_solver sorted_iteration sample_config 0 st \<and>
     (sample_outpoint, 7) \<in> waiting set_channel (st_pending_outputs st) \<and>
     (\<exists>st' sent. st_insert set_channel sample_solver sorted_iteration sample_draws 0 0 sample_parent [] None st =
        Ok (Inr (Legacy [1]), st', sent) \<and> (7, sample_output) |\<in>| sent) \<and>
     (\<exists>st'. mempool_step set_channel sample_solver sorted_iteration sample_config 9 st BlockConnected {||} st' \<and>
        (sample_outpoint, 7) \<in> waiting set_channel (st_pending_outputs st'))"
proof -
  let ?st = "storage_new sample_config :: (unit, nat hash_set) storage"
  let ?po = "po_queue set_channel 7 sample_outpoint (st_pending_outputs ?st)"
  let ?w = "?st\<lparr>st_pending_outputs := ?po\<rparr>"
  have "await_output set_channel 7 sample_outpoint ?st = ({||}, ?w)"
    by (simp add: await_output_def vs_created_output_def Let_def) (simp add: storage_new_def verified_set_default_def)
  then have r: "reachable set_channel sample_solver sorted_iteration sample_config 0 ?w" 
    by (rule reachable.step[OF reachable.start order_refl mempool_step.await])
  have w: "(sample_outpoint, 7) \<in> waiting set_channel (st_pending_outputs ?w)"
    using set_channels.waiting_queue[of 7 sample_outpoint] by simp
  obtain vs' pending' sent where
    ins: "st_insert set_channel sample_solver sorted_iteration sample_draws 0 0 sample_parent [] None ?w =
        Ok (Inr (Legacy [1]), ?w\<lparr>st_verified := vs', st_pending_outputs := pending'\<rparr>, sent)"
      "vs_transactions vs' = fmupd [1] sample_parent_entry fmempty" "vs_inv vs'"
    by (rule sample_inserted[OF set_channels.broadcast_channel_axioms, where po = ?po])
  have few: "length (outputs (vu_tx sample_parent)) \<le> 2 ^ 32" by simp
  note answered = conjunct2[OF conjunct2[OF requests_answered[OF sample_parts r]]]
  from conjunct1[OF answered, rule_format, OF conjI[OF ins(1) conjI[OF few w]]]
  have "(7, sample_output) |\<in>| sent" by (simp add: sample_outpoint_def)
  moreover obtain st' where step: "mempool_step set_channel sample_solver sorted_iteration sample_config 9 ?w BlockConnected {||} st'"
    by (rule sample_block_step[OF r])
  have "(sample_outpoint, 7) \<in> waiting set_channel (st_pending_outputs st')"
    using conjunct2[OF answered, rule_format, OF conjI[OF step w]] by simp
  ultimately show ?thesis using r w ins(1) step by blast
qed

theorem block_cleans_mempool_witness:
  "\<exists>(st :: (unit, nat hash_set) storage) removed expired st'. reachable set_channel sample_solver sorted_iteration sample_config 0 st \<and>
     [1] |\<in>| fmdom (st_pool st) \<and>
     (new_best_block set_channel sorted_iteration 9 {|[1]|} [] 5 st ::
       (removed_transaction_ids \<times> unmined_tx_id hash_set \<times> (unit, nat hash_set) storage, unit) outcome) = Ok (removed, expired, st') \<and>
     [1] |\<notin>| fmdom (st_pool st')"
proof -
  obtain st :: "(unit, nat hash_set) storage" where
    st: "reachable set_channel sample_solver sorted_iteration sample_config 0 st" "st_pool st = fmupd [1] sample_parent_entry fmempty"
      "st_chain_rejected_same_effects st = fmempty"
    by (rule sample_reachable)
  have "fset {|[1]|} \<inter> st_live 9 st Mined = {}" using st(3) by (simp add: live_def)
  from block_cleans_mempool[OF sample_parts st(1) le0 this, of "[]" 5] obtain removed expired st' where
    b: "(new_best_block set_channel sorted_iteration 9 {|[1]|} [] 5 st ::
       (removed_transaction_ids \<times> unmined_tx_id hash_set \<times> (unit, nat hash_set) storage, unit) outcome) = Ok (removed, expired, st')"
      "\<forall>k v. fmlookup (st_pool st') k = Some v \<longrightarrow> k |\<notin>| {|[1]|}" by blast
  then have "[1] |\<notin>| fmdom (st_pool st')" by (auto simp: fmlookup_dom_iff)
  with st b(1) show ?thesis by (metis fmdom_fmupd finsertI1)
qed

theorem insert_reports_removed_transaction_witness:
  "\<exists>(st :: (unit, nat hash_set) storage) st' sent. reachable set_channel sample_solver sorted_iteration sample_config 0 st \<and>
     st_insert set_channel sample_solver sorted_iteration sample_draws 0 0 sample_child [sample_outpoint] None st =
       Ok (Inr (Legacy [2]), st', sent) \<and> [2] |\<notin>| fmdom (st_pool st')"
proof -
  obtain st :: "(unit, nat hash_set) storage" where
    st: "reachable set_channel sample_solver sorted_iteration sample_config 0 st" "st_pool st = fmupd [1] sample_parent_entry fmempty"
      "vs_inv (st_verified st)" "st_tx_cost_limit st = 15000" "st_max_datacarrier_bytes st = 83"
      "rejection_error sorted_iteration 0 (Legacy [2]) st = None"
    by (rule sample_reachable)
  let ?child = "sample_child\<lparr>vu_time := Some 0, vu_height := None\<rparr>"
  define entries where "entries = hm_iter (it_txs sorted_iteration) (fmupd [2] ?child (st_pool st))"
  have entries: "entries = [([1], sample_parent_entry), ([2], ?child)]"
    by (simp add: entries_def st(2) hm_iter_def sorted_iteration_def sorted_list_of_fset.rep_eq List.map_filter_def)
  have w: "0 < eviction_weight sample_parent_entry" by (rule eviction_weight_pos)
  then have draw: "sample_draws 0 (map (\<lambda>(_, tx). eviction_weight tx) entries) = Some 0"
    by (simp add: entries cumulative_sample_def)
  have ins: "insertable (st_verified st) sample_child [sample_outpoint]"
    using st(3) created_of_pool[OF st(3), of sample_outpoint]
    by (simp add: insertable_def vs_inv_def vs_cached_def pool_reveals_def st(2) pool_output_def sample_outpoint_def list_get_def)
  show ?thesis
    using insert_reports_removed_transaction[OF sample_parts st(1) order_refl sample_draws_ok, where v = sample_child and
        spent = "[sample_outpoint]" and p = sample_outpoint and entries = entries and i = 0 and utc = 0 and h = None]
      st ins draw entries sample_standard(2)
    by (auto simp: entries_def sample_config_def pool_sum_upd sample_outpoint_def)
qed

end
