(* ===== verification/Spec2Isabelle.thy ===== *)
theory Spec2Isabelle
  imports Value_Balance Regtest_Network Difficulty_Adjustment Mempool
begin

text \<open>
  A verification library for a Zcash full node with the Zakura peer-to-peer stack. It models the
  consensus core of the node, the rules by which blocks and transactions are encoded, valued and
  accepted, and the in-memory state the node keeps around them.

  \<^bold>\<open>The program.\<close> The crate \<open>zebra-chain\<close> holds the data of the chain (amounts, heights, network
  parameters, transactions, blocks) and their encodings; \<open>zebra-consensus\<close> checks blocks and
  transactions on their own; \<open>zebra-state\<close> checks them against the chain they extend and stores them;
  \<open>zebra-network\<close> talks to peers; \<open>zebrad\<close> runs the mempool and the synchroniser on top. A block comes
  in as bytes, is read (wire formats), checked (transaction and block checks, which need subsidies,
  Merkle roots and script-free transaction rules), checked in context (spends, nullifiers, anchors,
  difficulty) and then changes the value pools and the chain. The theories follow that order.

  \<^bold>\<open>Conventions.\<close> A Rust \<open>Result\<close> that may also panic is an \<open>outcome\<close> with the constructors \<open>Ok\<close>, \<open>Err\<close>
  and \<open>Panic\<close> (theory \<open>Rust_Prelude\<close>), so every \<open>?\<close>, \<open>expect\<close>, assertion and early return of the source
  is a branch of the model. Integers are \<open>int\<close> or \<open>nat\<close> with the checks, the saturation or the
  wrap-around of the source written out, and words where the code works on bits. A \<open>BTreeMap\<close> is the
  ascending list of its entries (\<open>BTree_Map\<close>). Functions of crates outside the repository (hashes,
  curve checks, the script library, Equihash) are arguments, and what the code relies on is the
  assumption of a locale with an instance.

  \<^bold>\<open>Theories and what they show.\<close>

  \<^item> \<open>Amount\<close> (\<open>amount.rs\<close>): amounts with their range constraints.
    Arithmetic is exact or reports the overflow, sums of amounts are exact.
  \<^item> \<open>Value_Balance\<close> (\<open>value_balance.rs\<close>): the six value pools. The
    change of the chain value pool is exact, negative pools are refused, and the database form
    round-trips.
  \<^item> \<open>Block_Height\<close> (\<open>block/height.rs\<close>): heights and their arithmetic
    with 64-bit wrap-around, exact where it is used.
  \<^item> \<open>Difficulty\<close> (\<open>work/difficulty.rs\<close>): compact and expanded
    thresholds and work. Expansion is the specified \<open>ToTarget\<close>, compaction rounds down,
    work is the specified quotient.
  \<^item> \<open>Network_Upgrade\<close>, \<open>Network_Params\<close>, \<open>Regtest_Network\<close>
    (\<open>parameters/network_upgrade.rs\<close>, \<open>network.rs\<close>,
    \<open>testnet.rs\<close>): upgrade schedules, the parameters builder and Regtest. Configured
    schedules are consistent, except for one accepted misconfiguration that is shown; a Regtest network
    is recognised as one.
  \<^item> \<open>Checkpoint_List\<close> (\<open>parameters/checkpoint/list.rs\<close>): the validated
    list, its queries and its text format. A list is accepted exactly when it is well formed.
  \<^item> \<open>Subsidy_Constants\<close>, \<open>Subsidy\<close>
    (\<open>parameters/network/subsidy.rs\<close>, its constants,
    \<open>zebra-consensus/src/block/subsidy.rs\<close>): halvings, subsidies, founders reward and
    funding streams. Mainnet issuance is capped, each block's subsidy is divided without loss, and the
    addresses of the tables suffice.
  \<^item> \<open>Serialization\<close>, \<open>Codecs\<close> (\<open>serialization/\<close>): the
    consensus encoding. The locale \<open>zcash_codec\<close> is the contract of a codec (valid values
    are written and read back, accepted bytes are the encoding of what was read, reading never panics);
    \<open>Codecs\<close> has the combinators that keep it.
  \<^item> \<open>Transparent\<close>, \<open>Transaction\<close> (\<open>transparent.rs\<close>,
    \<open>transaction.rs\<close>): inputs, outputs, coinbase heights, the six transaction versions,
    their accessors and value balances. Inputs have one encoding; the value balance of a transaction is
    exact.
  \<^item> \<open>Merkle\<close>, \<open>Block_Header\<close>, \<open>Block\<close> (\<open>block.rs and
    block/\<close>): Merkle trees, headers, commitments, blocks and the outputs they create.
  \<^item> \<open>Shielded_Codec\<close>, \<open>Tx_Codec\<close>
    (\<open>transaction/serialize.rs\<close>, \<open>block/serialize.rs\<close>): the wire formats of
    shielded bundles, of all transaction versions and of blocks. The reader's panic on a key that is not
    a curve point is modelled, and the locale \<open>redjubjub_keys\<close> is what rules it out. Valid
    values have exactly one accepted encoding; the one exception, a reserved flag the version 5 reader
    accepts, is shown.
  \<^item> \<open>Context_Checks\<close> (\<open>zebra-state/src/service/check/\<close>): transparent
    spends, nullifiers, anchors. The spend check accepts exactly the blocks whose spends are available,
    unspent, mature and cover what they pay.
  \<^item> \<open>Difficulty_Adjustment\<close>
    (\<open>zebra-state/src/service/check/difficulty.rs\<close>): the adjusted threshold and median-time
    rules. On a full context a header is accepted exactly when its threshold is the adjusted one and its
    time is in the median-time window; the early-chain rule differs from its comment at one height,
    which is shown.
  \<^item> \<open>Unmined\<close> (\<open>transaction/unmined.rs\<close>,
    \<open>unmined/zip317.rs\<close>): unmined transactions, conventional fees, costs and eviction
    weights. The fee checks are equivalent to paying the conventional fee.
  \<^item> \<open>Hash_Collections\<close>, \<open>Mempool_Dependencies\<close>
    (\<open>zebra-node-services/src/mempool/transaction_dependencies.rs\<close>): hash sets and maps
    with an unspecified iteration order (the locale \<open>hash_order\<close>) and the dependencies
    between mempool transactions. Removal finds the transitive dependents.
  \<^item> \<open>Eviction_List\<close>
    (\<open>zebrad/src/components/mempool/storage/eviction_list.rs\<close>): the bounded list of
    recently rejected ids.
  \<^item> \<open>Pending_Outputs\<close>
    (\<open>zebrad/src/components/mempool/pending_outputs.rs\<close>): requests that wait for outputs,
    over broadcast channels (the locale \<open>broadcast_channel\<close>).
  \<^item> \<open>Verified_Set\<close>
    (\<open>zebrad/src/components/mempool/storage/verified_set.rs\<close>): the verified transactions
    with their caches, totals and random eviction (the locale \<open>weighted_index\<close>). Every
    operation keeps the caches exact.
  \<^item> \<open>Mempool_Policy\<close>, \<open>Mempool_Storage\<close>
    (\<open>zebrad/src/components/mempool/storage/policy.rs\<close>, \<open>storage.rs\<close>): the
    standardness checks, rejection lists and the storage. The locale \<open>iterations\<close> has the
    iteration orders of its hash collections.
  \<^item> \<open>Mempool\<close> (\<open>zebrad/src/components/mempool.rs\<close>): the steps of the
    service on its storage and the mempools it can reach. They are consistent, insertions return within
    the cost limit, requests for outputs wait until they are answered, abandoned or reset, blocks clean
    the mempool; one insertion that reports a removed transaction is shown.

  \<^bold>\<open>Bounds and termination.\<close> No model uses fuel: every loop of the source is a structural recursion
  over the list it walks or a \<open>fun\<close> with a measure, so every modelled operation returns. Sizes are the
  ones of the source (\<open>MAX_BLOCK_BYTES\<close>, the allocation limits of vectors, \<open>Height::MAX\<close>, \<open>MAX_MONEY\<close>).

  \<^bold>\<open>Not modelled.\<close> Proof, signature and script verification, hash functions and
  curve arithmetic are third-party code and arguments of the model. Asynchronous services, network and
  disk input and output, timers, logging, metrics, JSON-RPC glue, the command line and test support have
  no modelled state. Floating-point helpers are left out. Files are read and hexadecimal text is decoded
  by functions that are arguments. Of the code that is neither, these parts are not translated: the
  standalone block and transaction checks and the checkpoint verifier of zebra-consensus, the
  non-finalized chains, queued blocks, history tree, database formats and read requests of zebra-state,
  the peer address book and peer set of zebra-network, the Zakura block and header synchronisation, and
  the block templates of zebra-rpc.
\<close>

end
